(* ===== verification/Prelude.thy ===== *)
theory Prelude
  imports Complex_Main "HOL-Library.Word"
begin

text \<open>
  Shared vocabulary of the development: machine integers, the byte-addressed memory of the
  process, the outcome of a call (a value, a panic, or a loop that was not given enough
  fuel), strided ranges (\<^verbatim>\<open>(a..b).step_by(s)\<close>) and the generic lemmas the components use.
  Rust in the release profile of this workspace does not check overflow, so \<^verbatim>\<open>usize\<close>
  and \<^verbatim>\<open>u64\<close> arithmetic is arithmetic of \<^typ>\<open>64 word\<close>.
\<close>

unbundle bit_operations_syntax

named_theorems mem_simps \<open>reads over writes of the byte memory\<close>
named_theorems io_simps \<open>unfolding of the effect combinators\<close>
named_theorems code_defs \<open>constants of the program\<close>

type_synonym u8 = "8 word"
type_synonym u32 = "32 word"
type_synonym u64 = "64 word"
type_synonym usize = "64 word"

section \<open>Byte memory\<close>

text \<open>Host virtual addresses are natural numbers; multi-byte accesses are little-endian.\<close>

type_synonym mem = "nat \<Rightarrow> u8"

primrec read_le :: "nat \<Rightarrow> mem \<Rightarrow> nat \<Rightarrow> 'w::len word" where
  "read_le 0 m a = 0"
| "read_le (Suc n) m a = (ucast (m a) OR push_bit 8 (read_le n m (Suc a)))"

definition write_le :: "nat \<Rightarrow> mem \<Rightarrow> nat \<Rightarrow> 'w::len word \<Rightarrow> mem" where
  "write_le n m a v = (\<lambda>x. if a \<le> x \<and> x < a + n then ucast (drop_bit (8 * (x - a)) v) else m x)"

definition read32 :: "mem \<Rightarrow> nat \<Rightarrow> u32" where
  "read32 m a = read_le 4 m a"

definition write32 :: "mem \<Rightarrow> nat \<Rightarrow> u32 \<Rightarrow> mem" where
  "write32 m a v = write_le 4 m a v"

definition read64 :: "mem \<Rightarrow> nat \<Rightarrow> u64" where
  "read64 m a = read_le 8 m a"

definition write64 :: "mem \<Rightarrow> nat \<Rightarrow> u64 \<Rightarrow> mem" where
  "write64 m a v = write_le 8 m a v"

lemma bit_read_le:
  "bit (read_le n m a :: 'w::len word) k \<longleftrightarrow>
     k < 8 * n \<and> k < LENGTH('w) \<and> bit (m (a + k div 8)) (k mod 8)"
proof (induction n arbitrary: a k)
  case 0
  then show ?case by simp
next
  case (Suc n)
  show ?case
  proof (cases "k < 8")
    case True
    then show ?thesis
      by (auto simp: bit_or_iff bit_ucast_iff bit_push_bit_iff dest: bit_imp_le_length)
  next
    case False
    have d: "a + k div 8 = Suc a + (k - 8) div 8" and r: "k mod 8 = (k - 8) mod 8"
      using False by (auto simp: le_div_geq le_mod_geq)
    have "\<not> bit (ucast (m a) :: 'w word) k"
      using False by (auto simp: bit_ucast_iff dest: bit_imp_le_length)
    then show ?thesis
      using False d r by (auto simp: bit_or_iff bit_push_bit_iff Suc.IH dest: bit_imp_le_length)
  qed
qed

lemma read_write_le_same:
  assumes "8 * n = LENGTH('w::len)"
  shows "read_le n (write_le n m a (v :: 'w word)) a = v"
proof (rule bit_word_eqI)
  fix k assume k: "k < LENGTH('w)"
  then have "k div 8 < n" using assms by (simp add: less_mult_imp_div_less mult.commute)
  moreover have "k mod 8 < 8" by simp
  ultimately show "bit (read_le n (write_le n m a v) a :: 'w word) k = bit v k"
    using k assms by (simp add: bit_read_le write_le_def bit_ucast_iff bit_drop_bit_eq)
qed

lemma read_le_cong:
  "(\<And>x. a \<le> x \<Longrightarrow> x < a + n \<Longrightarrow> m x = m' x) \<Longrightarrow> read_le n m a = read_le n m' a"
  by (induction n arbitrary: a) auto

lemma read_write_le_other:
  assumes "a + n \<le> b \<or> b + k \<le> a"
  shows "read_le n (write_le k m b v) a = read_le n m a"
  using assms by (intro read_le_cong) (auto simp: write_le_def)

lemma read64_write64_same [mem_simps, simp]: "read64 (write64 m a v) a = v"
  by (simp add: read64_def write64_def read_write_le_same)

lemma read32_write32_same [mem_simps, simp]: "read32 (write32 m a v) a = v"
  by (simp add: read32_def write32_def read_write_le_same)

lemma read64_write64_other [mem_simps]:
  "a + 8 \<le> b \<or> b + 8 \<le> a \<Longrightarrow> read64 (write64 m b v) a = read64 m a"
  by (simp add: read64_def write64_def read_write_le_other)

lemma read32_write64_other [mem_simps]:
  "a + 4 \<le> b \<or> b + 8 \<le> a \<Longrightarrow> read32 (write64 m b v) a = read32 m a"
  by (simp add: read32_def write64_def read_write_le_other)

lemma read32_write32_other [mem_simps]:
  "a + 4 \<le> b \<or> b + 4 \<le> a \<Longrightarrow> read32 (write32 m b v) a = read32 m a"
  by (simp add: read32_def write32_def read_write_le_other)

lemma read64_cong:
  "(\<And>x. a \<le> x \<Longrightarrow> x < a + 8 \<Longrightarrow> m x = m' x) \<Longrightarrow> read64 m a = read64 m' a"
  unfolding read64_def by (rule read_le_cong)

lemma read32_cong:
  "(\<And>x. a \<le> x \<Longrightarrow> x < a + 4 \<Longrightarrow> m x = m' x) \<Longrightarrow> read32 m a = read32 m' a"
  unfolding read32_def by (rule read_le_cong)

lemma write64_outside: "x < a \<or> a + 8 \<le> x \<Longrightarrow> write64 m a v x = m x"
  by (auto simp: write64_def write_le_def)

lemma read_le_zero: "(\<And>x. a \<le> x \<Longrightarrow> x < a + n \<Longrightarrow> m x = 0) \<Longrightarrow> read_le n m a = 0"
  by (induction n arbitrary: a) auto

lemma read64_zero: "(\<And>x. a \<le> x \<Longrightarrow> x < a + 8 \<Longrightarrow> m x = 0) \<Longrightarrow> read64 m a = 0"
  unfolding read64_def by (rule read_le_zero)

lemma write_read_le: "8 * n \<le> LENGTH('w::len) \<Longrightarrow> write_le n m a (read_le n m a :: 'w word) = m"
proof (rule ext)
  fix x assume n: "8 * n \<le> LENGTH('w)"
  show "write_le n m a (read_le n m a :: 'w word) x = m x"
  proof (cases "a \<le> x \<and> x < a + n")
    case True
    have "(ucast (drop_bit (8 * (x - a)) (read_le n m a :: 'w word)) :: u8) = m x"
    proof (rule bit_word_eqI)
      fix k assume "k < LENGTH(8)"
      then have k: "k < 8" by simp
      have "8 * (x - a) + k < 8 * n" using True k by linarith
      moreover have "(8 * (x - a) + k) div 8 = x - a" "(8 * (x - a) + k) mod 8 = k" using k by auto
      ultimately show "bit (ucast (drop_bit (8 * (x - a)) (read_le n m a :: 'w word)) :: u8) k = bit (m x) k"
        using True k n by (simp add: bit_ucast_iff bit_drop_bit_eq bit_read_le)
    qed
    then show ?thesis using True by (simp add: write_le_def)
  qed (auto simp: write_le_def)
qed

lemma write64_read64 [mem_simps, simp]: "write64 m a (read64 m a) = m"
  by (simp add: write64_def read64_def write_read_le)

section \<open>Strided ranges\<close>

text \<open>\<^verbatim>\<open>(a..b).step_by(s)\<close>: the offsets a, a+s, \dots below b.\<close>

definition step_by :: "nat \<Rightarrow> nat \<Rightarrow> nat \<Rightarrow> nat list" where
  "step_by a b s = map (\<lambda>i. a + i * s) [0..<(b - a + s - 1) div s]"

lemma step_by_length: "length (step_by a b s) = (b - a + s - 1) div s"
  by (simp add: step_by_def)

lemma step_by_distinct: "0 < s \<Longrightarrow> distinct (step_by a b s)"
  by (auto simp: step_by_def distinct_map inj_on_def)

lemma div_up_iff: "0 < (s::nat) \<Longrightarrow> i < (n + s - 1) div s \<longleftrightarrow> i * s < n"
proof -
  assume s: "0 < s"
  have "i < (n + s - 1) div s \<longleftrightarrow> Suc i \<le> (n + s - 1) div s" by (simp only: Suc_le_eq)
  also have "\<dots> \<longleftrightarrow> Suc i * s \<le> n + s - 1" using s by (simp add: less_eq_div_iff_mult_less_eq)
  also have "\<dots> \<longleftrightarrow> i * s < n" using s by auto
  finally show ?thesis .
qed

lemma set_step_by:
  assumes "0 < s"
  shows "set (step_by a b s) = {x. a \<le> x \<and> x < b \<and> (x - a) mod s = 0}"
proof -
  have "x \<in> set (step_by a b s) \<longleftrightarrow> a \<le> x \<and> x < b \<and> (x - a) mod s = 0" for x
  proof
    assume "x \<in> set (step_by a b s)"
    then obtain i where "x = a + i * s" "i < (b - a + s - 1) div s"
      unfolding step_by_def set_map set_upt image_iff by force
    then show "a \<le> x \<and> x < b \<and> (x - a) mod s = 0" using div_up_iff [OF assms] by auto
  next
    assume h: "a \<le> x \<and> x < b \<and> (x - a) mod s = 0"
    then have x: "x = a + ((x - a) div s) * s" by (metis add_diff_inverse_nat div_mult_mod_eq add_0_right not_less)
    have "(x - a) div s < (b - a + s - 1) div s"
      using div_up_iff [OF assms] h by (metis add_0_right diff_less_mono div_mult_mod_eq)
    then have "(x - a) div s \<in> {0..<(b - a + s - 1) div s}" by simp
    then show "x \<in> set (step_by a b s)"
      unfolding step_by_def set_map set_upt by (rule image_eqI [where f = "\<lambda>i. a + i * s", OF x])
  qed
  then show ?thesis by (simp only: set_eq_iff mem_Collect_eq) simp
qed

lemma step_by_empty [simp]: "b \<le> a \<Longrightarrow> 0 < s \<Longrightarrow> step_by a b s = []"
  by (simp add: step_by_def)

lemma step_by_Cons:
  assumes "a < b" "0 < s"
  shows "step_by a b s = a # step_by (a + s) b s"
proof -
  define n where "n = (b - a - 1) div s"
  have n: "(b - a + s - 1) div s = Suc n"
  proof -
    have "b - a + s - 1 = (b - a - 1) + s" using assms by simp
    then show ?thesis using assms by (simp only: n_def div_add_self2)
  qed
  have m: "(b - (a + s) + s - 1) div s = n"
  proof (cases "a + s \<le> b")
    case True
    then have "b - (a + s) + s - 1 = b - a - 1" using assms by simp
    then show ?thesis by (simp add: n_def)
  next
    case False
    then show ?thesis using assms by (simp add: n_def)
  qed
  have "step_by a b s = map (\<lambda>i. a + i * s) (0 # map Suc [0..<n])"
    unfolding step_by_def n by (simp add: upt_conv_Cons [of 0 "Suc n"] map_Suc_upt del: upt_Suc)
  also have "\<dots> = a # map (\<lambda>i. a + s + i * s) [0..<n]"
    by (simp add: algebra_simps)
  finally show ?thesis unfolding step_by_def m .
qed

section \<open>Outcomes\<close>

text \<open>
  What a call of the program ends in: a value, a panic (\<^verbatim>\<open>assert!\<close>, \<^verbatim>\<open>expect\<close>,
  \<^verbatim>\<open>panic!\<close>, a failed \<^verbatim>\<open>check\<close>), or neither within the fuel given to a loop that the
  environment may keep going.
\<close>

datatype panic =
    CheckFailed string int       \<comment> \<open>\<^verbatim>\<open>hvf::check\<close>: what failed, the return code\<close>
  | AssertFailed string          \<comment> \<open>a failed \<^verbatim>\<open>assert!\<close>, \<^verbatim>\<open>assert_eq!\<close> or \<^verbatim>\<open>assert_ne!\<close>\<close>
  | Expect string                \<comment> \<open>\<^verbatim>\<open>expect\<close>/\<^verbatim>\<open>unwrap\<close> on an error or on nothing\<close>
  | Explicit string              \<comment> \<open>\<^verbatim>\<open>panic!\<close>\<close>
  | UnexpectedExit u32 u64 u64   \<comment> \<open>\<^verbatim>\<open>run_to_doorbell\<close>: reason, exception class, address\<close>

datatype 'a outcome = Ok 'a | Panic panic | OutOfFuel

lemma unat_lt64: "unat (v :: u64) < 2 ^ 64"
  using unsigned_less [of v, where ?'a = nat] by simp

lemma unat_of_nat64: "n < 2 ^ 64 \<Longrightarrow> unat (of_nat n :: u64) = n"
  by (simp add: unat_of_nat)

lemma unat_add_bound: "unat (a::u64) + n < 2 ^ 64 \<Longrightarrow> unat (a + of_nat n) = unat a + n"
  by (simp add: unat_word_ariths unat_of_nat)

end
