(* ===== verification/Host.thy ===== *)
theory Host
  imports Prelude
begin

text \<open>
  The boundary of the program: the foreign structs and constants the sources declare
  (\<^verbatim>\<open>ledger/src/lib.rs\<close>, \<^verbatim>\<open>hv-reclaim/src/hvf.rs\<close>), the calls that leave the
  sources, and the effect type every operation of the model has.

  The kernel, Hypervisor.framework and the clock are not part of the sources. They are one
  parameter, a \<open>kernel\<close>: a function from a call, the kernel's own state (of any type) and
  the memory of the process to a response, a new state and a new memory. The program's own
  loads and stores are the only other way its memory changes. A world records every call in
  order, with the response, and every line printed.
\<close>

section \<open>Foreign structs and constants\<close>

text \<open>\<^verbatim>\<open>struct TaskVmInfo\<close>, a truncated \<^verbatim>\<open>task_vm_info\<close>.\<close>

record task_vm_info =
  virtual_size :: u64
  region_count :: "32 word"
  page_size :: "32 word"
  resident_size :: u64
  resident_size_peak :: u64
  device :: u64
  device_peak :: u64
  internal :: u64
  internal_peak :: u64
  external :: u64
  external_peak :: u64
  reusable_bytes :: u64
  reusable_peak :: u64
  purgeable_volatile_pmap :: u64
  purgeable_volatile_resident :: u64
  purgeable_volatile_virtual :: u64
  compressed_bytes :: u64
  compressed_peak :: u64
  compressed_lifetime :: u64
  phys_footprint_bytes :: u64

text \<open>\<^verbatim>\<open>struct RusageInfoV2\<close> of \<^verbatim>\<open>vz-ratchet/src/helper.rs\<close>, less its \<^verbatim>\<open>uuid\<close>.\<close>

record rusage_info =
  user_time :: u64
  system_time :: u64
  pkg_idle_wkups :: u64
  interrupt_wkups :: u64
  pageins :: u64
  wired_size :: u64
  ri_resident_size :: u64
  ri_phys_footprint :: u64
  proc_start_abstime :: u64
  proc_exit_abstime :: u64
  child_user_time :: u64
  child_system_time :: u64
  child_pkg_idle_wkups :: u64
  child_interrupt_wkups :: u64
  child_pageins :: u64
  child_elapsed_abstime :: u64
  diskio_bytesread :: u64
  diskio_byteswritten :: u64

text \<open>\<^verbatim>\<open>struct HvVcpuExitException\<close> and \<^verbatim>\<open>struct HvVcpuExitInfo\<close>.\<close>

record exit_exception =
  syndrome :: u64
  virtual_address :: u64
  physical_address :: u64

record exit_info =
  reason :: u32
  exception :: exit_exception

definition HV_ALLOCATE_DEFAULT :: u64 where [code_defs]: "HV_ALLOCATE_DEFAULT = 0"
definition HV_MEMORY_READ :: u64 where [code_defs]: "HV_MEMORY_READ = push_bit 0 1"
definition HV_MEMORY_WRITE :: u64 where [code_defs]: "HV_MEMORY_WRITE = push_bit 1 1"
definition HV_MEMORY_EXEC :: u64 where [code_defs]: "HV_MEMORY_EXEC = push_bit 2 1"
definition HV_REG_X1 :: u32 where [code_defs]: "HV_REG_X1 = 1"
definition HV_REG_X2 :: u32 where [code_defs]: "HV_REG_X2 = 2"
definition HV_REG_X3 :: u32 where [code_defs]: "HV_REG_X3 = 3"
definition HV_REG_X4 :: u32 where [code_defs]: "HV_REG_X4 = 4"
definition HV_REG_X5 :: u32 where [code_defs]: "HV_REG_X5 = 5"
definition HV_REG_X6 :: u32 where [code_defs]: "HV_REG_X6 = 6"
definition HV_REG_PC :: u32 where [code_defs]: "HV_REG_PC = 31"
definition HV_REG_CPSR :: u32 where [code_defs]: "HV_REG_CPSR = 34"
definition HV_EXIT_REASON_CANCELED :: u32 where [code_defs]: "HV_EXIT_REASON_CANCELED = 0"
definition HV_EXIT_REASON_EXCEPTION :: u32 where [code_defs]: "HV_EXIT_REASON_EXCEPTION = 1"
definition EC_DATA_ABORT_LOWER_EL :: u64 where [code_defs]: "EC_DATA_ABORT_LOWER_EL = 0x24"
definition PSTATE_EL1H_MASKED :: u64 where [code_defs]: "PSTATE_EL1H_MASKED = 0x3C5"

text \<open>The flags and advices of \<^verbatim>\<open>libc\<close> the sources name.\<close>

datatype map_flag = MAP_ANON | MAP_PRIVATE | MAP_SHARED | MAP_FIXED
datatype madvice = MADV_DONTNEED | MADV_FREE | MADV_FREE_REUSABLE

section \<open>Calls and responses\<close>

text \<open>
  Every \<^verbatim>\<open>mmap\<close> of the sources passes \<^verbatim>\<open>PROT_READ | PROT_WRITE\<close>, fd -1 and offset 0;
  the constructor keeps the arguments that vary. The register access, run and create calls
  return a code and, through a pointer argument, a value. Calls that produce text (a line of a
  pipe, the output of a command, a file) leave it where \<open>k_line\<close> or \<open>k_text\<close> reads it.
\<close>

datatype call =
    Mmap nat usize "map_flag list"
  | Munmap nat usize
  | Madvise nat usize madvice
  | Sysconf
  | TaskInfo u32 u32
  | IcacheInvalidate nat usize
  | HvVmCreate
  | HvVmDestroy
  | HvVmMap nat u64 usize u64
  | HvVmUnmap u64 usize
  | HvVmAllocate usize u64
  | HvVmDeallocate nat usize
  | HvVcpuCreate
  | HvVcpuDestroy u64
  | HvVcpuRun u64
  | HvVcpuSetReg u64 u32 u64
  | HvVcpuGetReg u64 u32
  | Sleep nat
  | Now
  | CurrentExe
  | SpawnGenerator usize
  | ReadLine u64
  | Kill u64
  | WaitChild u64
  | TryRecv
  | SpawnCell string
  | SpawnHarness string string string usize
  | SendLine u64 string
  | RecvTimeout u64 nat
  | Pgrep string
  | PidRusage int
  | CreateDirAll string
  | Mount string string
  | OpenConsole bool
  | ConsoleRead
  | ConsoleWrite string
  | ReadMeminfo
  | Fork
  | ExitProcess int

record resp =
  rc :: int
  rv :: u64

record 'x kernel =
  k_sys :: "call \<Rightarrow> 'x \<Rightarrow> mem \<Rightarrow> resp \<times> 'x \<times> mem"
  k_exit :: "u64 \<Rightarrow> 'x \<Rightarrow> exit_info"
  k_vm_info :: "'x \<Rightarrow> task_vm_info"
  k_line :: "'x \<Rightarrow> (string + unit) option"
  k_text :: "'x \<Rightarrow> string"
  k_rusage :: "'x \<Rightarrow> rusage_info"

text \<open>
  A printed line: the format and its arguments before formatting. A character beyond ASCII is written
  in ASCII: a dash as \<^verbatim>\<open>--\<close>, an arrow as \<^verbatim>\<open>->\<close>, a delta as \<^verbatim>\<open>Delta\<close>.
\<close>

datatype arg = ArgStr string | ArgNat nat | ArgF64 rat | ArgInt int

datatype line = Line string "arg list"

record 'x world =
  ext :: 'x
  wmem :: mem
  trace :: "(call \<times> resp) list"
  stdout :: "line list"

section \<open>Effects\<close>

type_synonym ('x, 'a) io = "'x world \<Rightarrow> 'a outcome \<times> 'x world"

definition ret :: "'a \<Rightarrow> ('x, 'a) io" where
  "ret a = (\<lambda>w. (Ok a, w))"

definition throw :: "panic \<Rightarrow> ('x, 'a) io" where
  "throw p = (\<lambda>w. (Panic p, w))"

definition out_of_fuel :: "('x, 'a) io" where
  "out_of_fuel = (\<lambda>w. (OutOfFuel, w))"

definition bind_io :: "('x, 'a) io \<Rightarrow> ('a \<Rightarrow> ('x, 'b) io) \<Rightarrow> ('x, 'b) io" where
  "bind_io f g = (\<lambda>w. case f w of
       (Ok a, w') \<Rightarrow> g a w'
     | (Panic p, w') \<Rightarrow> (Panic p, w')
     | (OutOfFuel, w') \<Rightarrow> (OutOfFuel, w'))"

definition then_io :: "('x, unit) io \<Rightarrow> ('x, 'b) io \<Rightarrow> ('x, 'b) io" where
  "then_io f g = bind_io f (\<lambda>_. g)"

definition when_io :: "bool \<Rightarrow> ('x, unit) io \<Rightarrow> ('x, unit) io" where
  "when_io b f = (if b then f else ret ())"

definition assert_io :: "bool \<Rightarrow> string \<Rightarrow> ('x, unit) io" where
  "assert_io b msg = (if b then ret () else throw (AssertFailed msg))"

text \<open>\<^verbatim>\<open>for x in xs { f(x) }\<close>, and a loop that carries accumulated variables.\<close>

primrec for_io :: "'i list \<Rightarrow> ('i \<Rightarrow> ('x, unit) io) \<Rightarrow> ('x, unit) io" where
  "for_io [] f = ret ()"
| "for_io (i # is) f = then_io (f i) (for_io is f)"

primrec fold_io :: "'i list \<Rightarrow> ('i \<Rightarrow> 'a \<Rightarrow> ('x, 'a) io) \<Rightarrow> 'a \<Rightarrow> ('x, 'a) io" where
  "fold_io [] f a = ret a"
| "fold_io (i # is) f a = bind_io (f i a) (fold_io is f)"

definition sys :: "'x kernel \<Rightarrow> call \<Rightarrow> ('x, resp) io" where
  "sys K c = (\<lambda>w. case k_sys K c (ext w) (wmem w) of (r, x', m') \<Rightarrow>
     (Ok r, w\<lparr>ext := x', wmem := m', trace := trace w @ [(c, r)]\<rparr>))"

text \<open>Calls whose result the source discards.\<close>

definition sys_ignore :: "'x kernel \<Rightarrow> call \<Rightarrow> ('x, unit) io" where
  "sys_ignore K c = bind_io (sys K c) (\<lambda>_. ret ())"

definition println :: "string \<Rightarrow> arg list \<Rightarrow> ('x, unit) io" where
  "println fmt args = (\<lambda>w. (Ok (), w\<lparr>stdout := stdout w @ [Line fmt args]\<rparr>))"

text \<open>Loads and stores through raw pointers of the process.\<close>

definition load64 :: "nat \<Rightarrow> ('x, u64) io" where
  "load64 a = (\<lambda>w. (Ok (read64 (wmem w) a), w))"

definition store64 :: "nat \<Rightarrow> u64 \<Rightarrow> ('x, unit) io" where
  "store64 a v = (\<lambda>w. (Ok (), w\<lparr>wmem := write64 (wmem w) a v\<rparr>))"

definition store32 :: "nat \<Rightarrow> u32 \<Rightarrow> ('x, unit) io" where
  "store32 a v = (\<lambda>w. (Ok (), w\<lparr>wmem := write32 (wmem w) a v\<rparr>))"

text \<open>\<^verbatim>\<open>hvf::check\<close>: a non-zero return code is a panic.\<close>

definition check :: "int \<Rightarrow> string \<Rightarrow> ('x, unit) io" where
  "check r what = (if r = 0 then ret () else throw (CheckFailed what r))"

definition check_sys :: "'x kernel \<Rightarrow> call \<Rightarrow> string \<Rightarrow> ('x, unit) io" where
  "check_sys K c what = bind_io (sys K c) (\<lambda>r. check (rc r) what)"

lemma bind_io_Ok [io_simps]: "f w = (Ok a, w') \<Longrightarrow> bind_io f g w = g a w'"
  by (simp add: bind_io_def)

lemma bind_io_Panic [io_simps]: "f w = (Panic p, w') \<Longrightarrow> bind_io f g w = (Panic p, w')"
  by (simp add: bind_io_def)

lemma then_io_Ok [io_simps]: "f w = (Ok (), w') \<Longrightarrow> then_io f g w = g w'"
  by (simp add: then_io_def bind_io_Ok)

lemma then_io_Panic [io_simps]: "f w = (Panic p, w') \<Longrightarrow> then_io f g w = (Panic p, w')"
  by (simp add: then_io_def bind_io_Panic)

lemma ret_bind [simp]: "bind_io (ret a) g = g a"
  by (simp add: bind_io_def ret_def)

lemma then_io_assoc: "then_io (then_io f g) h = then_io f (then_io g h)"
  by (simp add: then_io_def bind_io_def fun_eq_iff split: outcome.splits prod.splits)

lemma bind_io_eq_Ok_iff:
  "bind_io f g w = (Ok b, w'') \<longleftrightarrow> (\<exists>a w'. f w = (Ok a, w') \<and> g a w' = (Ok b, w''))"
  by (auto simp: bind_io_def split: prod.splits outcome.splits)

lemma then_io_eq_Ok_iff:
  "then_io f g w = (Ok b, w'') \<longleftrightarrow> (\<exists>w'. f w = (Ok (), w') \<and> g w' = (Ok b, w''))"
  by (auto simp: then_io_def bind_io_eq_Ok_iff)

lemma ret_eq_Ok_iff [simp]: "ret a w = (Ok b, w') \<longleftrightarrow> a = b \<and> w' = w"
  by (auto simp: ret_def)

lemma throw_eq_Ok_iff [simp]: "throw p w \<noteq> (Ok b, w')"
  by (simp add: throw_def)

lemma assert_io_eq_Ok_iff [simp]: "assert_io b msg w = (Ok u, w') \<longleftrightarrow> b \<and> w' = w"
  by (auto simp: assert_io_def)

lemma check_eq_Ok_iff [simp]: "check r what w = (Ok u, w') \<longleftrightarrow> r = 0 \<and> w' = w"
  by (auto simp: check_def)

lemma check_sys_eq_Ok_iff:
  "check_sys K c what w = (Ok (), w') \<longleftrightarrow> (\<exists>r. sys K c w = (Ok r, w') \<and> rc r = 0)"
  by (auto simp: check_sys_def bind_io_eq_Ok_iff)

lemma sys_trace: "sys K c w = (Ok r, w') \<Longrightarrow> trace w' = trace w @ [(c, r)]"
  by (auto simp: sys_def split: prod.splits)

lemma sys_total: "\<exists>r w'. sys K c w = (Ok r, w')"
  by (auto simp: sys_def split: prod.splits)

text \<open>The combinators, for unfolding a straight-line piece of code on a known world.\<close>

lemmas io_defs = ret_def throw_def bind_io_def then_io_def when_io_def assert_io_def
  load64_def store64_def store32_def println_def check_def check_sys_def sys_ignore_def

text \<open>Loops of stores only.\<close>

lemma for_io_store64:
  "for_io is (\<lambda>i. store64 (a i) (v i)) w = (Ok (), w\<lparr>wmem := fold (\<lambda>i m. write64 m (a i) (v i)) is (wmem w)\<rparr>)"
  by (induction "is" arbitrary: w) (simp_all add: io_defs)

lemma for_io_store32:
  "for_io is (\<lambda>i. store32 (a i) (v i)) w = (Ok (), w\<lparr>wmem := fold (\<lambda>i m. write32 m (a i) (v i)) is (wmem w)\<rparr>)"
  by (induction "is" arbitrary: w) (simp_all add: io_defs)

end
