(* ===== verification/Arm.thy ===== *)
theory Arm
  imports Host
begin

text \<open>
  The language the guest programs of \<^verbatim>\<open>hv-reclaim/src/guest.rs\<close> are written in: the
  A64 instructions those word arrays use, their encodings, and one step of a vCPU at EL1
  with the MMU off, so that a data or fetch address is an intermediate physical address
  that stage-2 translates. A store, load or fetch that stage-2 does not allow leaves the
  vCPU with the program counter unmoved; a data access that is not aligned to its size
  faults inside the guest, since memory is Device memory while the MMU is off.
  Forms that name the stack pointer are left undefined: no guest program has one.
\<close>

unbundle bit_operations_syntax

datatype instr =
    Str nat nat u64        \<comment> \<open>str Xt, [Xn, #imm]\<close>
  | Ldr nat nat u64        \<comment> \<open>ldr Xt, [Xn, #imm]\<close>
  | AddI nat nat u64        \<comment> \<open>add Xd, Xn, #imm (the shift already applied)\<close>
  | Subs nat nat nat       \<comment> \<open>subs Xd, Xn, Xm; cmp when Xd is xzr\<close>
  | Orr nat nat nat        \<comment> \<open>orr Xd, Xn, Xm; mov when Xn is xzr\<close>
  | BCond nat u64          \<comment> \<open>b.cond by a byte offset\<close>
  | B u64                  \<comment> \<open>b by a byte offset\<close>
  | Wfi
  | Undef

section \<open>Decoding\<close>

definition field :: "u32 \<Rightarrow> nat \<Rightarrow> nat \<Rightarrow> nat" where
  "field w lo n = unat (take_bit n (drop_bit lo w))"

definition sfield :: "u32 \<Rightarrow> nat \<Rightarrow> nat \<Rightarrow> u64" where
  "sfield w lo n = signed_take_bit (n - 1) (ucast (drop_bit lo w))"

definition decode :: "u32 \<Rightarrow> instr" where
  "decode w =
    (let rd = field w 0 5; rn = field w 5 5; rm = field w 16 5; imm12 = of_nat (field w 10 12) in
     if w = 0xD503207F then Wfi
     else if field w 22 10 = 0x3E4 \<and> rn \<noteq> 31 then Str rd rn (imm12 * 8)
     else if field w 22 10 = 0x3E5 \<and> rn \<noteq> 31 then Ldr rd rn (imm12 * 8)
     else if field w 23 9 = 0x122 \<and> rn \<noteq> 31 \<and> rd \<noteq> 31
       then AddI rd rn (if bit w 22 then push_bit 12 imm12 else imm12)
     else if field w 21 11 = 0x758 \<and> field w 10 6 = 0 then Subs rd rn rm
     else if field w 21 11 = 0x550 \<and> field w 10 6 = 0 then Orr rd rn rm
     else if field w 24 8 = 0x54 \<and> \<not> bit w 4 then BCond (field w 0 4) (sfield w 5 19 * 4)
     else if field w 26 6 = 0x05 then B (sfield w 0 26 * 4)
     else Undef)"

section \<open>Machine state\<close>

record cpu =
  pc :: u64
  xr :: "nat \<Rightarrow> u64"
  cpsr :: u64

text \<open>
  A vCPU together with what it can reach: the memory of the process and the stage-2 table,
  which gives for a guest physical address the host address and the access flags.
\<close>

record machine = cpu +
  mmem :: mem
  ms2 :: "u64 \<Rightarrow> (nat \<times> u64) option"

datatype arm_result =
    Next machine
  | DataAbort u64
  | FetchAbort u64
  | AlignFault u64
  | Waiting
  | Undefined

definition reg :: "machine \<Rightarrow> nat \<Rightarrow> u64" where
  "reg m r = (if r = 31 then 0 else xr m r)"

definition set_xr :: "nat \<Rightarrow> u64 \<Rightarrow> machine \<Rightarrow> machine" where
  "set_xr r v m = (if r = 31 then m else m\<lparr>xr := (xr m)(r := v)\<rparr>)"

definition advance :: "machine \<Rightarrow> machine" where
  "advance m = m\<lparr>pc := pc m + 4\<rparr>"

text \<open>Access kinds are the bit positions of the \<^verbatim>\<open>HV_MEMORY_*\<close> flags: 0 read, 1 write, 2 execute.\<close>

definition translate :: "machine \<Rightarrow> u64 \<Rightarrow> nat \<Rightarrow> nat option" where
  "translate m a kind = (case ms2 m a of
       None \<Rightarrow> None
     | Some (h, flags) \<Rightarrow> if bit flags kind then Some h else None)"

definition put_flag :: "nat \<Rightarrow> bool \<Rightarrow> u64 \<Rightarrow> u64" where
  "put_flag n b s = (if b then set_bit n s else unset_bit n s)"

text \<open>Bits 31 to 28 of the state register are N, Z, C and V.\<close>

definition sub_flags :: "u64 \<Rightarrow> u64 \<Rightarrow> u64 \<Rightarrow> u64" where
  "sub_flags a b s =
     put_flag 31 (bit (a - b) 63) (put_flag 30 (a = b) (put_flag 29 (b \<le> a)
       (put_flag 28 (bit a 63 \<noteq> bit b 63 \<and> bit (a - b) 63 \<noteq> bit a 63) s)))"

definition cond_holds :: "nat \<Rightarrow> u64 \<Rightarrow> bool" where
  "cond_holds c s =
    (let n = bit s 31; z = bit s 30; cy = bit s 29; v = bit s 28;
         base = (if c div 2 = 0 then z
            else if c div 2 = 1 then cy
            else if c div 2 = 2 then n
            else if c div 2 = 3 then v
            else if c div 2 = 4 then cy \<and> \<not> z
            else if c div 2 = 5 then n = v
            else if c div 2 = 6 then n = v \<and> \<not> z
            else True)
     in if odd c \<and> c \<noteq> 15 then \<not> base else base)"

fun arm_exec :: "instr \<Rightarrow> machine \<Rightarrow> arm_result" where
  "arm_exec (Str t n imm) m =
     (let a = reg m n + imm in
      if \<not> 8 dvd unat a then AlignFault a
      else case translate m a 1 of
        None \<Rightarrow> DataAbort a
      | Some h \<Rightarrow> Next (advance (m\<lparr>mmem := write64 (mmem m) h (reg m t)\<rparr>)))"
| "arm_exec (Ldr t n imm) m =
     (let a = reg m n + imm in
      if \<not> 8 dvd unat a then AlignFault a
      else case translate m a 0 of
        None \<Rightarrow> DataAbort a
      | Some h \<Rightarrow> Next (advance (set_xr t (read64 (mmem m) h) m)))"
| "arm_exec (AddI d n imm) m = Next (advance (set_xr d (reg m n + imm) m))"
| "arm_exec (Subs d n k) m =
     Next (advance ((set_xr d (reg m n - reg m k) m)\<lparr>cpsr := sub_flags (reg m n) (reg m k) (cpsr m)\<rparr>))"
| "arm_exec (Orr d n k) m = Next (advance (set_xr d (reg m n OR reg m k) m))"
| "arm_exec (BCond c off) m =
     Next (if cond_holds c (cpsr m) then m\<lparr>pc := pc m + off\<rparr> else advance m)"
| "arm_exec (B off) m = Next (m\<lparr>pc := pc m + off\<rparr>)"
| "arm_exec Wfi m = Waiting"
| "arm_exec Undef m = Undefined"

definition arm_step :: "machine \<Rightarrow> arm_result" where
  "arm_step m = (case translate m (pc m) 2 of
       None \<Rightarrow> FetchAbort (pc m)
     | Some h \<Rightarrow> arm_exec (decode (read32 (mmem m) h)) m)"

text \<open>Running a given number of instructions.\<close>

fun run_n :: "nat \<Rightarrow> machine \<Rightarrow> machine option" where
  "run_n 0 m = Some m"
| "run_n (Suc n) m = (case arm_step m of Next m' \<Rightarrow> run_n n m' | _ \<Rightarrow> None)"

section \<open>Lemmas\<close>

lemma bit_put_flag: "k < 64 \<Longrightarrow> bit (put_flag n b s) k \<longleftrightarrow> (if n = k then b else bit s k)"
  by (auto simp: put_flag_def bit_set_bit_iff bit_unset_bit_iff)

lemma cond_lo_sub [simp]: "cond_holds 3 (sub_flags a b s) \<longleftrightarrow> a < b"
  by (auto simp: cond_holds_def sub_flags_def bit_put_flag)

lemma cond_eq_sub [simp]: "cond_holds 0 (sub_flags a b s) \<longleftrightarrow> a = b"
  by (simp add: cond_holds_def sub_flags_def bit_put_flag)

lemma run_n_add: "run_n (i + j) m = (case run_n i m of None \<Rightarrow> None | Some m' \<Rightarrow> run_n j m')"
proof (induction i arbitrary: m)
  case (Suc i)
  then show ?case by (cases "arm_step m") auto
qed simp

lemma run_n_trans: "run_n i m = Some m' \<Longrightarrow> run_n j m' = Some m'' \<Longrightarrow> run_n (i + j) m = Some m''"
  by (simp add: run_n_add)

lemma run_n_Next: "arm_step m = Next m' \<Longrightarrow> run_n n m' = r \<Longrightarrow> run_n (Suc n) m = r"
  by simp

lemma run_n_prefix: "run_n j m = Some m'' \<Longrightarrow> i \<le> j \<Longrightarrow> \<exists>m'. run_n i m = Some m' \<and> run_n (j - i) m' = Some m''"
  using run_n_add [of i "j - i" m] by (auto split: option.splits)

text \<open>A vCPU stuck at a data abort stops there whatever the number of steps allowed.\<close>

lemma run_n_abort_unique:
  assumes "run_n i m = Some m1" "arm_step m1 = DataAbort a"
    and "run_n j m = Some m2" "arm_step m2 = DataAbort b"
  shows "i = j \<and> m1 = m2"
proof -
  have stuck: "run_n k m' = Some m'' \<Longrightarrow> arm_step m' = DataAbort c \<Longrightarrow> k = 0" for k m' m'' c
    by (cases k) auto
  show ?thesis
  proof (cases "i \<le> j")
    case True
    then obtain m' where "run_n i m = Some m'" "run_n (j - i) m' = Some m2"
      using run_n_prefix assms(3) by blast
    then show ?thesis using stuck assms True by fastforce
  next
    case False
    then obtain m' where "run_n j m = Some m'" "run_n (i - j) m' = Some m1"
      using run_n_prefix [OF assms(1), of j] by auto
    then show ?thesis using stuck assms False by fastforce
  qed
qed

end
