(* ===== verification/Guest.thy ===== *)
theory Guest
  imports Arm
begin

text \<open>
  \<^verbatim>\<open>hv-reclaim/src/guest.rs\<close>: the five guest programs as the word arrays the source
  writes into the code page, and the host loops that arm the registers, run the vCPU to the
  doorbell and read the result. The run loops re-enter the vCPU as long as the framework
  reports a cancelled run, which the sources do not bound: they take fuel, one unit per
  entry of \<^verbatim>\<open>hv_vcpu_run\<close>.
\<close>

unbundle bit_operations_syntax

text \<open>\<^verbatim>\<open>ledger::PAGE\<close>\<close>

definition PAGE :: nat where [code_defs]: "PAGE = 16 * 1024"

definition CODE_GPA :: u64 where [code_defs]: "CODE_GPA = 0x10000000"
definition RAM_GPA :: u64 where [code_defs]: "RAM_GPA = 0x80000000"
definition DOORBELL_GPA :: u64 where [code_defs]: "DOORBELL_GPA = 0x0F000000"

definition TOUCH_CODE :: "u32 list" where
  "TOUCH_CODE = [0xF9000021, 0x91401021, 0xEB02003F, 0x54FFFFA3, 0xF900007F, 0xD503207F, 0x17FFFFFF]"

definition HAMMER_CODE :: "u32 list" where
  "HAMMER_CODE = [0xAA0603E1, 0xF9400025, 0x910004A5, 0xF9000025, 0x91401021, 0xEB02003F,
                  0x54FFFF63, 0x91000484, 0xF9000064, 0x17FFFFF7]"

definition READ_CODE :: "u32 list" where
  "READ_CODE = [0xF9400025, 0x91401021, 0xEB02003F, 0x54FFFFA3, 0xF900007F, 0xD503207F, 0x17FFFFFF]"

definition VERIFY_CODE :: "u32 list" where
  "VERIFY_CODE = [0xF9400026, 0xEB0500DF, 0x54000040, 0x91000484, 0x91401021, 0xEB02003F,
                  0x54FFFF43, 0xF9000064, 0xD503207F, 0x17FFFFFF]"

definition FILL_CODE :: "u32 list" where
  "FILL_CODE = [0xF9000025, 0x91401021, 0xEB02003F, 0x54FFFFA3, 0xF900007F, 0xD503207F, 0x17FFFFFF]"

definition FILL_OFF :: nat where [code_defs]: "FILL_OFF = 0x200"
definition FILL_GPA :: u64 where [code_defs]: "FILL_GPA = CODE_GPA + of_nat FILL_OFF"
definition HAMMER_OFF :: nat where [code_defs]: "HAMMER_OFF = 0x80"
definition HAMMER_GPA :: u64 where [code_defs]: "HAMMER_GPA = CODE_GPA + of_nat HAMMER_OFF"
definition VERIFY_OFF :: nat where [code_defs]: "VERIFY_OFF = 0x180"
definition VERIFY_GPA :: u64 where [code_defs]: "VERIFY_GPA = CODE_GPA + of_nat VERIFY_OFF"
definition READ_OFF :: nat where [code_defs]: "READ_OFF = 0x100"
definition READ_GPA :: u64 where [code_defs]: "READ_GPA = CODE_GPA + of_nat READ_OFF"

text \<open>One of the five loops of \<^verbatim>\<open>write_code_page\<close>: \<^verbatim>\<open>for (i, insn) in code.iter().enumerate()\<close>.\<close>

definition write_program :: "nat \<Rightarrow> u32 list \<Rightarrow> ('x, unit) io" where
  "write_program base ws = for_io [0..<length ws] (\<lambda>i. store32 (base + i * 4) (ws ! i))"

definition write_code_page :: "'x kernel \<Rightarrow> nat \<Rightarrow> ('x, unit) io" where
  "write_code_page K code =
     then_io (write_program code TOUCH_CODE)
    (then_io (write_program (code + HAMMER_OFF) HAMMER_CODE)
    (then_io (write_program (code + READ_OFF) READ_CODE)
    (then_io (write_program (code + VERIFY_OFF) VERIFY_CODE)
    (then_io (write_program (code + FILL_OFF) FILL_CODE)
             (sys_ignore K (IcacheInvalidate code (of_nat PAGE)))))))"

datatype guest_exit = Canceled | Doorbell

definition read_exit :: "'x kernel \<Rightarrow> u64 \<Rightarrow> ('x, exit_info) io" where
  "read_exit K vcpu = (\<lambda>w. (Ok (k_exit K vcpu (ext w)), w))"

definition run_to_doorbell :: "'x kernel \<Rightarrow> u64 \<Rightarrow> ('x, guest_exit) io" where
  "run_to_doorbell K vcpu =
     then_io (check_sys K (HvVcpuRun vcpu) ''hv_vcpu_run'')
    (bind_io (read_exit K vcpu) (\<lambda>info.
       if reason info = HV_EXIT_REASON_CANCELED then ret Canceled
       else let ec = drop_bit 26 (syndrome (exception info)) AND 0x3F in
         if reason info = HV_EXIT_REASON_EXCEPTION \<and> ec = EC_DATA_ABORT_LOWER_EL
            \<and> physical_address (exception info) = DOORBELL_GPA
         then ret Doorbell
         else then_io (sys_ignore K (HvVcpuGetReg vcpu HV_REG_PC))
                (throw (UnexpectedExit (reason info) ec (physical_address (exception info))))))"

definition read_reg :: "'x kernel \<Rightarrow> u64 \<Rightarrow> u32 \<Rightarrow> ('x, u64) io" where
  "read_reg K vcpu r = bind_io (sys K (HvVcpuGetReg vcpu r)) (\<lambda>p.
     then_io (check (rc p) ''get reg'') (ret (rv p)))"

definition write_reg :: "'x kernel \<Rightarrow> u64 \<Rightarrow> u32 \<Rightarrow> u64 \<Rightarrow> string \<Rightarrow> ('x, unit) io" where
  "write_reg K vcpu r v what = check_sys K (HvVcpuSetReg vcpu r v) what"

text \<open>The loop of \<^verbatim>\<open>run_pass\<close>.\<close>

primrec pass_loop :: "nat \<Rightarrow> 'x kernel \<Rightarrow> u64 \<Rightarrow> ('x, unit) io" where
  "pass_loop 0 K vcpu = out_of_fuel"
| "pass_loop (Suc fuel) K vcpu = bind_io (run_to_doorbell K vcpu) (\<lambda>e. case e of
       Canceled \<Rightarrow> pass_loop fuel K vcpu
     | Doorbell \<Rightarrow> ret ())"

definition run_pass :: "nat \<Rightarrow> 'x kernel \<Rightarrow> u64 \<Rightarrow> u64 \<Rightarrow> usize \<Rightarrow> usize \<Rightarrow> ('x, unit) io" where
  "run_pass fuel K vcpu entry start_off end_off =
     then_io (write_reg K vcpu HV_REG_PC entry ''set PC'')
    (then_io (write_reg K vcpu HV_REG_X1 (RAM_GPA + start_off) ''set X1'')
    (then_io (write_reg K vcpu HV_REG_X2 (RAM_GPA + end_off) ''set X2'')
    (then_io (write_reg K vcpu HV_REG_X3 DOORBELL_GPA ''set X3'')
             (pass_loop fuel K vcpu))))"

definition run_touch_range :: "nat \<Rightarrow> 'x kernel \<Rightarrow> u64 \<Rightarrow> usize \<Rightarrow> usize \<Rightarrow> ('x, unit) io" where
  "run_touch_range fuel K vcpu start_off end_off = run_pass fuel K vcpu CODE_GPA start_off end_off"

definition run_touch_pass :: "nat \<Rightarrow> 'x kernel \<Rightarrow> u64 \<Rightarrow> usize \<Rightarrow> ('x, unit) io" where
  "run_touch_pass fuel K vcpu ram_size = run_touch_range fuel K vcpu 0 ram_size"

definition run_read_pass :: "nat \<Rightarrow> 'x kernel \<Rightarrow> u64 \<Rightarrow> usize \<Rightarrow> ('x, unit) io" where
  "run_read_pass fuel K vcpu ram_size = run_pass fuel K vcpu READ_GPA 0 ram_size"

definition run_sweep_range :: "nat \<Rightarrow> 'x kernel \<Rightarrow> u64 \<Rightarrow> usize \<Rightarrow> usize \<Rightarrow> ('x, unit) io" where
  "run_sweep_range fuel K vcpu start_off end_off =
     then_io (write_reg K vcpu HV_REG_X6 (RAM_GPA + start_off) ''set X6'')
             (run_pass fuel K vcpu HAMMER_GPA start_off end_off)"

definition run_fill_range :: "nat \<Rightarrow> 'x kernel \<Rightarrow> u64 \<Rightarrow> usize \<Rightarrow> usize \<Rightarrow> u64 \<Rightarrow> ('x, unit) io" where
  "run_fill_range fuel K vcpu start_off end_off value =
     then_io (write_reg K vcpu HV_REG_X5 value ''set X5'')
             (run_pass fuel K vcpu FILL_GPA start_off end_off)"

definition run_verify_range :: "nat \<Rightarrow> 'x kernel \<Rightarrow> u64 \<Rightarrow> usize \<Rightarrow> usize \<Rightarrow> u64 \<Rightarrow> ('x, u64) io" where
  "run_verify_range fuel K vcpu start_off end_off expected =
     then_io (write_reg K vcpu HV_REG_X4 0 ''clear X4'')
    (then_io (write_reg K vcpu HV_REG_X5 expected ''set X5'')
    (then_io (run_pass fuel K vcpu VERIFY_GPA start_off end_off)
             (read_reg K vcpu HV_REG_X4)))"

text \<open>The loop of \<^verbatim>\<open>run_hammer\<close>; the closure \<^verbatim>\<open>keep_going\<close> carries a state of its own.\<close>

primrec hammer_loop :: "nat \<Rightarrow> 'x kernel \<Rightarrow> u64 \<Rightarrow> (u64 \<Rightarrow> 's \<Rightarrow> ('x, bool \<times> 's) io) \<Rightarrow> 's
    \<Rightarrow> ('x, u64 \<times> 's) io" where
  "hammer_loop 0 K vcpu keep_going s = out_of_fuel"
| "hammer_loop (Suc fuel) K vcpu keep_going s = bind_io (run_to_doorbell K vcpu) (\<lambda>e. case e of
       Canceled \<Rightarrow> hammer_loop fuel K vcpu keep_going s
     | Doorbell \<Rightarrow>
         bind_io (read_reg K vcpu HV_REG_X4) (\<lambda>sweeps.
         bind_io (keep_going sweeps s) (\<lambda>(go, s').
         if \<not> go then ret (sweeps, s')
         else bind_io (read_reg K vcpu HV_REG_PC) (\<lambda>p.
              then_io (write_reg K vcpu HV_REG_PC (p + 4) ''advance PC'')
                      (hammer_loop fuel K vcpu keep_going s')))))"

definition run_hammer :: "nat \<Rightarrow> 'x kernel \<Rightarrow> u64 \<Rightarrow> usize \<Rightarrow> (u64 \<Rightarrow> 's \<Rightarrow> ('x, bool \<times> 's) io) \<Rightarrow> 's
    \<Rightarrow> ('x, u64 \<times> 's) io" where
  "run_hammer fuel K vcpu ram_size keep_going s =
     then_io (write_reg K vcpu HV_REG_PC HAMMER_GPA ''set PC'')
    (then_io (write_reg K vcpu HV_REG_X2 (RAM_GPA + ram_size) ''set X2'')
    (then_io (write_reg K vcpu HV_REG_X3 DOORBELL_GPA ''set X3'')
    (then_io (write_reg K vcpu HV_REG_X4 0 ''set X4'')
    (then_io (write_reg K vcpu HV_REG_X6 RAM_GPA ''set X6'')
             (hammer_loop fuel K vcpu keep_going s)))))"

section \<open>The guest programs decoded\<close>

definition TOUCH_ASM :: "instr list" where
  "TOUCH_ASM = [Str 1 1 0, AddI 1 1 0x4000, Subs 31 1 2, BCond 3 (-12), Str 31 3 0, Wfi, B (-4)]"

definition HAMMER_ASM :: "instr list" where
  "HAMMER_ASM = [Orr 1 31 6, Ldr 5 1 0, AddI 5 5 1, Str 5 1 0, AddI 1 1 0x4000, Subs 31 1 2,
                 BCond 3 (-20), AddI 4 4 1, Str 4 3 0, B (-36)]"

definition READ_ASM :: "instr list" where
  "READ_ASM = [Ldr 5 1 0, AddI 1 1 0x4000, Subs 31 1 2, BCond 3 (-12), Str 31 3 0, Wfi, B (-4)]"

definition VERIFY_ASM :: "instr list" where
  "VERIFY_ASM = [Ldr 6 1 0, Subs 31 6 5, BCond 0 8, AddI 4 4 1, AddI 1 1 0x4000, Subs 31 1 2,
                 BCond 3 (-24), Str 4 3 0, Wfi, B (-4)]"

definition FILL_ASM :: "instr list" where
  "FILL_ASM = [Str 5 1 0, AddI 1 1 0x4000, Subs 31 1 2, BCond 3 (-12), Str 31 3 0, Wfi, B (-4)]"

lemma decode_TOUCH: "map decode TOUCH_CODE = TOUCH_ASM"
  by (simp add: TOUCH_CODE_def TOUCH_ASM_def decode_def field_def sfield_def Let_def)

lemma decode_HAMMER: "map decode HAMMER_CODE = HAMMER_ASM"
  by (simp add: HAMMER_CODE_def HAMMER_ASM_def decode_def field_def sfield_def Let_def)

lemma decode_READ: "map decode READ_CODE = READ_ASM"
  by (simp add: READ_CODE_def READ_ASM_def decode_def field_def sfield_def Let_def)

lemma decode_VERIFY: "map decode VERIFY_CODE = VERIFY_ASM"
  by (simp add: VERIFY_CODE_def VERIFY_ASM_def decode_def field_def sfield_def Let_def)

lemma decode_FILL: "map decode FILL_CODE = FILL_ASM"
  by (simp add: FILL_CODE_def FILL_ASM_def decode_def field_def sfield_def Let_def)

end
