(* ===== verification/Guest_Programs.thy ===== *)
theory Guest_Programs
  imports Guest
begin

text \<open>
  The guest programs as code: what it means that the code page is loaded and mapped, the
  contract of a guest program as a locale (enter, one round per page, ring the doorbell),
  what a pass over a range does under that contract, and the proof, instruction by
  instruction, that each of the five word arrays of \<^verbatim>\<open>guest.rs\<close> satisfies it.
\<close>

unbundle bit_operations_syntax

section \<open>A loaded guest\<close>

definition holds_code :: "mem \<Rightarrow> nat \<Rightarrow> u32 list \<Rightarrow> bool" where
  "holds_code mem a ws \<longleftrightarrow> (\<forall>i<length ws. read32 mem (a + i * 4) = ws ! i)"

definition code_loaded :: "nat \<Rightarrow> mem \<Rightarrow> bool" where
  "code_loaded code mem \<longleftrightarrow>
     holds_code mem code TOUCH_CODE \<and> holds_code mem (code + HAMMER_OFF) HAMMER_CODE \<and>
     holds_code mem (code + READ_OFF) READ_CODE \<and> holds_code mem (code + VERIFY_OFF) VERIFY_CODE \<and>
     holds_code mem (code + FILL_OFF) FILL_CODE"

definition RW :: u64 where "RW = HV_MEMORY_READ OR HV_MEMORY_WRITE"
definition RX :: u64 where "RX = HV_MEMORY_READ OR HV_MEMORY_EXEC"

text \<open>A guest whose code page is loaded and mapped, and whose RAM is mapped from offset \<open>lo\<close> up to \<open>sz\<close>.\<close>

definition guest_window :: "nat \<Rightarrow> nat \<Rightarrow> nat \<Rightarrow> nat \<Rightarrow> (u64 \<Rightarrow> (nat \<times> u64) option) \<Rightarrow> mem \<Rightarrow> bool" where
  "guest_window lo ram sz code s2 mem \<longleftrightarrow>
     (\<forall>off \<ge> lo. off < sz \<longrightarrow> s2 (RAM_GPA + of_nat off) = Some (ram + off, RW)) \<and>
     (\<forall>off < PAGE. s2 (CODE_GPA + of_nat off) = Some (code + off, RX)) \<and>
     s2 DOORBELL_GPA = None \<and>
     (code + PAGE \<le> ram \<or> ram + sz \<le> code) \<and>
     8 dvd sz \<and> unat RAM_GPA + sz + PAGE \<le> 2 ^ 64 \<and>
     code_loaded code mem"

abbreviation guest_ready :: "nat \<Rightarrow> nat \<Rightarrow> nat \<Rightarrow> (u64 \<Rightarrow> (nat \<times> u64) option) \<Rightarrow> mem \<Rightarrow> bool" where
  "guest_ready \<equiv> guest_window 0"

lemma RW_bits [simp]: "bit RW 0" "bit RW (Suc 0)" "\<not> bit RW 2"
  by (simp_all add: RW_def HV_MEMORY_READ_def HV_MEMORY_WRITE_def bit_or_iff bit_1_iff)

lemma RX_bits [simp]: "bit RX 0" "\<not> bit RX (Suc 0)" "bit RX 2"
  by (simp_all add: RX_def HV_MEMORY_READ_def HV_MEMORY_EXEC_def bit_or_iff bit_1_iff)

lemma holds_code_write64:
  "a + length ws * 4 \<le> b \<or> b + 8 \<le> a \<Longrightarrow> holds_code (write64 mem b v) a ws = holds_code mem a ws"
  unfolding holds_code_def
  by (intro all_cong arg_cong2 [where f = "(=)"] refl) (auto intro!: read32_write64_other)

lemma program_lengths [simp]:
  "length TOUCH_CODE = 7" "length HAMMER_CODE = 10" "length READ_CODE = 7"
  "length VERIFY_CODE = 10" "length FILL_CODE = 7"
  by (simp_all add: TOUCH_CODE_def HAMMER_CODE_def READ_CODE_def VERIFY_CODE_def FILL_CODE_def)

lemma code_loaded_write64:
  "code + PAGE \<le> b \<or> b + 8 \<le> code \<Longrightarrow> code_loaded code (write64 mem b v) = code_loaded code mem"
  by (auto simp: code_loaded_def holds_code_write64 code_defs)

lemma guest_window_write64 [simp]:
  assumes "guest_window lo ram sz code s2 mem" and "off + 8 \<le> sz"
  shows "guest_window lo ram sz code s2 (write64 mem (ram + off) v)"
proof -
  have "code + PAGE \<le> ram + off \<or> ram + off + 8 \<le> code"
    using assms by (auto simp: guest_window_def)
  then show ?thesis using assms by (simp add: guest_window_def code_loaded_write64)
qed

lemma translate_ram:
  assumes "guest_window lo ram sz code (ms2 m) (mmem m)" "off < sz" "lo \<le> off"
  shows "translate m (RAM_GPA + of_nat off) 0 = Some (ram + off)"
    and "translate m (RAM_GPA + of_nat off) (Suc 0) = Some (ram + off)"
  using assms by (simp_all add: guest_window_def translate_def)

lemma translate_doorbell:
  "guest_window lo ram sz code (ms2 m) (mmem m) \<Longrightarrow> translate m DOORBELL_GPA k = None"
  by (simp add: guest_window_def translate_def)

lemma fetch_code:
  assumes "guest_window lo ram sz code (ms2 m) (mmem m)" and "holds_code (mmem m) (code + base) ws"
    and "base + length ws * 4 \<le> PAGE" and "i < length ws" and "pc m = CODE_GPA + of_nat (base + i * 4)"
  shows "arm_step m = arm_exec (map decode ws ! i) m"
proof -
  have "base + i * 4 < PAGE" using assms by simp
  then have "ms2 m (pc m) = Some (code + (base + i * 4), RX)"
    using assms(1,5) unfolding guest_window_def by metis
  moreover have "read32 (mmem m) (code + base + i * 4) = ws ! i"
    using assms by (simp add: holds_code_def)
  ultimately show ?thesis using assms by (simp add: arm_step_def translate_def add.assoc)
qed

lemma step_touch:
  assumes "guest_window lo ram sz code (ms2 m) (mmem m)" "i < 7" "pc m = CODE_GPA + of_nat (i * 4)"
  shows "arm_step m = arm_exec (TOUCH_ASM ! i) m"
  using fetch_code [where base = 0 and ws = TOUCH_CODE and i = i] assms
  by (simp add: decode_TOUCH guest_window_def code_loaded_def PAGE_def)

lemma step_hammer:
  assumes "guest_window lo ram sz code (ms2 m) (mmem m)" "i < 10" "pc m = HAMMER_GPA + of_nat (i * 4)"
  shows "arm_step m = arm_exec (HAMMER_ASM ! i) m"
  using fetch_code [where base = HAMMER_OFF and ws = HAMMER_CODE and i = i] assms
  by (simp add: decode_HAMMER guest_window_def code_loaded_def PAGE_def HAMMER_OFF_def HAMMER_GPA_def add.assoc)

lemma step_read:
  assumes "guest_window lo ram sz code (ms2 m) (mmem m)" "i < 7" "pc m = READ_GPA + of_nat (i * 4)"
  shows "arm_step m = arm_exec (READ_ASM ! i) m"
  using fetch_code [where base = READ_OFF and ws = READ_CODE and i = i] assms
  by (simp add: decode_READ guest_window_def code_loaded_def PAGE_def READ_OFF_def READ_GPA_def add.assoc)

lemma step_verify:
  assumes "guest_window lo ram sz code (ms2 m) (mmem m)" "i < 10" "pc m = VERIFY_GPA + of_nat (i * 4)"
  shows "arm_step m = arm_exec (VERIFY_ASM ! i) m"
  using fetch_code [where base = VERIFY_OFF and ws = VERIFY_CODE and i = i] assms
  by (simp add: decode_VERIFY guest_window_def code_loaded_def PAGE_def VERIFY_OFF_def VERIFY_GPA_def add.assoc)

lemma step_fill:
  assumes "guest_window lo ram sz code (ms2 m) (mmem m)" "i < 7" "pc m = FILL_GPA + of_nat (i * 4)"
  shows "arm_step m = arm_exec (FILL_ASM ! i) m"
  using fetch_code [where base = FILL_OFF and ws = FILL_CODE and i = i] assms
  by (simp add: decode_FILL guest_window_def code_loaded_def PAGE_def FILL_OFF_def FILL_GPA_def add.assoc)


lemma word_room: "8 dvd (a::nat) \<Longrightarrow> 8 dvd b \<Longrightarrow> a < b \<Longrightarrow> a + 8 \<le> b"
  by presburger

section \<open>Passes over the pages of a range\<close>

text \<open>
  What a guest program does to one page: from the guest address, the registers and the first
  word of the page to the registers and the word it leaves.
\<close>

type_synonym regs = "nat \<Rightarrow> u64"
type_synonym page_op = "u64 \<Rightarrow> regs \<Rightarrow> u64 \<Rightarrow> regs \<times> u64"

definition touch_op :: page_op where "touch_op a r v = (r, a)"
definition read_op :: page_op where "read_op a r v = (r(5 := v), v)"
definition fill_op :: page_op where "fill_op a r v = (r, r 5)"
definition verify_op :: page_op where
  "verify_op a r v = ((if v = r 5 then r(6 := v) else r(6 := v, 4 := r 4 + 1)), v)"
definition sweep_op :: page_op where "sweep_op a r v = (r(5 := v + 1), v + 1)"

text \<open>The host view of a whole pass: the operation applied to the listed pages in order.\<close>

fun visit :: "page_op \<Rightarrow> nat \<Rightarrow> nat list \<Rightarrow> regs \<Rightarrow> mem \<Rightarrow> regs \<times> mem" where
  "visit f ram [] r mem = (r, mem)"
| "visit f ram (off # offs) r mem =
     (case f (RAM_GPA + of_nat off) r (read64 mem (ram + off)) of
        (r', v) \<Rightarrow> visit f ram offs (r'(1 := r 1 + of_nat PAGE)) (write64 mem (ram + off) v))"

text \<open>
  The contract of a guest program: from its entry it reaches its loop head with the cursor
  set; one round of the loop performs the page operation at the cursor, moves the cursor to
  the next page and stays in the loop as long as the cursor is below x2; after the loop it
  stores to the doorbell, which stage-2 does not map.
\<close>

locale guest_program =
  fixes entry_pc loop_pc exit_pc ring_pc :: u64
    and cursor :: nat
    and f :: page_op
    and fin :: "regs \<Rightarrow> regs"
  assumes enter: "guest_window lo ram sz code (ms2 m) (mmem m) \<Longrightarrow> pc m = entry_pc \<Longrightarrow>
      \<exists>n. run_n n m = Some (m\<lparr>pc := loop_pc, xr := (xr m)(1 := xr m cursor)\<rparr>)"
    and round: "guest_window lo ram sz code (ms2 m) (mmem m) \<Longrightarrow> pc m = loop_pc \<Longrightarrow>
      xr m 1 = RAM_GPA + of_nat off \<Longrightarrow> 8 dvd off \<Longrightarrow> off < sz \<Longrightarrow> lo \<le> off \<Longrightarrow>
      f (xr m 1) (xr m) (read64 (mmem m) (ram + off)) = (r', v) \<Longrightarrow>
      \<exists>n c. run_n n m = Some (m\<lparr>
        pc := (if xr m 1 + of_nat PAGE < xr m 2 then loop_pc else exit_pc),
        xr := r'(1 := xr m 1 + of_nat PAGE), cpsr := c,
        mmem := write64 (mmem m) (ram + off) v\<rparr>)"
    and finish: "guest_window lo ram sz code (ms2 m) (mmem m) \<Longrightarrow> pc m = exit_pc \<Longrightarrow> xr m 3 = DOORBELL_GPA \<Longrightarrow>
      \<exists>n. run_n n m = Some (m\<lparr>pc := ring_pc, xr := fin (xr m)\<rparr>)
        \<and> arm_step (m\<lparr>pc := ring_pc, xr := fin (xr m)\<rparr>) = DataAbort DOORBELL_GPA"
    and keeps: "f a r v = (r', v') \<Longrightarrow> r' 1 = r 1 \<and> r' 2 = r 2 \<and> r' 3 = r 3"
begin

lemma rounds:
  assumes "guest_window lo ram sz code (ms2 m) (mmem m)" and "pc m = loop_pc"
    and "xr m 1 = RAM_GPA + of_nat start" "xr m 2 = RAM_GPA + of_nat stop"
    and "8 dvd start" "start < stop" "stop \<le> sz" "lo \<le> start"
    and "visit f ram (step_by start stop PAGE) (xr m) (mmem m) = (r', mem')"
  shows "\<exists>n c. run_n n m = Some (m\<lparr>pc := exit_pc, xr := r', cpsr := c, mmem := mem'\<rparr>)
     \<and> guest_window lo ram sz code (ms2 m) mem' \<and> r' 3 = xr m 3"
  using assms
proof (induction "stop - start" arbitrary: start m rule: less_induct)
  case (less start m)
  have off: "start < sz" "start + 8 \<le> sz" using less.prems word_room [of start sz] by (auto simp: guest_window_def)
  have P: "0 < PAGE" "8 dvd PAGE" by (simp_all add: PAGE_def)
  obtain r1 v where op: "f (xr m 1) (xr m) (read64 (mmem m) (ram + start)) = (r1, v)"
    by (cases "f (xr m 1) (xr m) (read64 (mmem m) (ram + start))")
  let ?x1 = "xr m 1 + of_nat PAGE"
  have cmp: "?x1 < xr m 2 \<longleftrightarrow> start + PAGE < stop"
  proof -
    have "unat RAM_GPA + (start + PAGE) < 2 ^ 64" "unat RAM_GPA + stop < 2 ^ 64"
      using less.prems P by (auto simp: guest_window_def)
    moreover have "?x1 = RAM_GPA + of_nat (start + PAGE)"
      using less.prems by (simp add: add.assoc)
    ultimately show ?thesis
      using less.prems(4) by (simp only: word_less_nat_alt unat_add_bound) simp
  qed
  obtain n1 c1 where run1: "run_n n1 m = Some (m\<lparr>pc := (if ?x1 < xr m 2 then loop_pc else exit_pc),
      xr := r1(1 := ?x1), cpsr := c1, mmem := write64 (mmem m) (ram + start) v\<rparr>)"
    using round [OF less.prems(1-3,5) off(1) less.prems(8) op] by blast
  have ready1: "guest_window lo ram sz code (ms2 m) (write64 (mmem m) (ram + start) v)"
    using guest_window_write64 [OF less.prems(1) off(2)] .
  have vis: "visit f ram (step_by (start + PAGE) stop PAGE) (r1(1 := ?x1)) (write64 (mmem m) (ram + start) v) = (r', mem')"
    using less.prems(9) op less.prems(3) by (simp add: step_by_Cons [OF less.prems(6) P(1)])
  show ?case
  proof (cases "start + PAGE < stop")
    case True
    define m1 where "m1 = m\<lparr>pc := loop_pc, xr := r1(1 := ?x1), cpsr := c1, mmem := write64 (mmem m) (ram + start) v\<rparr>"
    have "run_n n1 m = Some m1" using run1 cmp True by (simp add: m1_def)
    moreover have "\<exists>n c. run_n n m1 = Some (m1\<lparr>pc := exit_pc, xr := r', cpsr := c, mmem := mem'\<rparr>)
        \<and> guest_window lo ram sz code (ms2 m1) mem' \<and> r' 3 = xr m1 3"
    proof (rule less.hyps [where start = "start + PAGE"])
      show "stop - (start + PAGE) < stop - start" using less.prems(6) P(1) by simp
      show "xr m1 1 = RAM_GPA + of_nat (start + PAGE)" using less.prems(3) by (simp add: m1_def add.assoc)
      show "xr m1 2 = RAM_GPA + of_nat stop" using keeps [OF op] less.prems(4) by (simp add: m1_def)
      show "8 dvd start + PAGE" using less.prems(5) P(2) by simp
    qed (use True less.prems ready1 vis in \<open>simp_all add: m1_def\<close>)
    ultimately obtain n c where "run_n (n1 + n) m = Some (m1\<lparr>pc := exit_pc, xr := r', cpsr := c, mmem := mem'\<rparr>)"
      and "guest_window lo ram sz code (ms2 m1) mem'" "r' 3 = xr m1 3" using run_n_trans by blast
    then show ?thesis
      using keeps [OF op] by (intro exI [of _ "n1 + n"] exI [of _ c]) (simp add: m1_def)
  next
    case False
    then have "step_by (start + PAGE) stop PAGE = []" using P by simp
    then have "r' = r1(1 := ?x1)" "mem' = write64 (mmem m) (ram + start) v" using vis by auto
    then show ?thesis using run1 ready1 cmp False keeps [OF op] by auto
  qed
qed

end

context guest_program
begin

lemma pass:
  assumes "guest_window lo ram sz code (ms2 m) (mmem m)" and "pc m = entry_pc"
    and "xr m cursor = RAM_GPA + of_nat start" "xr m 2 = RAM_GPA + of_nat stop" "xr m 3 = DOORBELL_GPA"
    and "8 dvd start" "start < stop" "stop \<le> sz" "lo \<le> start" and "cursor \<noteq> 2" "cursor \<noteq> 3"
    and "visit f ram (step_by start stop PAGE) ((xr m)(1 := xr m cursor)) (mmem m) = (r', mem')"
  shows "\<exists>n m'. run_n n m = Some m' \<and> arm_step m' = DataAbort DOORBELL_GPA \<and> mmem m' = mem'
     \<and> xr m' = fin r' \<and> ms2 m' = ms2 m \<and> pc m' = ring_pc \<and> guest_window lo ram sz code (ms2 m') (mmem m')"
proof -
  define m1 where "m1 = m\<lparr>pc := loop_pc, xr := (xr m)(1 := xr m cursor)\<rparr>"
  obtain n1 where n1: "run_n n1 m = Some m1" using enter [OF assms(1,2)] by (auto simp: m1_def)
  have "\<exists>n c. run_n n m1 = Some (m1\<lparr>pc := exit_pc, xr := r', cpsr := c, mmem := mem'\<rparr>)
     \<and> guest_window lo ram sz code (ms2 m1) mem' \<and> r' 3 = xr m1 3"
    by (rule rounds [where start = start and stop = stop]) (use assms in \<open>simp_all add: m1_def\<close>)
  then obtain n2 c where n2: "run_n n2 m1 = Some (m1\<lparr>pc := exit_pc, xr := r', cpsr := c, mmem := mem'\<rparr>)"
    and ready: "guest_window lo ram sz code (ms2 m) mem'" and r3: "r' 3 = DOORBELL_GPA"
    using assms(5) by (auto simp: m1_def)
  define m2 where "m2 = m1\<lparr>pc := exit_pc, xr := r', cpsr := c, mmem := mem'\<rparr>"
  obtain n3 where n3: "run_n n3 m2 = Some (m2\<lparr>pc := ring_pc, xr := fin (xr m2)\<rparr>)"
    and ab: "arm_step (m2\<lparr>pc := ring_pc, xr := fin (xr m2)\<rparr>) = DataAbort DOORBELL_GPA"
    using finish [of lo ram sz code m2] ready r3 by (auto simp: m2_def m1_def)
  have "run_n (n1 + (n2 + n3)) m = Some (m2\<lparr>pc := ring_pc, xr := fin (xr m2)\<rparr>)"
    using run_n_trans [OF n1 run_n_trans [OF n2 [folded m2_def] n3]] .
  then show ?thesis using ab ready
    by (intro exI [of _ "n1 + (n2 + n3)"] exI [of _ "m2\<lparr>pc := ring_pc, xr := fin (xr m2)\<rparr>"])
      (simp add: m2_def m1_def)
qed

end

lemma ram_aligned: "8 dvd off \<Longrightarrow> guest_window lo ram sz code s2 mem \<Longrightarrow> off < sz \<Longrightarrow> 8 dvd unat (RAM_GPA + of_nat off)"
  by (subst unat_add_bound) (auto simp: guest_window_def RAM_GPA_def)

lemma doorbell_aligned: "8 dvd unat DOORBELL_GPA"
  by (simp add: DOORBELL_GPA_def)

lemma page_word: "(of_nat PAGE :: u64) = 0x4000"
  by (simp add: PAGE_def)

lemma run_n_numeral:
  "run_n (numeral k) m = (case arm_step m of Next m' \<Rightarrow> run_n (pred_numeral k) m' | _ \<Rightarrow> None)"
  by (simp add: numeral_eq_Suc)

lemmas exec_simps = run_n_numeral advance_def set_xr_def reg_def ram_aligned translate_ram translate_doorbell
  doorbell_aligned page_word


lemmas touch_at = step_touch [where i = 0, simplified] step_touch [where i = 1, simplified]
  step_touch [where i = 2, simplified] step_touch [where i = 3, simplified]
  step_touch [where i = 4, simplified]
lemmas read_at = step_read [where i = 0, simplified] step_read [where i = 1, simplified]
  step_read [where i = 2, simplified] step_read [where i = 3, simplified]
  step_read [where i = 4, simplified]
lemmas fill_at = step_fill [where i = 0, simplified] step_fill [where i = 1, simplified]
  step_fill [where i = 2, simplified] step_fill [where i = 3, simplified]
  step_fill [where i = 4, simplified]
lemmas verify_at = step_verify [where i = 0, simplified] step_verify [where i = 1, simplified]
  step_verify [where i = 2, simplified] step_verify [where i = 3, simplified]
  step_verify [where i = 4, simplified] step_verify [where i = 5, simplified]
  step_verify [where i = 6, simplified] step_verify [where i = 7, simplified]
lemmas hammer_at = step_hammer [where i = 0, simplified] step_hammer [where i = 1, simplified]
  step_hammer [where i = 2, simplified] step_hammer [where i = 3, simplified]
  step_hammer [where i = 4, simplified] step_hammer [where i = 5, simplified]
  step_hammer [where i = 6, simplified] step_hammer [where i = 7, simplified]
  step_hammer [where i = 8, simplified]

lemma ready_room: "guest_window lo ram sz code s2 mem \<Longrightarrow> 8 dvd off \<Longrightarrow> off < sz \<Longrightarrow> off + 8 \<le> sz"
  using word_room [of off sz] by (auto simp: guest_window_def)

abbreviation loop_flags :: "machine \<Rightarrow> u64" where
  "loop_flags m \<equiv> sub_flags (xr m 1 + of_nat PAGE) (xr m 2) (cpsr m)"

lemma touch_round:
  assumes R: "guest_window lo ram sz code (ms2 m) (mmem m)" "pc m = CODE_GPA" "xr m 1 = RAM_GPA + of_nat off"
    "8 dvd off" "off < sz" "lo \<le> off"
  shows "run_n 4 m = Some (m\<lparr>pc := (if xr m 1 + of_nat PAGE < xr m 2 then CODE_GPA else CODE_GPA + 16),
        xr := (xr m)(1 := xr m 1 + of_nat PAGE), cpsr := loop_flags m,
        mmem := write64 (mmem m) (ram + off) (xr m 1)\<rparr>)"
  using R guest_window_write64 [OF R(1) ready_room [OF R(1,4,5)], of "xr m 1"]
  by (simp add: touch_at [of lo ram sz code] TOUCH_ASM_def exec_simps)

lemma fill_round:
  assumes R: "guest_window lo ram sz code (ms2 m) (mmem m)" "pc m = FILL_GPA" "xr m 1 = RAM_GPA + of_nat off"
    "8 dvd off" "off < sz" "lo \<le> off"
  shows "run_n 4 m = Some (m\<lparr>pc := (if xr m 1 + of_nat PAGE < xr m 2 then FILL_GPA else FILL_GPA + 16),
        xr := (xr m)(1 := xr m 1 + of_nat PAGE), cpsr := loop_flags m,
        mmem := write64 (mmem m) (ram + off) (xr m 5)\<rparr>)"
  using R guest_window_write64 [OF R(1) ready_room [OF R(1,4,5)], of "xr m 5"]
  by (simp add: fill_at [of lo ram sz code] FILL_ASM_def exec_simps)

lemma read_round:
  assumes R: "guest_window lo ram sz code (ms2 m) (mmem m)" "pc m = READ_GPA" "xr m 1 = RAM_GPA + of_nat off"
    "8 dvd off" "off < sz" "lo \<le> off"
  shows "run_n 4 m = Some (m\<lparr>pc := (if xr m 1 + of_nat PAGE < xr m 2 then READ_GPA else READ_GPA + 16),
        xr := (xr m)(5 := read64 (mmem m) (ram + off), 1 := xr m 1 + of_nat PAGE),
        cpsr := loop_flags m\<rparr>)"
  using R by (simp add: read_at [of lo ram sz code] READ_ASM_def exec_simps)

lemma hammer_round:
  assumes R: "guest_window lo ram sz code (ms2 m) (mmem m)" "pc m = HAMMER_GPA + 4" "xr m 1 = RAM_GPA + of_nat off"
    "8 dvd off" "off < sz" "lo \<le> off"
  shows "run_n 6 m = Some (m\<lparr>pc := (if xr m 1 + of_nat PAGE < xr m 2 then HAMMER_GPA + 4 else HAMMER_GPA + 28),
        xr := (xr m)(5 := read64 (mmem m) (ram + off) + 1, 1 := xr m 1 + of_nat PAGE),
        cpsr := loop_flags m,
        mmem := write64 (mmem m) (ram + off) (read64 (mmem m) (ram + off) + 1)\<rparr>)"
  using R guest_window_write64 [OF R(1) ready_room [OF R(1,4,5)], of "read64 (mmem m) (ram + off) + 1"]
  by (simp add: hammer_at [of lo ram sz code] HAMMER_ASM_def exec_simps)

lemma verify_round:
  assumes R: "guest_window lo ram sz code (ms2 m) (mmem m)" "pc m = VERIFY_GPA" "xr m 1 = RAM_GPA + of_nat off"
    "8 dvd off" "off < sz" "lo \<le> off" "verify_op (xr m 1) (xr m) (read64 (mmem m) (ram + off)) = (r', v)"
  shows "run_n (if read64 (mmem m) (ram + off) = xr m 5 then 6 else 7) m =
     Some (m\<lparr>pc := (if xr m 1 + of_nat PAGE < xr m 2 then VERIFY_GPA else VERIFY_GPA + 28),
        xr := r'(1 := xr m 1 + of_nat PAGE),
        cpsr := sub_flags (xr m 1 + of_nat PAGE) (xr m 2)
          (sub_flags (read64 (mmem m) (ram + off)) (xr m 5) (cpsr m))\<rparr>)"
  using R by (cases "read64 (mmem m) (ram + off) = xr m 5")
    (auto simp: verify_at [of lo ram sz code] VERIFY_ASM_def exec_simps verify_op_def)

interpretation touch: guest_program CODE_GPA CODE_GPA "CODE_GPA + 16" "CODE_GPA + 16" 1 touch_op id
proof (unfold_locales, goal_cases)
  case (1 lo ram sz code m) then show ?case by (intro exI [of _ 0]) simp
next
  case (2 lo ram sz code m off r' v)
  then show ?case using touch_round [OF 2(1-6)]
    by (intro exI [of _ 4] exI [of _ "loop_flags m"]) (auto simp: touch_op_def)
next
  case (3 lo ram sz code m)
  then show ?case
    by (intro exI [of _ 0]) (simp add: touch_at [of lo ram sz code] TOUCH_ASM_def exec_simps)
next
  case 4 then show ?case by (simp add: touch_op_def)
qed

interpretation fill: guest_program FILL_GPA FILL_GPA "FILL_GPA + 16" "FILL_GPA + 16" 1 fill_op id
proof (unfold_locales, goal_cases)
  case (1 lo ram sz code m) then show ?case by (intro exI [of _ 0]) simp
next
  case (2 lo ram sz code m off r' v)
  then show ?case using fill_round [OF 2(1-6)]
    by (intro exI [of _ 4] exI [of _ "loop_flags m"]) (auto simp: fill_op_def)
next
  case (3 lo ram sz code m)
  then show ?case
    by (intro exI [of _ 0]) (simp add: fill_at [of lo ram sz code] FILL_ASM_def exec_simps)
next
  case 4 then show ?case by (simp add: fill_op_def)
qed

interpretation read_pass: guest_program READ_GPA READ_GPA "READ_GPA + 16" "READ_GPA + 16" 1 read_op id
proof (unfold_locales, goal_cases)
  case (1 lo ram sz code m) then show ?case by (intro exI [of _ 0]) simp
next
  case (2 lo ram sz code m off r' v)
  then show ?case using read_round [OF 2(1-6)]
    by (intro exI [of _ 4] exI [of _ "loop_flags m"]) (auto simp: read_op_def)
next
  case (3 lo ram sz code m)
  then show ?case
    by (intro exI [of _ 0]) (simp add: read_at [of lo ram sz code] READ_ASM_def exec_simps)
next
  case 4 then show ?case by (auto simp: read_op_def)
qed

interpretation verify: guest_program VERIFY_GPA VERIFY_GPA "VERIFY_GPA + 28" "VERIFY_GPA + 28" 1 verify_op id
proof (unfold_locales, goal_cases)
  case (1 lo ram sz code m) then show ?case by (intro exI [of _ 0]) simp
next
  case (2 lo ram sz code m off r' v)
  then have "v = read64 (mmem m) (ram + off)" by (simp add: verify_op_def)
  then show ?case using verify_round [OF 2(1-7)]
    by (intro exI [of _ "if read64 (mmem m) (ram + off) = xr m 5 then 6 else 7"]
      exI [of _ "sub_flags (xr m 1 + of_nat PAGE) (xr m 2)
          (sub_flags (read64 (mmem m) (ram + off)) (xr m 5) (cpsr m))"]) simp
next
  case (3 lo ram sz code m)
  then show ?case
    by (intro exI [of _ 0]) (simp add: verify_at [of lo ram sz code] VERIFY_ASM_def exec_simps)
next
  case 4 then show ?case by (auto simp: verify_op_def split: if_splits)
qed

interpretation sweep: guest_program HAMMER_GPA "HAMMER_GPA + 4" "HAMMER_GPA + 28" "HAMMER_GPA + 32" 6 sweep_op
  "\<lambda>r. r(4 := r 4 + 1)"
proof (unfold_locales, goal_cases)
  case (1 lo ram sz code m)
  then show ?case
    by (intro exI [of _ 1]) (simp add: hammer_at [of lo ram sz code] HAMMER_ASM_def exec_simps)
next
  case (2 lo ram sz code m off r' v)
  then show ?case using hammer_round [OF 2(1-6)]
    by (intro exI [of _ 6] exI [of _ "loop_flags m"]) (auto simp: sweep_op_def)
next
  case (3 lo ram sz code m)
  then show ?case
    by (intro exI [of _ 1]) (simp add: hammer_at [of lo ram sz code] HAMMER_ASM_def exec_simps)
next
  case 4 then show ?case by (auto simp: sweep_op_def)
qed

end
