(* ===== verification/Guest_Passes.thy ===== *)
theory Guest_Passes
  imports Guest_Programs
begin

text \<open>
  The host side of a pass: the documented behaviour of the vCPU calls as a contract on the
  kernel parameter, and from it and the programs' contract the exact result of every
  \<^verbatim>\<open>run_*\<close> function of \<^verbatim>\<open>guest.rs\<close> on the memory of the process, including that the
  re-entry loop ends.
\<close>

unbundle bit_operations_syntax

section \<open>What a pass leaves in memory\<close>

definition page_map :: "(nat \<Rightarrow> u64 \<Rightarrow> u64) \<Rightarrow> nat \<Rightarrow> nat list \<Rightarrow> mem \<Rightarrow> mem" where
  "page_map g ram offs mem = fold (\<lambda>off m. write64 m (ram + off) (g off (read64 m (ram + off)))) offs mem"

definition spaced :: "nat list \<Rightarrow> bool" where
  "spaced offs \<longleftrightarrow> distinct offs \<and> (\<forall>a\<in>set offs. \<forall>b\<in>set offs. a < b \<longrightarrow> a + 8 \<le> b)"

lemma spaced_ConsD: "spaced (x # xs) \<Longrightarrow> spaced xs \<and> (\<forall>y\<in>set xs. x + 8 \<le> y \<or> y + 8 \<le> x)"
  unfolding spaced_def by simp (metis nat_neq_iff)

lemma spaced_step_by: "8 \<le> s \<Longrightarrow> spaced (step_by a b s)"
proof -
  assume s: "8 \<le> s"
  have "x + 8 \<le> y" if "x \<in> set (step_by a b s)" "y \<in> set (step_by a b s)" "x < y" for x y
  proof -
    obtain i j where "x = a + i * s" "y = a + j * s"
      using \<open>x \<in> _\<close> \<open>y \<in> _\<close> by (auto simp: step_by_def)
    with \<open>x < y\<close> have "i < j" using s by (metis add_less_cancel_left mult_less_cancel2)
    then have "Suc i * s \<le> j * s" by (intro mult_le_mono1) simp
    then show ?thesis using s \<open>x = _\<close> \<open>y = _\<close> by simp
  qed
  then show ?thesis using s by (simp add: spaced_def step_by_distinct)
qed

lemma page_map_same:
  "spaced offs \<Longrightarrow> off \<in> set offs \<Longrightarrow>
    read64 (page_map g ram offs mem) (ram + off) = g off (read64 mem (ram + off))"
proof (induction offs arbitrary: mem)
  case (Cons x xs)
  have sp: "spaced xs" "\<forall>y\<in>set xs. x + 8 \<le> y \<or> y + 8 \<le> x" using spaced_ConsD Cons.prems(1) by blast+
  have keep: "read64 (page_map g ram xs m) (ram + x) = read64 m (ram + x)" for m
    using sp unfolding page_map_def
    by (induction xs arbitrary: m) (auto simp: read64_write64_other dest: spaced_ConsD)
  have step: "page_map g ram (x # xs) mem = page_map g ram xs (write64 mem (ram + x) (g x (read64 mem (ram + x))))"
    by (simp add: page_map_def)
  show ?case
  proof (cases "off = x")
    case True
    then show ?thesis by (simp add: step keep)
  next
    case False
    then have mem: "off \<in> set xs" using Cons.prems by simp
    then have "x + 8 \<le> off \<or> off + 8 \<le> x" using sp by blast
    then show ?thesis using Cons.IH [OF sp(1) mem] by (auto simp: step read64_write64_other)
  qed
qed simp

lemma page_map_outside:
  "(\<And>off. off \<in> set offs \<Longrightarrow> x < ram + off \<or> ram + off + 8 \<le> x) \<Longrightarrow> page_map g ram offs mem x = mem x"
  unfolding page_map_def
proof (induction offs arbitrary: mem)
  case (Cons o1 os)
  then show ?case by (simp add: write64_outside)
qed simp

lemma page_map_id: "page_map (\<lambda>_ v. v) ram offs mem = mem"
  unfolding page_map_def by (induction offs) simp_all

lemma visit_page_map:
  assumes "\<And>a r v. P r \<Longrightarrow> snd (f (RAM_GPA + of_nat a) r v) = g a v \<and> P (fst (f (RAM_GPA + of_nat a) r v))"
    and "\<And>r v. P r \<Longrightarrow> P (r(1 := v))" and "P r"
  shows "snd (visit f ram offs r mem) = page_map g ram offs mem \<and> P (fst (visit f ram offs r mem))"
  using assms(3)
proof (induction offs arbitrary: r mem)
  case (Cons x xs)
  obtain r' v where op: "f (RAM_GPA + of_nat x) r (read64 mem (ram + x)) = (r', v)" by fastforce
  then have "v = g x (read64 mem (ram + x))" "P r'"
    using assms(1) [OF Cons.prems, of x "read64 mem (ram + x)"] by simp_all
  then have "P (r'(1 := r 1 + of_nat PAGE))" using assms(2) by simp
  note IH = Cons.IH [OF this]
  have "visit f ram (x # xs) r mem = visit f ram xs (r'(1 := r 1 + of_nat PAGE))
      (write64 mem (ram + x) (g x (read64 mem (ram + x))))"
    using op \<open>v = _\<close> by simp
  moreover have "page_map g ram (x # xs) mem = page_map g ram xs (write64 mem (ram + x) (g x (read64 mem (ram + x))))"
    by (simp add: page_map_def)
  ultimately show ?case using IH by metis
qed (simp add: page_map_def)

lemma visit_touch: "snd (visit touch_op ram offs r mem) = page_map (\<lambda>off _. RAM_GPA + of_nat off) ram offs mem"
  using visit_page_map [where P = "\<lambda>_. True" and f = touch_op] by (simp add: touch_op_def)

lemma visit_read: "snd (visit read_op ram offs r mem) = mem"
  using visit_page_map [where P = "\<lambda>_. True" and f = read_op and g = "\<lambda>_ v. v"]
  by (simp add: read_op_def page_map_id)

lemma visit_fill: "snd (visit fill_op ram offs r mem) = page_map (\<lambda>_ _. r 5) ram offs mem"
  using visit_page_map [where P = "\<lambda>q. q 5 = r 5" and f = fill_op and g = "\<lambda>_ _. r 5"]
  by (simp add: fill_op_def)

lemma visit_sweep: "snd (visit sweep_op ram offs r mem) = page_map (\<lambda>_ v. v + 1) ram offs mem"
  using visit_page_map [where P = "\<lambda>_. True" and f = sweep_op] by (simp add: sweep_op_def)

lemma visit_verify:
  "snd (visit verify_op ram offs r mem) = mem \<and>
   fst (visit verify_op ram offs r mem) 4 = r 4 + of_nat (length (filter (\<lambda>off. read64 mem (ram + off) \<noteq> r 5) offs))"
proof (induction offs arbitrary: r)
  case (Cons x xs)
  define q where "q = (if read64 mem (ram + x) = r 5 then r(6 := read64 mem (ram + x))
      else r(6 := read64 mem (ram + x), 4 := r 4 + 1))(1 := r 1 + of_nat PAGE)"
  have "verify_op a r (read64 mem (ram + x)) = (q(1 := r 1), read64 mem (ram + x))" for a
    by (auto simp: verify_op_def q_def)
  then have "visit verify_op ram (x # xs) r mem = visit verify_op ram xs q mem" by (simp add: q_def)
  moreover have "q 5 = r 5" "q 4 = (if read64 mem (ram + x) = r 5 then r 4 else r 4 + 1)"
    by (simp_all add: q_def)
  ultimately show ?case using Cons [of q] by (simp del: visit.simps)
qed simp

section \<open>The framework's contract\<close>

text \<open>
  What the host loops rely on. A view reads from the framework's state the registers of a
  vCPU, the stage-2 table, and how many cancelled runs are still to come. Setting a register
  sets it; reading one reads it; running a vCPU that would reach a data abort executes its
  instructions, and returns either cancelled at some point on the way (with one cancellation
  fewer to come) or at the abort, with the syndrome's exception class and the address.
\<close>

record 'x hv_view =
  v_cpu :: "'x \<Rightarrow> u64 \<Rightarrow> cpu"
  v_s2 :: "'x \<Rightarrow> u64 \<Rightarrow> (nat \<times> u64) option"
  v_cancels :: "'x \<Rightarrow> nat"

definition set_reg :: "u32 \<Rightarrow> u64 \<Rightarrow> cpu \<Rightarrow> cpu" where
  "set_reg r v c = (if r = HV_REG_PC then c\<lparr>pc := v\<rparr>
     else if r = HV_REG_CPSR then c\<lparr>cpsr := v\<rparr> else c\<lparr>xr := (xr c)(unat r := v)\<rparr>)"

definition get_reg :: "u32 \<Rightarrow> cpu \<Rightarrow> u64" where
  "get_reg r c = (if r = HV_REG_PC then pc c else if r = HV_REG_CPSR then cpsr c else xr c (unat r))"

lemma set_reg_simps:
  "set_reg HV_REG_PC v c = c\<lparr>pc := v\<rparr>" "set_reg HV_REG_X1 v c = c\<lparr>xr := (xr c)(1 := v)\<rparr>"
  "set_reg HV_REG_X2 v c = c\<lparr>xr := (xr c)(2 := v)\<rparr>" "set_reg HV_REG_X3 v c = c\<lparr>xr := (xr c)(3 := v)\<rparr>"
  "set_reg HV_REG_X4 v c = c\<lparr>xr := (xr c)(4 := v)\<rparr>" "set_reg HV_REG_X5 v c = c\<lparr>xr := (xr c)(5 := v)\<rparr>"
  "set_reg HV_REG_X6 v c = c\<lparr>xr := (xr c)(6 := v)\<rparr>"
  by (simp_all add: set_reg_def code_defs)

lemma get_reg_simps: "get_reg HV_REG_X4 c = xr c 4" "get_reg HV_REG_PC c = pc c"
  by (simp_all add: get_reg_def code_defs)

definition machine_of :: "'x hv_view \<Rightarrow> u64 \<Rightarrow> 'x \<Rightarrow> mem \<Rightarrow> machine" where
  "machine_of V vcpu x m = \<lparr>pc = pc (v_cpu V x vcpu), xr = xr (v_cpu V x vcpu), cpsr = cpsr (v_cpu V x vcpu),
     mmem = m, ms2 = v_s2 V x\<rparr>"

definition set_reg_law :: "'x kernel \<Rightarrow> 'x hv_view \<Rightarrow> u64 \<Rightarrow> bool" where
  "set_reg_law K V vcpu \<longleftrightarrow> (\<forall>r v x m p x' m'. k_sys K (HvVcpuSetReg vcpu r v) x m = (p, x', m') \<longrightarrow>
     rc p = 0 \<and> m' = m \<and> v_cpu V x' vcpu = set_reg r v (v_cpu V x vcpu) \<and> v_s2 V x' = v_s2 V x
     \<and> v_cancels V x' = v_cancels V x)"

definition get_reg_law :: "'x kernel \<Rightarrow> 'x hv_view \<Rightarrow> u64 \<Rightarrow> bool" where
  "get_reg_law K V vcpu \<longleftrightarrow> (\<forall>r x m p x' m'. k_sys K (HvVcpuGetReg vcpu r) x m = (p, x', m') \<longrightarrow>
     rc p = 0 \<and> rv p = get_reg r (v_cpu V x vcpu) \<and> m' = m \<and> v_cpu V x' vcpu = v_cpu V x vcpu
     \<and> v_s2 V x' = v_s2 V x \<and> v_cancels V x' = v_cancels V x)"

definition run_law :: "'x kernel \<Rightarrow> 'x hv_view \<Rightarrow> u64 \<Rightarrow> bool" where
  "run_law K V vcpu \<longleftrightarrow> (\<forall>x m n ma a p x' m'.
     run_n n (machine_of V vcpu x m) = Some ma \<longrightarrow> arm_step ma = DataAbort a \<longrightarrow>
     k_sys K (HvVcpuRun vcpu) x m = (p, x', m') \<longrightarrow>
     rc p = 0 \<and>
     (reason (k_exit K vcpu x') = HV_EXIT_REASON_CANCELED \<and> v_cancels V x' < v_cancels V x
        \<and> (\<exists>i\<le>n. run_n i (machine_of V vcpu x m) = Some (machine_of V vcpu x' m'))
      \<or> reason (k_exit K vcpu x') = HV_EXIT_REASON_EXCEPTION
        \<and> drop_bit 26 (syndrome (exception (k_exit K vcpu x'))) AND 0x3F = EC_DATA_ABORT_LOWER_EL
        \<and> physical_address (exception (k_exit K vcpu x')) = a
        \<and> machine_of V vcpu x' m' = ma \<and> v_cancels V x' \<le> v_cancels V x))"

definition vcpu_contract :: "'x kernel \<Rightarrow> 'x hv_view \<Rightarrow> u64 \<Rightarrow> bool" where
  "vcpu_contract K V vcpu \<longleftrightarrow> set_reg_law K V vcpu \<and> get_reg_law K V vcpu \<and> run_law K V vcpu"

text \<open>The guest as a world shows it.\<close>

abbreviation guest_of :: "'x hv_view \<Rightarrow> u64 \<Rightarrow> 'x world \<Rightarrow> machine" where
  "guest_of V vcpu w \<equiv> machine_of V vcpu (ext w) (wmem w)"

lemma machine_of_simps [simp]:
  "pc (machine_of V v x m) = pc (v_cpu V x v)" "xr (machine_of V v x m) = xr (v_cpu V x v)"
  "mmem (machine_of V v x m) = m" "ms2 (machine_of V v x m) = v_s2 V x"
  by (simp_all add: machine_of_def)

lemma write_reg_ok:
  assumes "vcpu_contract K V vcpu"
  shows "\<exists>w'. write_reg K vcpu r v what w = (Ok (), w') \<and> wmem w' = wmem w \<and> stdout w' = stdout w
     \<and> v_cpu V (ext w') vcpu = set_reg r v (v_cpu V (ext w) vcpu) \<and> v_s2 V (ext w') = v_s2 V (ext w)
     \<and> v_cancels V (ext w') = v_cancels V (ext w)"
proof -
  obtain p x' m' where k: "k_sys K (HvVcpuSetReg vcpu r v) (ext w) (wmem w) = (p, x', m')"
    by (cases "k_sys K (HvVcpuSetReg vcpu r v) (ext w) (wmem w)") auto
  moreover have "set_reg_law K V vcpu" using assms by (simp add: vcpu_contract_def)
  ultimately show ?thesis
    by (auto simp: write_reg_def io_defs sys_def set_reg_law_def)
qed

lemma read_reg_ok:
  assumes "vcpu_contract K V vcpu"
  shows "\<exists>w'. read_reg K vcpu r w = (Ok (get_reg r (v_cpu V (ext w) vcpu)), w') \<and> wmem w' = wmem w
     \<and> stdout w' = stdout w \<and> v_cpu V (ext w') vcpu = v_cpu V (ext w) vcpu \<and> v_s2 V (ext w') = v_s2 V (ext w)
     \<and> v_cancels V (ext w') = v_cancels V (ext w)"
proof -
  obtain p x' m' where k: "k_sys K (HvVcpuGetReg vcpu r) (ext w) (wmem w) = (p, x', m')"
    by (cases "k_sys K (HvVcpuGetReg vcpu r) (ext w) (wmem w)") auto
  moreover have "get_reg_law K V vcpu" using assms by (simp add: vcpu_contract_def)
  ultimately show ?thesis
    by (auto simp: read_reg_def io_defs sys_def get_reg_law_def)
qed

lemma run_to_doorbell_ok:
  assumes "vcpu_contract K V vcpu" and "run_n n (guest_of V vcpu w) = Some ma"
    and "arm_step ma = DataAbort DOORBELL_GPA"
  shows "\<exists>e w'. run_to_doorbell K vcpu w = (Ok e, w') \<and> stdout w' = stdout w \<and>
     (e = Canceled \<and> v_cancels V (ext w') < v_cancels V (ext w)
        \<and> (\<exists>i\<le>n. run_n i (guest_of V vcpu w) = Some (guest_of V vcpu w'))
      \<or> e = Doorbell \<and> guest_of V vcpu w' = ma \<and> v_cancels V (ext w') \<le> v_cancels V (ext w))"
proof -
  obtain p x' m' where k: "k_sys K (HvVcpuRun vcpu) (ext w) (wmem w) = (p, x', m')"
    by (cases "k_sys K (HvVcpuRun vcpu) (ext w) (wmem w)") auto
  have law: "run_law K V vcpu" using assms(1) by (simp add: vcpu_contract_def)
  show ?thesis
    using law [unfolded run_law_def, rule_format, OF assms(2,3) k]
    by (auto simp: run_to_doorbell_def io_defs sys_def k read_exit_def Let_def
        HV_EXIT_REASON_CANCELED_def HV_EXIT_REASON_EXCEPTION_def)
qed

lemma pass_loop_ok:
  assumes "vcpu_contract K V vcpu" and "arm_step ma = DataAbort DOORBELL_GPA"
    and "run_n n (guest_of V vcpu w) = Some ma" and "v_cancels V (ext w) < fuel"
  shows "\<exists>w'. pass_loop fuel K vcpu w = (Ok (), w') \<and> guest_of V vcpu w' = ma
     \<and> stdout w' = stdout w \<and> v_cancels V (ext w') \<le> v_cancels V (ext w)"
  using assms(3,4)
proof (induction fuel arbitrary: n w)
  case (Suc fuel)
  obtain e w1 where run: "run_to_doorbell K vcpu w = (Ok e, w1)" "stdout w1 = stdout w"
    and c: "e = Canceled \<and> v_cancels V (ext w1) < v_cancels V (ext w)
        \<and> (\<exists>i\<le>n. run_n i (guest_of V vcpu w) = Some (guest_of V vcpu w1))
      \<or> e = Doorbell \<and> guest_of V vcpu w1 = ma \<and> v_cancels V (ext w1) \<le> v_cancels V (ext w)"
    using run_to_doorbell_ok [OF assms(1) Suc.prems(1) assms(2)] by blast
  show ?case
  proof (cases e)
    case Canceled
    with c obtain i where i: "i \<le> n" "run_n i (guest_of V vcpu w) = Some (guest_of V vcpu w1)"
      and dec: "v_cancels V (ext w1) < v_cancels V (ext w)" by auto
    then have rest: "run_n (n - i) (guest_of V vcpu w1) = Some ma"
      using run_n_prefix [OF Suc.prems(1) i(1)] by auto
    have "v_cancels V (ext w1) < fuel" using dec Suc.prems(2) by simp
    from Suc.IH [OF rest this] show ?thesis
      using run dec Canceled by (auto simp: bind_io_Ok)
  next
    case Doorbell
    with c run show ?thesis by (auto simp: bind_io_Ok)
  qed
qed simp


definition pass_regs :: "usize \<Rightarrow> usize \<Rightarrow> regs \<Rightarrow> regs" where
  "pass_regs start_off end_off r = r(1 := RAM_GPA + start_off, 2 := RAM_GPA + end_off, 3 := DOORBELL_GPA)"

text \<open>The pages of \<open>[start_off, end_off)\<close>.\<close>

abbreviation pages :: "usize \<Rightarrow> usize \<Rightarrow> nat list" where
  "pages start_off end_off \<equiv> step_by (unat start_off) (unat end_off) PAGE"

text \<open>A range of guest RAM a pass may be run over.\<close>

definition good_range :: "usize \<Rightarrow> usize \<Rightarrow> nat \<Rightarrow> bool" where
  "good_range start_off end_off sz \<longleftrightarrow>
     PAGE dvd unat start_off \<and> start_off < end_off \<and> unat end_off \<le> sz"

lemma run_pass_arms:
  assumes "vcpu_contract K V vcpu"
  shows "\<exists>w1. run_pass fuel K vcpu entry start_off end_off w = pass_loop fuel K vcpu w1
     \<and> wmem w1 = wmem w \<and> stdout w1 = stdout w \<and> v_s2 V (ext w1) = v_s2 V (ext w)
     \<and> v_cancels V (ext w1) = v_cancels V (ext w)
     \<and> pc (v_cpu V (ext w1) vcpu) = entry
     \<and> xr (v_cpu V (ext w1) vcpu) = pass_regs start_off end_off (xr (v_cpu V (ext w) vcpu))"
proof -
  note wr = write_reg_ok [OF assms]
  obtain wa where a: "write_reg K vcpu HV_REG_PC entry ''set PC'' w = (Ok (), wa)"
    "wmem wa = wmem w" "stdout wa = stdout w" "v_cpu V (ext wa) vcpu = set_reg HV_REG_PC entry (v_cpu V (ext w) vcpu)"
    "v_s2 V (ext wa) = v_s2 V (ext w)" "v_cancels V (ext wa) = v_cancels V (ext w)" using wr by blast
  obtain wb where b: "write_reg K vcpu HV_REG_X1 (RAM_GPA + start_off) ''set X1'' wa = (Ok (), wb)"
    "wmem wb = wmem wa" "stdout wb = stdout wa" "v_cpu V (ext wb) vcpu = set_reg HV_REG_X1 (RAM_GPA + start_off) (v_cpu V (ext wa) vcpu)"
    "v_s2 V (ext wb) = v_s2 V (ext wa)" "v_cancels V (ext wb) = v_cancels V (ext wa)" using wr by blast
  obtain wc where c: "write_reg K vcpu HV_REG_X2 (RAM_GPA + end_off) ''set X2'' wb = (Ok (), wc)"
    "wmem wc = wmem wb" "stdout wc = stdout wb" "v_cpu V (ext wc) vcpu = set_reg HV_REG_X2 (RAM_GPA + end_off) (v_cpu V (ext wb) vcpu)"
    "v_s2 V (ext wc) = v_s2 V (ext wb)" "v_cancels V (ext wc) = v_cancels V (ext wb)" using wr by blast
  obtain wd where d: "write_reg K vcpu HV_REG_X3 DOORBELL_GPA ''set X3'' wc = (Ok (), wd)"
    "wmem wd = wmem wc" "stdout wd = stdout wc" "v_cpu V (ext wd) vcpu = set_reg HV_REG_X3 DOORBELL_GPA (v_cpu V (ext wc) vcpu)"
    "v_s2 V (ext wd) = v_s2 V (ext wc)" "v_cancels V (ext wd) = v_cancels V (ext wc)" using wr by blast
  have "run_pass fuel K vcpu entry start_off end_off w = pass_loop fuel K vcpu wd"
    by (simp add: run_pass_def then_io_def bind_io_def a(1) b(1) c(1) d(1))
  then show ?thesis
    using a b c d
    by (intro exI [of _ wd]) (simp add: set_reg_simps pass_regs_def)
qed

context guest_program
begin

lemma run_pass_ok:
  assumes C: "vcpu_contract K V vcpu" and R: "guest_window lo ram sz code (v_s2 V (ext w)) (wmem w)"
    and G: "good_range start_off end_off sz" and L: "lo \<le> unat start_off" and F: "v_cancels V (ext w) < fuel"
    and cur: "cursor = 1 \<or> cursor \<notin> {1, 2, 3} \<and> xr (v_cpu V (ext w) vcpu) cursor = RAM_GPA + start_off"
    and vis: "visit f ram (pages start_off end_off) (pass_regs start_off end_off (xr (v_cpu V (ext w) vcpu))) (wmem w) = (r', mem')"
  shows "\<exists>w'. run_pass fuel K vcpu entry_pc start_off end_off w = (Ok (), w') \<and> wmem w' = mem'
     \<and> xr (v_cpu V (ext w') vcpu) = fin r' \<and> v_s2 V (ext w') = v_s2 V (ext w) \<and> stdout w' = stdout w
     \<and> guest_window lo ram sz code (v_s2 V (ext w')) (wmem w') \<and> v_cancels V (ext w') \<le> v_cancels V (ext w)"
proof -
  obtain w1 where run: "run_pass fuel K vcpu entry_pc start_off end_off w = pass_loop fuel K vcpu w1"
    and w1: "wmem w1 = wmem w" "stdout w1 = stdout w" "v_s2 V (ext w1) = v_s2 V (ext w)"
      "v_cancels V (ext w1) = v_cancels V (ext w)" "pc (v_cpu V (ext w1) vcpu) = entry_pc"
      "xr (v_cpu V (ext w1) vcpu) = pass_regs start_off end_off (xr (v_cpu V (ext w) vcpu))"
    using run_pass_arms [OF C, where w = w] by blast
  let ?m = "guest_of V vcpu w1" and ?r = "pass_regs start_off end_off (xr (v_cpu V (ext w) vcpu))"
  have c1: "?r cursor = RAM_GPA + start_off" using cur by (auto simp: pass_regs_def)
  have upd: "?r(1 := ?r cursor) = ?r" using c1 by (simp add: pass_regs_def fun_eq_iff)
  have "\<exists>n m'. run_n n ?m = Some m' \<and> arm_step m' = DataAbort DOORBELL_GPA \<and> mmem m' = mem'
     \<and> xr m' = fin r' \<and> ms2 m' = ms2 ?m \<and> pc m' = ring_pc \<and> guest_window lo ram sz code (ms2 m') (mmem m')"
  proof (rule pass [where start = "unat start_off" and stop = "unat end_off"])
    show "8 dvd unat start_off" using G by (auto simp: good_range_def PAGE_def intro: dvd_trans [of 8 16384])
    show "unat start_off < unat end_off" "unat end_off \<le> sz" using G by (auto simp: good_range_def word_less_nat_alt)
    show "cursor \<noteq> 2" "cursor \<noteq> 3" using cur by auto
  qed (use R L w1 c1 upd vis in \<open>auto simp: pass_regs_def\<close>)
  then obtain n m' where n: "run_n n ?m = Some m'" "arm_step m' = DataAbort DOORBELL_GPA"
    and m': "mmem m' = mem'" "xr m' = fin r'" "ms2 m' = v_s2 V (ext w)" "guest_window lo ram sz code (ms2 m') (mmem m')"
    using w1 by auto
  have "v_cancels V (ext w1) < fuel" using F w1 by simp
  then obtain w' where w': "pass_loop fuel K vcpu w1 = (Ok (), w')" "guest_of V vcpu w' = m'" "stdout w' = stdout w1"
    "v_cancels V (ext w') \<le> v_cancels V (ext w1)" using pass_loop_ok [OF C n(2,1)] by blast
  then show ?thesis using run w1 m' by (intro exI [of _ w']) auto
qed

end

text \<open>What every pass keeps of a world.\<close>

definition kept_in :: "'x hv_view \<Rightarrow> nat \<Rightarrow> nat \<Rightarrow> nat \<Rightarrow> nat \<Rightarrow> 'x world \<Rightarrow> 'x world \<Rightarrow> bool" where
  "kept_in V lo ram sz code w w' \<longleftrightarrow> guest_window lo ram sz code (v_s2 V (ext w')) (wmem w')
     \<and> v_s2 V (ext w') = v_s2 V (ext w) \<and> stdout w' = stdout w \<and> v_cancels V (ext w') \<le> v_cancels V (ext w)"

definition window_pre :: "'x kernel \<Rightarrow> 'x hv_view \<Rightarrow> u64 \<Rightarrow> nat \<Rightarrow> nat \<Rightarrow> nat \<Rightarrow> nat \<Rightarrow> nat \<Rightarrow> usize \<Rightarrow> usize \<Rightarrow> 'x world \<Rightarrow> bool" where
  "window_pre K V vcpu lo ram sz code fuel start_off end_off w \<longleftrightarrow>
     vcpu_contract K V vcpu \<and> guest_window lo ram sz code (v_s2 V (ext w)) (wmem w)
     \<and> good_range start_off end_off sz \<and> lo \<le> unat start_off \<and> v_cancels V (ext w) < fuel"

text \<open>The same when all of guest RAM is mapped.\<close>

abbreviation kept :: "'x hv_view \<Rightarrow> nat \<Rightarrow> nat \<Rightarrow> nat \<Rightarrow> 'x world \<Rightarrow> 'x world \<Rightarrow> bool" where
  "kept V \<equiv> kept_in V 0"

abbreviation pass_pre :: "'x kernel \<Rightarrow> 'x hv_view \<Rightarrow> u64 \<Rightarrow> nat \<Rightarrow> nat \<Rightarrow> nat \<Rightarrow> nat \<Rightarrow> usize \<Rightarrow> usize \<Rightarrow> 'x world \<Rightarrow> bool" where
  "pass_pre K V vcpu \<equiv> window_pre K V vcpu 0"

lemma run_touch_range_result:
  assumes "window_pre K V vcpu lo ram sz code fuel start_off end_off w"
  shows "\<exists>w'. run_touch_range fuel K vcpu start_off end_off w = (Ok (), w') \<and> kept_in V lo ram sz code w w'
     \<and> wmem w' = page_map (\<lambda>off _. RAM_GPA + of_nat off) ram (pages start_off end_off) (wmem w)"
proof -
  obtain r' mem' where v: "visit touch_op ram (pages start_off end_off)
      (pass_regs start_off end_off (xr (v_cpu V (ext w) vcpu))) (wmem w) = (r', mem')" by fastforce
  then have "mem' = page_map (\<lambda>off _. RAM_GPA + of_nat off) ram (pages start_off end_off) (wmem w)"
    using visit_touch by (metis snd_conv)
  then show ?thesis
    using touch.run_pass_ok [OF _ _ _ _ _ _ v] assms by (fastforce simp: window_pre_def run_touch_range_def kept_in_def)
qed

lemma run_read_pass_result:
  assumes "window_pre K V vcpu lo ram sz code fuel 0 ram_size w"
  shows "\<exists>w'. run_read_pass fuel K vcpu ram_size w = (Ok (), w') \<and> kept_in V lo ram sz code w w' \<and> wmem w' = wmem w"
proof -
  obtain r' mem' where v: "visit read_op ram (pages 0 ram_size)
      (pass_regs 0 ram_size (xr (v_cpu V (ext w) vcpu))) (wmem w) = (r', mem')" by fastforce
  then have "mem' = wmem w" using visit_read by (metis snd_conv)
  then show ?thesis
    using read_pass.run_pass_ok [OF _ _ _ _ _ _ v] assms by (fastforce simp: window_pre_def run_read_pass_def kept_in_def)
qed

text \<open>Arming a register before a pass keeps everything the pass relies on.\<close>

lemma write_reg_pre:
  assumes "window_pre K V vcpu lo ram sz code fuel start_off end_off w"
  obtains w1 where "write_reg K vcpu r v what w = (Ok (), w1)"
    and "window_pre K V vcpu lo ram sz code fuel start_off end_off w1"
    and "v_cpu V (ext w1) vcpu = set_reg r v (v_cpu V (ext w) vcpu)" and "wmem w1 = wmem w"
    and "\<And>w'. kept_in V lo ram sz code w1 w' = kept_in V lo ram sz code w w'"
proof -
  have "vcpu_contract K V vcpu" using assms by (simp add: window_pre_def)
  from write_reg_ok [OF this, of r v what w] obtain w1 where w1: "write_reg K vcpu r v what w = (Ok (), w1)"
    "wmem w1 = wmem w" "stdout w1 = stdout w" "v_cpu V (ext w1) vcpu = set_reg r v (v_cpu V (ext w) vcpu)"
    "v_s2 V (ext w1) = v_s2 V (ext w)" "v_cancels V (ext w1) = v_cancels V (ext w)" by blast
  show ?thesis by (rule that [OF w1(1) _ w1(4,2)]) (use w1 assms in \<open>simp_all add: window_pre_def kept_in_def\<close>)
qed

lemma run_sweep_range_result:
  assumes "window_pre K V vcpu lo ram sz code fuel start_off end_off w"
  shows "\<exists>w'. run_sweep_range fuel K vcpu start_off end_off w = (Ok (), w') \<and> kept_in V lo ram sz code w w'
     \<and> wmem w' = page_map (\<lambda>_ v. v + 1) ram (pages start_off end_off) (wmem w)"
proof -
  obtain w1 where w1: "write_reg K vcpu HV_REG_X6 (RAM_GPA + start_off) ''set X6'' w = (Ok (), w1)"
    "window_pre K V vcpu lo ram sz code fuel start_off end_off w1" "wmem w1 = wmem w"
    "v_cpu V (ext w1) vcpu = set_reg HV_REG_X6 (RAM_GPA + start_off) (v_cpu V (ext w) vcpu)"
    "\<And>w'. kept_in V lo ram sz code w1 w' = kept_in V lo ram sz code w w'" using write_reg_pre [OF assms] by blast
  obtain r' mem' where v: "visit sweep_op ram (pages start_off end_off)
      (pass_regs start_off end_off (xr (v_cpu V (ext w1) vcpu))) (wmem w1) = (r', mem')" by fastforce
  then have "mem' = page_map (\<lambda>_ v. v + 1) ram (pages start_off end_off) (wmem w)"
    using visit_sweep w1(3) by (metis snd_conv)
  moreover have "xr (v_cpu V (ext w1) vcpu) 6 = RAM_GPA + start_off" by (simp add: w1(4) set_reg_simps)
  ultimately show ?thesis
    using sweep.run_pass_ok [OF _ _ _ _ _ _ v] w1
    by (fastforce simp: window_pre_def run_sweep_range_def kept_in_def then_io_def bind_io_def)
qed

lemma run_fill_range_result:
  assumes "window_pre K V vcpu lo ram sz code fuel start_off end_off w"
  shows "\<exists>w'. run_fill_range fuel K vcpu start_off end_off value w = (Ok (), w') \<and> kept_in V lo ram sz code w w'
     \<and> wmem w' = page_map (\<lambda>_ _. value) ram (pages start_off end_off) (wmem w)"
proof -
  obtain w1 where w1: "write_reg K vcpu HV_REG_X5 value ''set X5'' w = (Ok (), w1)"
    "window_pre K V vcpu lo ram sz code fuel start_off end_off w1" "wmem w1 = wmem w"
    "v_cpu V (ext w1) vcpu = set_reg HV_REG_X5 value (v_cpu V (ext w) vcpu)"
    "\<And>w'. kept_in V lo ram sz code w1 w' = kept_in V lo ram sz code w w'" using write_reg_pre [OF assms] by blast
  let ?r = "pass_regs start_off end_off (xr (v_cpu V (ext w1) vcpu))"
  obtain r' mem' where v: "visit fill_op ram (pages start_off end_off) ?r (wmem w1) = (r', mem')" by fastforce
  moreover have "?r 5 = value" by (simp add: w1(4) set_reg_simps pass_regs_def)
  ultimately have "mem' = page_map (\<lambda>_ _. value) ram (pages start_off end_off) (wmem w)"
    using visit_fill w1(3) by (metis snd_conv)
  then show ?thesis
    using fill.run_pass_ok [OF _ _ _ _ _ _ v] w1
    by (fastforce simp: window_pre_def run_fill_range_def kept_in_def then_io_def bind_io_def)
qed

lemma run_verify_range_result:
  assumes "window_pre K V vcpu lo ram sz code fuel start_off end_off w"
  shows "\<exists>w'. run_verify_range fuel K vcpu start_off end_off expected w =
       (Ok (of_nat (length (filter (\<lambda>off. read64 (wmem w) (ram + off) \<noteq> expected) (pages start_off end_off)))), w')
     \<and> kept_in V lo ram sz code w w' \<and> wmem w' = wmem w"
proof -
  obtain wa where wa: "write_reg K vcpu HV_REG_X4 0 ''clear X4'' w = (Ok (), wa)"
    "window_pre K V vcpu lo ram sz code fuel start_off end_off wa" "wmem wa = wmem w"
    "v_cpu V (ext wa) vcpu = set_reg HV_REG_X4 0 (v_cpu V (ext w) vcpu)"
    "\<And>w'. kept_in V lo ram sz code wa w' = kept_in V lo ram sz code w w'" using write_reg_pre [OF assms] by blast
  obtain w1 where w1: "write_reg K vcpu HV_REG_X5 expected ''set X5'' wa = (Ok (), w1)"
    "window_pre K V vcpu lo ram sz code fuel start_off end_off w1" "wmem w1 = wmem w"
    "v_cpu V (ext w1) vcpu = set_reg HV_REG_X5 expected (v_cpu V (ext wa) vcpu)"
    "\<And>w'. kept_in V lo ram sz code w1 w' = kept_in V lo ram sz code w w'" using write_reg_pre [OF wa(2)] wa(3,5) by metis
  let ?r = "pass_regs start_off end_off (xr (v_cpu V (ext w1) vcpu))"
  obtain r' mem' where v: "visit verify_op ram (pages start_off end_off) ?r (wmem w1) = (r', mem')" by fastforce
  moreover have "?r 5 = expected" "?r 4 = 0" by (simp_all add: w1(4) wa(4) set_reg_simps pass_regs_def)
  ultimately have m: "mem' = wmem w"
    and r4: "r' 4 = of_nat (length (filter (\<lambda>off. read64 (wmem w) (ram + off) \<noteq> expected) (pages start_off end_off)))"
    using visit_verify [of ram "pages start_off end_off" ?r "wmem w1"] w1(3) by simp_all
  obtain w2 where w2: "run_pass fuel K vcpu VERIFY_GPA start_off end_off w1 = (Ok (), w2)" "wmem w2 = mem'"
    "xr (v_cpu V (ext w2) vcpu) = r'" "kept_in V lo ram sz code w1 w2"
    using verify.run_pass_ok [OF _ _ _ _ _ _ v] w1(2) by (fastforce simp: window_pre_def kept_in_def)
  have "vcpu_contract K V vcpu" using assms by (simp add: window_pre_def)
  from read_reg_ok [OF this, of HV_REG_X4 w2] w2 r4
  obtain w3 where "read_reg K vcpu HV_REG_X4 w2 = (Ok (of_nat (length (filter (\<lambda>off. read64 (wmem w) (ram + off) \<noteq> expected) (pages start_off end_off)))), w3)"
    "wmem w3 = wmem w2" "kept_in V lo ram sz code w1 w3" by (auto simp: get_reg_simps kept_in_def)
  then show ?thesis using wa(1) w1(1,5) w2 m
    by (auto simp: run_verify_range_def then_io_def bind_io_def)
qed

section \<open>The code page\<close>

lemma write_program_result:
  "write_program a ws w = (Ok (), w\<lparr>wmem := fold (\<lambda>i m. write32 m (a + i * 4) (ws ! i)) [0..<length ws] (wmem w)\<rparr>)"
  by (simp add: write_program_def for_io_store32)

lemma fold_write32_read:
  "n \<le> length ws \<Longrightarrow> i < n \<Longrightarrow> read32 (fold (\<lambda>i m. write32 m (a + i * 4) (ws ! i)) [0..<n] mem) (a + i * 4) = ws ! i"
proof (induction n)
  case (Suc n)
  then show ?case by (cases "i = n") (auto simp: read32_write32_other)
qed simp

lemma fold_write32_outside:
  "b + 4 \<le> a \<or> a + n * 4 \<le> b \<Longrightarrow> read32 (fold (\<lambda>i m. write32 m (a + i * 4) (ws ! i)) [0..<n] mem) b = read32 mem b"
  by (induction n) (auto simp: read32_write32_other)

lemma holds_code_written: "holds_code (fold (\<lambda>i m. write32 m (a + i * 4) (ws ! i)) [0..<length ws] mem) a ws"
  by (simp add: holds_code_def fold_write32_read)

lemma holds_code_kept:
  assumes "holds_code mem b vs" "b + length vs * 4 \<le> a \<or> a + n * 4 \<le> b"
  shows "holds_code (fold (\<lambda>i m. write32 m (a + i * 4) (ws ! i)) [0..<n] mem) b vs"
  unfolding holds_code_def
proof (intro allI impI)
  fix i assume i: "i < length vs"
  then have "b + i * 4 + 4 \<le> a \<or> a + n * 4 \<le> b + i * 4" using assms(2) by auto
  then show "read32 (fold (\<lambda>i m. write32 m (a + i * 4) (ws ! i)) [0..<n] mem) (b + i * 4) = vs ! i"
    using assms(1) i by (simp add: fold_write32_outside holds_code_def)
qed

lemma fold_write32_bytes:
  "x < a \<or> a + n * 4 \<le> x \<Longrightarrow> fold (\<lambda>i m. write32 m (a + i * 4) (ws ! i)) [0..<n] mem x = mem x"
  by (induction n) (auto simp: write32_def write_le_def)

lemma write_code_page_result:
  assumes "\<And>x m p x' m'. k_sys K (IcacheInvalidate code (of_nat PAGE)) x m = (p, x', m') \<Longrightarrow> m' = m"
  shows "\<exists>w'. write_code_page K code w = (Ok (), w') \<and> code_loaded code (wmem w')
     \<and> (\<forall>x. x < code \<or> code + PAGE \<le> x \<longrightarrow> wmem w' x = wmem w x)"
proof -
  let ?wr = "\<lambda>a ws mem. fold (\<lambda>i m. write32 m (a + i * 4) (ws ! i)) [0..<length ws] mem"
  define mem where "mem = ?wr (code + FILL_OFF) FILL_CODE (?wr (code + VERIFY_OFF) VERIFY_CODE
      (?wr (code + READ_OFF) READ_CODE (?wr (code + HAMMER_OFF) HAMMER_CODE (?wr code TOUCH_CODE (wmem w)))))"
  have "code_loaded code mem"
    unfolding code_loaded_def mem_def
    by (intro conjI holds_code_kept holds_code_written) (simp_all add: code_defs)
  moreover have "mem x = wmem w x" if "x < code \<or> code + PAGE \<le> x" for x
    unfolding mem_def using that by (subst fold_write32_bytes, force simp: code_defs)+ simp
  moreover have "\<exists>w'. write_code_page K code w = (Ok (), w') \<and> wmem w' = mem"
    using assms by (auto simp: write_code_page_def then_io_def bind_io_def write_program_result sys_ignore_def
        sys_def ret_def mem_def split: prod.splits)
  ultimately show ?thesis by metis
qed

lemma page_pos [simp]: "0 < PAGE" "PAGE \<noteq> 0"
  by (simp_all add: PAGE_def)

end
