(* ===== verification/Ledger.thy ===== *)
theory Ledger
  imports Guest_Passes
begin

text \<open>
  \<^verbatim>\<open>ledger/src/lib.rs\<close>: one reading of the task's memory ledger, the page-size assertion
  and the conversions to mebibytes. \<^verbatim>\<open>f64\<close> values are rationals; an integer converted to
  \<^verbatim>\<open>f64\<close> is rounded to 53 significant bits, to nearest, ties to even, and the scaling by
  a power of two is exact.
\<close>

definition TASK_VM_INFO :: u32 where [code_defs]: "TASK_VM_INFO = 22"

record ledger =
  phys_footprint :: u64
  resident :: u64
  reusable :: u64
  compressed :: u64
  regions :: "32 word"

text \<open>\<^verbatim>\<open>size_of::<TaskVmInfo>() / size_of::<u32>()\<close>: eighteen 64-bit and two 32-bit fields.\<close>

definition task_vm_info_words :: u32 where
  "task_vm_info_words = (18 * 8 + 2 * 4) div 4"

definition ledger_read :: "'x kernel \<Rightarrow> ('x, ledger) io" where
  "ledger_read K =
     bind_io (sys K (TaskInfo TASK_VM_INFO task_vm_info_words)) (\<lambda>p.
     then_io (assert_io (rc p = 0) ''task_info(TASK_VM_INFO) failed'')
    (then_io (assert_io (ucast (rv p) = task_vm_info_words) ''task_info copied too few words'')
     (\<lambda>w. let info = k_vm_info K (ext w) in
        (Ok \<lparr>phys_footprint = phys_footprint_bytes info, resident = resident_size info,
             reusable = reusable_bytes info, compressed = compressed_bytes info,
             regions = region_count info\<rparr>, w))))"

definition assert_host_page_size :: "'x kernel \<Rightarrow> ('x, unit) io" where
  "assert_host_page_size K =
     bind_io (sys K Sysconf) (\<lambda>p. assert_io (unat (rv p) = PAGE) ''host page size'')"

section \<open>Conversions for display\<close>

fun f64_exponent :: "nat \<Rightarrow> nat" where
  "f64_exponent a = (if a < 2 ^ 53 then 0 else Suc (f64_exponent (a div 2)))"

declare f64_exponent.simps [simp del]

definition f64_of_int :: "int \<Rightarrow> int" where
  "f64_of_int n =
    (let a = nat \<bar>n\<bar>; e = f64_exponent a; q = a div 2 ^ e; r = a mod 2 ^ e;
         q' = (if 2 * r > 2 ^ e \<or> 2 * r = 2 ^ e \<and> odd q then q + 1 else q)
     in sgn n * int (q' * 2 ^ e))"

definition mib :: "u64 \<Rightarrow> rat" where
  "mib bytes = of_int (f64_of_int (uint bytes)) / (1024 * 1024)"

definition delta_mib :: "u64 \<Rightarrow> u64 \<Rightarrow> rat" where
  "delta_mib after before =
     of_int (f64_of_int (f64_of_int (uint after) - f64_of_int (uint before))) / (1024 * 1024)"

text \<open>A duration in nanoseconds as seconds, and a quotient as it is printed: division by zero does not panic.\<close>

definition as_secs :: "nat \<Rightarrow> rat" where
  "as_secs ns = of_nat ns / 1000000000"

definition f64_quotient :: "rat \<Rightarrow> rat \<Rightarrow> arg" where
  "f64_quotient a b = (if b \<noteq> 0 then ArgF64 (a / b) else if 0 < a then ArgStr ''inf'' else if a < 0 then ArgStr ''-inf'' else ArgStr ''NaN'')"

definition row :: "string \<Rightarrow> ledger \<Rightarrow> ('x, unit) io" where
  "row label l = println ''{label:<34} footprint {:>9.1} MiB   resident {:>9.1} MiB   reusable {:>9.1} MiB   compressed {:>9.1} MiB''
     [ArgStr label, ArgF64 (mib (phys_footprint l)), ArgF64 (mib (resident l)),
      ArgF64 (mib (reusable l)), ArgF64 (mib (compressed l))]"

section \<open>Lemmas\<close>

lemma f64_of_int_exact:
  assumes "\<bar>n\<bar> < 2 ^ 53"
  shows "f64_of_int n = n"
proof -
  have "nat \<bar>n\<bar> < 2 ^ 53" using assms by (simp add: nat_less_iff)
  then have e: "f64_exponent (nat \<bar>n\<bar>) = 0" by (subst f64_exponent.simps) simp
  then show ?thesis unfolding f64_of_int_def Let_def e by (simp add: sgn_mult_abs)
qed

lemma f64_of_int_neg: "f64_of_int (- n) = - f64_of_int n"
  by (simp add: f64_of_int_def Let_def)

lemma f64_of_int_sign: "0 \<le> n \<Longrightarrow> 0 \<le> f64_of_int n"
  unfolding f64_of_int_def Let_def by (intro mult_nonneg_nonneg) (auto simp: sgn_if)

end
