(* ===== verification/Stage2.thy ===== *)
theory Stage2
  imports Guest_Passes
begin

text \<open>
  The reclaim discipline. From the calls a run has made and their responses one reads off
  which guest physical addresses the program has mapped and not unmapped, and which host
  memory is mapped into the process. A run is disciplined when every release of host memory
  (\<^verbatim>\<open>madvise\<close>, \<^verbatim>\<open>munmap\<close>, \<^verbatim>\<open>hv_vm_deallocate\<close>) is of memory no live stage-2
  mapping points into, and every \<^verbatim>\<open>hv_vm_map\<close> is of memory the process owns. The header of
  \<^verbatim>\<open>hv-reclaim/src/main.rs\<close> explains why the first half is the point of the sequence:
  advice given while a range is still stage-2 mapped silently does nothing for pages the
  guest dirtied. The second half is its memory safety.
\<close>

unbundle bit_operations_syntax

type_synonym stage2 = "u64 \<Rightarrow> (nat \<times> u64) option"

definition s2_map :: "nat \<Rightarrow> u64 \<Rightarrow> usize \<Rightarrow> u64 \<Rightarrow> stage2 \<Rightarrow> stage2" where
  "s2_map host gpa len flags s = (\<lambda>a. if a - gpa < len then Some (host + unat (a - gpa), flags) else s a)"

definition s2_unmap :: "u64 \<Rightarrow> usize \<Rightarrow> stage2 \<Rightarrow> stage2" where
  "s2_unmap gpa len s = (\<lambda>a. if a - gpa < len then None else s a)"

fun s2_event :: "call \<times> resp \<Rightarrow> stage2 \<Rightarrow> stage2" where
  "s2_event (HvVmMap host gpa len flags, r) s = (if rc r = 0 then s2_map host gpa len flags s else s)"
| "s2_event (HvVmUnmap gpa len, r) s = (if rc r = 0 then s2_unmap gpa len s else s)"
| "s2_event (HvVmDestroy, r) s = (if rc r = 0 then (\<lambda>_. None) else s)"
| "s2_event e s = s"

text \<open>Host memory: \<^verbatim>\<open>mmap\<close> adds a range, \<^verbatim>\<open>munmap\<close> removes one; \<^verbatim>\<open>MAP_FIXED\<close> succeeds only in place.\<close>

definition MAP_FAILED :: u64 where [code_defs]: "MAP_FAILED = - 1"

definition bytes :: "nat \<Rightarrow> usize \<Rightarrow> nat set" where
  "bytes p len = {p ..< p + unat len}"

definition mmap_ok :: "nat \<Rightarrow> map_flag list \<Rightarrow> resp \<Rightarrow> bool" where
  "mmap_ok p flags r \<longleftrightarrow> (if MAP_FIXED \<in> set flags then unat (rv r) = p else rv r \<noteq> MAP_FAILED)"

fun live_event :: "call \<times> resp \<Rightarrow> nat set \<Rightarrow> nat set" where
  "live_event (Mmap p len flags, r) l = (if mmap_ok p flags r then l \<union> bytes (unat (rv r)) len else l)"
| "live_event (Munmap p len, r) l = (if rc r = 0 then l - bytes p len else l)"
| "live_event (HvVmAllocate len flags, r) l = (if rc r = 0 then l \<union> bytes (unat (rv r)) len else l)"
| "live_event (HvVmDeallocate p len, r) l = (if rc r = 0 then l - bytes p len else l)"
| "live_event e l = l"

text \<open>What a trace says: the stage-2 table and the host memory in use.\<close>

record ghost =
  s2 :: stage2
  live :: "nat set"

definition no_ghost :: ghost where
  "no_ghost = \<lparr>s2 = (\<lambda>_. None), live = {}\<rparr>"

definition g_event :: "call \<times> resp \<Rightarrow> ghost \<Rightarrow> ghost" where
  "g_event e g = g\<lparr>s2 := s2_event e (s2 g), live := live_event e (live g)\<rparr>"

definition ghost_of :: "(call \<times> resp) list \<Rightarrow> ghost" where
  "ghost_of t = fold g_event t no_ghost"

definition clear_of :: "stage2 \<Rightarrow> nat \<Rightarrow> usize \<Rightarrow> bool" where
  "clear_of s p len \<longleftrightarrow> (\<forall>a h flags. s a = Some (h, flags) \<longrightarrow> h \<notin> bytes p len)"

definition alive :: "ghost \<Rightarrow> nat \<Rightarrow> usize \<Rightarrow> bool" where
  "alive g p len \<longleftrightarrow> bytes p len \<subseteq> live g"

fun allowed :: "ghost \<Rightarrow> call \<Rightarrow> bool" where
  "allowed g (Madvise p len adv) = clear_of (s2 g) p len"
| "allowed g (Munmap p len) = clear_of (s2 g) p len"
| "allowed g (HvVmDeallocate p len) = clear_of (s2 g) p len"
| "allowed g (HvVmMap host gpa len flags) = alive g host len"
| "allowed g c = True"

fun disciplined_from :: "ghost \<Rightarrow> (call \<times> resp) list \<Rightarrow> bool" where
  "disciplined_from g [] = True"
| "disciplined_from g (e # es) = (allowed g (fst e) \<and> disciplined_from (g_event e g) es)"

definition disciplined :: "(call \<times> resp) list \<Rightarrow> bool" where
  "disciplined t = disciplined_from no_ghost t"

text \<open>
  The one thing relied on of the kernel: memory that \<^verbatim>\<open>mmap\<close> chooses itself, or that the
  framework allocates, is not memory in use.
\<close>

fun fresh_resp :: "ghost \<Rightarrow> call \<times> resp \<Rightarrow> bool" where
  "fresh_resp g (Mmap p len flags, r) \<longleftrightarrow>
     MAP_FIXED \<in> set flags \<or> rv r = MAP_FAILED \<or> bytes (unat (rv r)) len \<inter> live g = {}"
| "fresh_resp g (HvVmAllocate len flags, r) \<longleftrightarrow> rc r = 0 \<longrightarrow> bytes (unat (rv r)) len \<inter> live g = {}"
| "fresh_resp g e \<longleftrightarrow> True"

fun honest_from :: "ghost \<Rightarrow> (call \<times> resp) list \<Rightarrow> bool" where
  "honest_from g [] = True"
| "honest_from g (e # es) = (fresh_resp g e \<and> honest_from (g_event e g) es)"

definition honest :: "(call \<times> resp) list \<Rightarrow> bool" where
  "honest t = honest_from no_ghost t"

text \<open>A range of guest addresses mapped read-write to a range of host memory, and the only one that is.\<close>

definition mapped_at :: "stage2 \<Rightarrow> u64 \<Rightarrow> usize \<Rightarrow> nat \<Rightarrow> bool" where
  "mapped_at s gpa len host \<longleftrightarrow> (\<forall>a. a - gpa < len \<longrightarrow> s a = Some (host + unat (a - gpa), RW))"

definition owned :: "stage2 \<Rightarrow> u64 \<Rightarrow> usize \<Rightarrow> nat \<Rightarrow> bool" where
  "owned s gpa len host \<longleftrightarrow>
     (\<forall>a h flags. s a = Some (h, flags) \<longrightarrow> host \<le> h \<longrightarrow> h < host + unat len \<longrightarrow> a - gpa < len)"

lemma disciplined_from_append:
  "disciplined_from g (xs @ ys) \<longleftrightarrow> disciplined_from g xs \<and> disciplined_from (fold g_event xs g) ys"
  by (induction xs arbitrary: g) auto

lemma honest_from_append:
  "honest_from g (xs @ ys) \<longleftrightarrow> honest_from g xs \<and> honest_from (fold g_event xs g) ys"
  by (induction xs arbitrary: g) auto

lemma disciplined_snoc: "disciplined (t @ [e]) \<longleftrightarrow> disciplined t \<and> allowed (ghost_of t) (fst e)"
  unfolding disciplined_def disciplined_from_append ghost_of_def by simp

lemma honest_snoc: "honest (t @ [e]) \<longleftrightarrow> honest t \<and> fresh_resp (ghost_of t) e"
  unfolding honest_def honest_from_append ghost_of_def by simp

lemma honest_prefix: "honest (t @ es) \<Longrightarrow> honest t"
  by (simp add: honest_def honest_from_append)

lemma ghost_of_snoc [simp]: "ghost_of (t @ [e]) = g_event e (ghost_of t)"
  by (simp add: ghost_of_def)

lemma g_event_sel [simp]: "s2 (g_event e g) = s2_event e (s2 g)" "live (g_event e g) = live_event e (live g)"
  by (simp_all add: g_event_def)

lemma unmap_clears: "owned s gpa len host \<Longrightarrow> clear_of (s2_unmap gpa len s) host len"
  unfolding owned_def clear_of_def s2_unmap_def bytes_def by (auto split: if_splits)

lemma remap_restores:
  "mapped_at s gpa len host \<Longrightarrow> s2_map host gpa len RW (s2_unmap gpa len s) = s"
  by (auto simp: mapped_at_def s2_map_def s2_unmap_def)

lemma word_diff_less:
  fixes a b x :: u64
  shows "a - (b + x) < y \<Longrightarrow> unat x + unat y < 2 ^ 64 \<Longrightarrow> unat (a - b) = unat x + unat (a - (b + x))"
proof -
  assume h: "a - (b + x) < y" "unat x + unat y < 2 ^ 64"
  have "a - b = x + (a - (b + x))" by simp
  moreover have "unat x + unat (a - (b + x)) < 2 ^ 64" using h by (simp add: word_less_nat_alt)
  ultimately show ?thesis by (simp only: unat_word_ariths) simp
qed

text \<open>A sub-range of an owned and mapped range is owned and mapped.\<close>

lemma mapped_sub:
  assumes "mapped_at s gpa len host" "unat off + unat len2 \<le> unat len" "unat off + unat len2 < 2 ^ 64"
  shows "mapped_at s (gpa + off) len2 (host + unat off)"
  unfolding mapped_at_def
proof (intro allI impI)
  fix a assume a: "a - (gpa + off) < len2"
  have d: "unat (a - gpa) = unat off + unat (a - (gpa + off))" using word_diff_less [OF a assms(3)] .
  then have "a - gpa < len" using a assms(2) by (simp add: word_less_nat_alt)
  then show "s a = Some (host + unat off + unat (a - (gpa + off)), RW)"
    using assms(1) d by (simp add: mapped_at_def)
qed

lemma owned_sub:
  assumes "owned s gpa len host" "mapped_at s gpa len host" "unat off + unat len2 \<le> unat len"
  shows "owned s (gpa + off) len2 (host + unat off)"
  unfolding owned_def
proof (intro allI impI)
  fix a h flags
  assume s: "s a = Some (h, flags)" and h: "host + unat off \<le> h" "h < host + unat off + unat len2"
  then have "host \<le> h" "h < host + unat len" using assms(3) by auto
  then have "a - gpa < len" using assms(1) s unfolding owned_def by blast
  then have "h = host + unat (a - gpa)" using assms(2) s by (simp add: mapped_at_def)
  then have b: "unat off \<le> unat (a - gpa)" "unat (a - gpa) < unat off + unat len2" using h by auto
  have "a - (gpa + off) = a - gpa - off" by simp
  then have "unat (a - (gpa + off)) = unat (a - gpa) - unat off"
    using b(1) by (metis unat_sub word_le_nat_alt)
  then show "a - (gpa + off) < len2" using b by (simp add: word_less_nat_alt)
qed

section \<open>Effects that keep the discipline\<close>

text \<open>
  \<open>safe K g f Q\<close>: started after a disciplined run whose trace says \<open>g\<close>, the run is still
  disciplined however \<open>f\<close> ends, as long as the kernel's answers are honest; and when \<open>f\<close>
  returns, \<open>Q\<close> holds of its result and of what the trace then says.
\<close>

definition world_step :: "'x kernel \<Rightarrow> 'x world \<Rightarrow> 'x world \<Rightarrow> bool" where
  "world_step K w w' \<longleftrightarrow> (\<exists>c. w' = snd (sys K c w)) \<or> ext w' = ext w \<and> trace w' = trace w"

definition uses :: "'x kernel \<Rightarrow> ('x, 'a) io \<Rightarrow> bool" where
  "uses K f \<longleftrightarrow> (\<forall>w. (world_step K)\<^sup>*\<^sup>* w (snd (f w)))"

definition safe :: "'x kernel \<Rightarrow> ghost \<Rightarrow> ('x, 'a) io \<Rightarrow> ('a \<Rightarrow> ghost \<Rightarrow> bool) \<Rightarrow> bool" where
  "safe K g f Q \<longleftrightarrow> (\<forall>w. honest (trace (snd (f w))) \<longrightarrow> disciplined (trace w) \<longrightarrow> ghost_of (trace w) = g \<longrightarrow>
     disciplined (trace (snd (f w))) \<and> (\<forall>a. fst (f w) = Ok a \<longrightarrow> Q a (ghost_of (trace (snd (f w))))))
   \<and> uses K f"

abbreviation keeps_s2 :: "'x kernel \<Rightarrow> ghost \<Rightarrow> ('x, 'a) io \<Rightarrow> bool" where
  "keeps_s2 K g f \<equiv> safe K g f (\<lambda>_ g'. g' = g)"

named_theorems safe_intros \<open>rules for the discipline of an effect\<close>

lemma safeD:
  "safe K g f Q \<Longrightarrow> disciplined (trace w) \<Longrightarrow> ghost_of (trace w) = g \<Longrightarrow> f w = (r, w') \<Longrightarrow> honest (trace w')
    \<Longrightarrow> disciplined (trace w')"
  unfolding safe_def by (metis snd_conv)

lemma safe_OkD:
  "safe K g f Q \<Longrightarrow> disciplined (trace w) \<Longrightarrow> ghost_of (trace w) = g \<Longrightarrow> f w = (Ok a, w') \<Longrightarrow> honest (trace w')
    \<Longrightarrow> Q a (ghost_of (trace w'))"
  unfolding safe_def by (metis fst_conv snd_conv)

lemma safe_uses: "safe K g f Q \<Longrightarrow> uses K f"
  by (simp add: safe_def)

lemma safe_weaken: "safe K g f R \<Longrightarrow> (\<And>a g'. R a g' \<Longrightarrow> Q a g') \<Longrightarrow> safe K g f Q"
  unfolding safe_def by blast

text \<open>Whatever every call and every local effect keeps, an operation keeps.\<close>

lemma uses_keeps:
  assumes "uses K f" "P w" "\<And>w w'. P w \<Longrightarrow> world_step K w w' \<Longrightarrow> P w'"
  shows "P (snd (f w))"
proof -
  have "(world_step K)\<^sup>*\<^sup>* w (snd (f w))" using assms(1) by (simp add: uses_def)
  then show ?thesis by (induction rule: rtranclp_induct) (use assms(2,3) in auto)
qed

lemma world_step_trace: "world_step K w w' \<Longrightarrow> \<exists>es. trace w' = trace w @ es"
  unfolding world_step_def using sys_trace sys_total by (metis append_Nil2 snd_conv)

lemma uses_trace: "uses K f \<Longrightarrow> \<exists>es. trace (snd (f w)) = trace w @ es"
  by (erule uses_keeps [where P = "\<lambda>w'. \<exists>es. trace w' = trace w @ es"]) (auto dest: world_step_trace)

lemma uses_local: "(\<And>w. ext (snd (f w)) = ext w \<and> trace (snd (f w)) = trace w) \<Longrightarrow> uses K f"
  unfolding uses_def world_step_def by auto

lemma uses_bind:
  assumes "uses K f" "\<And>a. uses K (h a)"
  shows "uses K (bind_io f h)"
  unfolding uses_def
proof
  fix w :: "'a world"
  obtain r w1 where f: "f w = (r, w1)" by fastforce
  have 1: "(world_step K)\<^sup>*\<^sup>* w w1" using assms(1) f unfolding uses_def by (metis snd_conv)
  have 2: "(world_step K)\<^sup>*\<^sup>* w1 (snd (h a w1))" for a using assms(2) by (simp add: uses_def)
  show "(world_step K)\<^sup>*\<^sup>* w (snd (bind_io f h w))"
    using 1 rtranclp_trans [OF 1 2] f by (cases r) (simp_all add: bind_io_def)
qed

lemma safe_quiet_effect:
  "(\<And>w. ext (snd (f w)) = ext w \<and> trace (snd (f w)) = trace w) \<Longrightarrow> (\<And>w a. fst (f w) = Ok a \<Longrightarrow> Q a g) \<Longrightarrow> safe K g f Q"
  unfolding safe_def by (intro conjI uses_local) auto

lemma safe_ret [safe_intros]: "Q a g \<Longrightarrow> safe K g (ret a) Q"
  by (rule safe_quiet_effect) (auto simp: ret_def)

lemma safe_throw [safe_intros]: "safe K g (throw p) Q"
  by (rule safe_quiet_effect) (auto simp: throw_def)

lemma safe_out_of_fuel [safe_intros]: "safe K g out_of_fuel Q"
  by (rule safe_quiet_effect) (auto simp: out_of_fuel_def)

text \<open>Every continuation only makes calls and local effects, whether or not it is reached.\<close>

lemma safe_bind:
  assumes "safe K g f R" "\<And>a g'. R a g' \<Longrightarrow> safe K g' (h a) Q" "\<And>a. uses K (h a)"
  shows "safe K g (bind_io f h) Q"
proof -
  have "disciplined (trace (snd (bind_io f h w))) \<and>
      (\<forall>a. fst (bind_io f h w) = Ok a \<longrightarrow> Q a (ghost_of (trace (snd (bind_io f h w)))))"
    if w: "disciplined (trace w)" "ghost_of (trace w) = g" and hon: "honest (trace (snd (bind_io f h w)))" for w
  proof -
    obtain r w1 where f: "f w = (r, w1)" by fastforce
    show ?thesis
    proof (cases r)
      case (Ok a)
      then have eq: "bind_io f h w = h a w1" using f by (simp add: bind_io_def)
      obtain es where "trace (snd (h a w1)) = trace w1 @ es" using uses_trace [OF assms(3)] by blast
      then have h1: "honest (trace w1)" using hon eq honest_prefix by metis
      have "safe K (ghost_of (trace w1)) (h a) Q" using assms(2) safe_OkD [OF assms(1) w] f Ok h1 by blast
      then show ?thesis
        using safeD [OF assms(1) w f h1] hon unfolding eq safe_def by blast
    qed (use f hon safeD [OF assms(1) w f] in \<open>simp_all add: bind_io_def\<close>)
  qed
  then show ?thesis using uses_bind [OF safe_uses [OF assms(1)] assms(3)] by (simp add: safe_def)
qed

text \<open>A step that leaves the mappings alone, followed by the rest.\<close>

lemma safe_bind_keep: "keeps_s2 K g f \<Longrightarrow> (\<And>a. safe K g (h a) Q) \<Longrightarrow> safe K g (bind_io f h) Q"
  by (erule safe_bind) (auto dest: safe_uses)

lemma safe_then_keep: "keeps_s2 K g f \<Longrightarrow> safe K g h Q \<Longrightarrow> safe K g (then_io f h) Q"
  unfolding then_io_def by (rule safe_bind_keep)

lemma safe_then:
  "safe K g f R \<Longrightarrow> (\<And>g'. R () g' \<Longrightarrow> safe K g' h Q) \<Longrightarrow> uses K h \<Longrightarrow> safe K g (then_io f h) Q"
  unfolding then_io_def by (erule safe_bind) simp_all

lemma safe_when [safe_intros]: "(b \<Longrightarrow> safe K g f Q) \<Longrightarrow> (\<not> b \<Longrightarrow> Q () g) \<Longrightarrow> safe K g (when_io b f) Q"
  by (simp add: when_io_def safe_ret)

lemma safe_assert [safe_intros]: "(b \<Longrightarrow> Q () g) \<Longrightarrow> safe K g (assert_io b msg) Q"
  by (simp add: assert_io_def safe_ret safe_throw)

lemma safe_check [safe_intros]: "(r = 0 \<Longrightarrow> Q () g) \<Longrightarrow> safe K g (check r what) Q"
  by (simp add: check_def safe_ret safe_throw)

lemma safe_println [safe_intros]: "Q () g \<Longrightarrow> safe K g (println fmt args) Q"
  by (rule safe_quiet_effect) (auto simp: println_def)

lemma safe_load [safe_intros]: "(\<And>v. Q v g) \<Longrightarrow> safe K g (load64 a) Q"
  by (rule safe_quiet_effect) (auto simp: load64_def)

lemma safe_store [safe_intros]: "Q () g \<Longrightarrow> safe K g (store64 a v) Q"
  by (rule safe_quiet_effect) (auto simp: store64_def)

lemma safe_store32 [safe_intros]: "Q () g \<Longrightarrow> safe K g (store32 a v) Q"
  by (rule safe_quiet_effect) (auto simp: store32_def)

lemma safe_pure: "(\<And>w. ext (snd (f w)) = ext w \<and> trace (snd (f w)) = trace w) \<Longrightarrow> (\<And>a. Q a g) \<Longrightarrow> safe K g f Q"
  by (rule safe_quiet_effect) auto

lemma sys_snoc: "trace (snd (sys K c w)) = trace w @ [(c, r)] \<longleftrightarrow> fst (sys K c w) = Ok r"
  by (auto simp: sys_def split: prod.splits)

lemma uses_sys: "uses K (sys K c)"
  unfolding uses_def world_step_def by (intro allI r_into_rtranclp) blast

lemma safe_sys:
  assumes "allowed g c" and "\<And>r. fresh_resp g (c, r) \<Longrightarrow> Q r (g_event (c, r) g)"
  shows "safe K g (sys K c) Q"
proof -
  have "\<exists>r. fst (sys K c w) = Ok r \<and> trace (snd (sys K c w)) = trace w @ [(c, r)]" for w
    using sys_snoc by (metis sys_total fst_conv)
  then show ?thesis
    using assms uses_sys unfolding safe_def
    by (metis (no_types, lifting) disciplined_snoc fst_conv ghost_of_snoc honest_snoc outcome.inject(1))
qed

lemma safe_check_sys:
  assumes "allowed g c" and "\<And>r. rc r = 0 \<Longrightarrow> Q () (g_event (c, r) g)"
  shows "safe K g (check_sys K c what) Q"
  unfolding check_sys_def
  by (rule safe_bind [OF safe_sys [where Q = "\<lambda>r g'. g' = g_event (c, r) g"]])
    (use assms in \<open>auto intro!: safe_check intro: safe_uses [OF safe_check [where Q = "\<lambda>_ _. True"]]\<close>)

lemma safe_sys_ignore:
  assumes "allowed g c" and "\<And>r. Q () (g_event (c, r) g)"
  shows "safe K g (sys_ignore K c) Q"
  unfolding sys_ignore_def
  by (rule safe_bind [OF safe_sys [where Q = "\<lambda>r g'. g' = g_event (c, r) g"]])
    (use assms in \<open>auto intro!: safe_ret intro: safe_uses [OF safe_ret [where Q = "\<lambda>_ _. True"]]\<close>)

lemma safe_for: "(\<And>i. i \<in> set is \<Longrightarrow> keeps_s2 K g (f i)) \<Longrightarrow> keeps_s2 K g (for_io is f)"
  by (induction "is") (auto intro!: safe_ret safe_then_keep)

lemma safe_fold: "(\<And>i a. i \<in> set is \<Longrightarrow> keeps_s2 K g (f i a)) \<Longrightarrow> keeps_s2 K g (fold_io is f a)"
  by (induction "is" arbitrary: a) (auto intro!: safe_ret safe_bind_keep)

text \<open>Rules for \<open>uses\<close>.\<close>

named_theorems uses_intros \<open>every operation is made of calls and local effects\<close>

lemma uses_ret [uses_intros]: "uses K (ret a)"
  by (rule safe_uses [OF safe_ret [where Q = "\<lambda>_ _. True"]]) simp

lemma uses_throw [uses_intros]: "uses K (throw p)"
  by (rule safe_uses [OF safe_throw])

lemma uses_out_of_fuel [uses_intros]: "uses K out_of_fuel"
  by (rule safe_uses [OF safe_out_of_fuel])

lemmas uses_sys [uses_intros]

lemma uses_effect [uses_intros]:
  "uses K (println fmt args)" "uses K (load64 a)" "uses K (store64 a v)" "uses K (store32 a u)"
  by (rule uses_local; simp add: println_def load64_def store64_def store32_def)+

lemmas uses_bind [uses_intros]

lemma uses_then [uses_intros]: "uses K f \<Longrightarrow> uses K h \<Longrightarrow> uses K (then_io f h)"
  unfolding then_io_def by (rule uses_bind)

lemma uses_checks [uses_intros]:
  "uses K (assert_io b msg)" "uses K (check r what)" "uses K (check_sys K c what)" "uses K (sys_ignore K c)"
  by (auto simp: assert_io_def check_def check_sys_def sys_ignore_def intro!: uses_intros)

lemma uses_when [uses_intros]: "uses K f \<Longrightarrow> uses K (when_io b f)"
  by (simp add: when_io_def uses_ret)

lemma uses_if [uses_intros]: "(b \<Longrightarrow> uses K f) \<Longrightarrow> (\<not> b \<Longrightarrow> uses K h) \<Longrightarrow> uses K (if b then f else h)"
  by simp

lemma uses_for [uses_intros]: "(\<And>i. uses K (f i)) \<Longrightarrow> uses K (for_io is f)"
  by (induction "is") (auto intro!: uses_intros)

lemma uses_fold [uses_intros]: "(\<And>i a. uses K (f i a)) \<Longrightarrow> uses K (fold_io is f a)"
  by (induction "is" arbitrary: a) (auto intro!: uses_intros)

text \<open>Calls that change neither the stage-2 table nor the host memory in use.\<close>

fun quiet :: "call \<Rightarrow> bool" where
  "quiet (Madvise p len adv) = False"
| "quiet (Mmap p len flags) = False"
| "quiet (Munmap p len) = False"
| "quiet (HvVmAllocate len flags) = False"
| "quiet (HvVmDeallocate p len) = False"
| "quiet (HvVmMap host gpa len flags) = False"
| "quiet (HvVmUnmap gpa len) = False"
| "quiet HvVmDestroy = False"
| "quiet c = True"

lemma quiet_event: "quiet c \<Longrightarrow> allowed g c \<and> g_event (c, r) g = g"
  by (cases c) (auto simp: g_event_def)

lemma safe_quiet [safe_intros]: "quiet c \<Longrightarrow> (\<And>r. Q r g) \<Longrightarrow> safe K g (sys K c) Q"
  by (rule safe_sys) (simp_all add: quiet_event)

lemma safe_quiet_check [safe_intros]: "quiet c \<Longrightarrow> Q () g \<Longrightarrow> safe K g (check_sys K c what) Q"
  by (rule safe_check_sys) (simp_all add: quiet_event)

lemma safe_quiet_ignore [safe_intros]: "quiet c \<Longrightarrow> Q () g \<Longrightarrow> safe K g (sys_ignore K c) Q"
  by (rule safe_sys_ignore) (simp_all add: quiet_event)

text \<open>Running the guest never touches the mappings.\<close>

lemma safe_write_reg: "keeps_s2 K s (write_reg K vcpu r v what)"
  unfolding write_reg_def by (intro safe_intros) auto

lemma safe_read_reg: "keeps_s2 K s (read_reg K vcpu r)"
  unfolding read_reg_def by (intro safe_bind_keep safe_then_keep safe_intros) auto

lemma safe_read_exit: "keeps_s2 K s (read_exit K vcpu)"
  by (rule safe_pure) (simp_all add: read_exit_def)

lemma safe_run_to_doorbell: "keeps_s2 K s (run_to_doorbell K vcpu)"
  unfolding run_to_doorbell_def
  by (intro safe_then_keep safe_bind_keep safe_read_exit)
    (auto simp: Let_def intro!: safe_intros safe_then_keep)

lemma safe_pass_loop: "keeps_s2 K s (pass_loop fuel K vcpu)"
proof (induction fuel)
  case (Suc fuel)
  then show ?case
    by (auto intro!: safe_bind_keep safe_run_to_doorbell safe_ret split: guest_exit.splits)
qed (simp add: safe_out_of_fuel)

lemma safe_run_pass: "keeps_s2 K s (run_pass fuel K vcpu entry start_off end_off)"
  unfolding run_pass_def by (intro safe_then_keep safe_write_reg safe_pass_loop)

lemmas safe_guest = safe_run_pass safe_write_reg safe_read_reg

lemma safe_touch: "keeps_s2 K s (run_touch_range fuel K vcpu a b)" "keeps_s2 K s (run_touch_pass fuel K vcpu n)"
    "keeps_s2 K s (run_read_pass fuel K vcpu n)"
  unfolding run_touch_pass_def run_touch_range_def run_read_pass_def by (rule safe_run_pass)+

lemma safe_sweep: "keeps_s2 K s (run_sweep_range fuel K vcpu a b)"
    "keeps_s2 K s (run_fill_range fuel K vcpu a b v)" "keeps_s2 K s (run_verify_range fuel K vcpu a b v)"
  unfolding run_sweep_range_def run_fill_range_def run_verify_range_def
  by (intro safe_then_keep safe_guest)+

lemma safe_write_code_page: "keeps_s2 K s (write_code_page K code)"
  unfolding write_code_page_def write_program_def
  by (intro safe_then_keep safe_for) (auto intro!: safe_intros)

lemmas uses_guest [uses_intros] =
  safe_guest [THEN safe_uses] safe_touch [THEN safe_uses] safe_sweep [THEN safe_uses]
  safe_write_code_page [THEN safe_uses]

end
