(* ===== verification/Canary.thy ===== *)
theory Canary
  imports Ledger Stage2
begin

text \<open>
  \<^verbatim>\<open>ledger/src/canary.rs\<close>: the positive control of every pressure experiment. Arming
  writes a marker into every page of an anonymous mapping and marks it \<^verbatim>\<open>MADV_FREE\<close>; the
  survey counts the pages whose marker no longer reads back.
\<close>

unbundle bit_operations_syntax

text \<open>The strided loops the experiments share: write a marker into, and count over, the pages of a buffer.\<close>

definition mark_pages :: "nat \<Rightarrow> usize \<Rightarrow> (nat \<Rightarrow> u64) \<Rightarrow> ('x, unit) io" where
  "mark_pages base len marker = for_io (step_by 0 (unat len) PAGE) (\<lambda>off. store64 (base + off) (marker off))"

definition count_pages :: "nat \<Rightarrow> usize \<Rightarrow> (nat \<Rightarrow> u64 \<Rightarrow> bool) \<Rightarrow> ('x, usize) io" where
  "count_pages base len bad = fold_io (step_by 0 (unat len) PAGE)
     (\<lambda>off n. bind_io (load64 (base + off)) (\<lambda>v. ret (if bad off v then n + 1 else n))) 0"

definition PATTERN :: u64 where [code_defs]: "PATTERN = 0xC0DED00DFEEDFACE"

record canary =
  canary_ptr :: nat
  canary_size :: usize

record verdict =
  discarded :: usize
  total :: usize

definition conclusive :: "verdict \<Rightarrow> bool" where
  "conclusive v \<longleftrightarrow> discarded v * 2 \<ge> total v"

definition marker :: "nat \<Rightarrow> u64" where
  "marker off = PATTERN XOR of_nat off"

definition arm :: "'x kernel \<Rightarrow> usize \<Rightarrow> ('x, canary) io" where
  "arm K gib =
    (let len = push_bit 30 gib in
     bind_io (sys K (Mmap 0 len [MAP_ANON, MAP_PRIVATE])) (\<lambda>p.
     then_io (assert_io (rv p \<noteq> MAP_FAILED) ''canary mmap failed'')
    (then_io (mark_pages (unat (rv p)) len marker)
    (bind_io (sys K (Madvise (unat (rv p)) len MADV_FREE)) (\<lambda>q.
     then_io (assert_io (rc q = 0) ''canary madvise(MADV_FREE) failed'')
             (ret \<lparr>canary_ptr = unat (rv p), canary_size = len\<rparr>))))))"

definition survey :: "canary \<Rightarrow> ('x, verdict) io" where
  "survey c = bind_io (count_pages (canary_ptr c) (canary_size c) (\<lambda>off v. v \<noteq> PATTERN XOR of_nat off))
     (\<lambda>d. ret \<lparr>discarded = d, total = canary_size c div of_nat PAGE\<rparr>)"

definition drop_canary :: "'x kernel \<Rightarrow> canary \<Rightarrow> ('x, unit) io" where
  "drop_canary K c = sys_ignore K (Munmap (canary_ptr c) (canary_size c))"

section \<open>Lemmas\<close>

lemma fold_io_count:
  "fold_io offs (\<lambda>off n. bind_io (load64 (base + off)) (\<lambda>v. ret (if bad off v then n + 1 else n))) n w =
     (Ok (n + of_nat (length (filter (\<lambda>off. bad off (read64 (wmem w) (base + off))) offs)) :: usize), w)"
  by (induction offs arbitrary: n) (simp_all add: bind_io_def load64_def ret_def)

text \<open>The pages of a buffer and, among them, those that fail a test.\<close>

definition bad_pages :: "mem \<Rightarrow> nat \<Rightarrow> usize \<Rightarrow> (nat \<Rightarrow> u64 \<Rightarrow> bool) \<Rightarrow> nat set" where
  "bad_pages mem base len bad = {off \<in> set (step_by 0 (unat len) PAGE). bad off (read64 mem (base + off))}"

lemma count_pages_result:
  "count_pages base len bad w = (Ok (of_nat (card (bad_pages (wmem w) base len bad))), w)"
proof -
  let ?offs = "step_by 0 (unat len) PAGE"
  have "card (bad_pages (wmem w) base len bad) = length (filter (\<lambda>off. bad off (read64 (wmem w) (base + off))) ?offs)"
    unfolding bad_pages_def using step_by_distinct [of PAGE 0 "unat len"]
    by (metis distinct_card distinct_filter page_pos(1) set_filter)
  then show ?thesis unfolding count_pages_def by (simp only: fold_io_count) simp
qed

lemma page_count: "PAGE dvd unat len \<Longrightarrow> card (set (step_by 0 (unat len) PAGE)) = unat len div PAGE"
proof -
  assume "PAGE dvd unat len"
  then obtain k where k: "unat len = PAGE * k" by blast
  have "(PAGE * k + PAGE - 1) div PAGE = k"
    using div_mult_self4 [of PAGE "PAGE - 1" k] by (simp add: PAGE_def)
  then show ?thesis
    using distinct_card [OF step_by_distinct [of PAGE 0 "unat len"]] k by (simp add: step_by_length)
qed

lemma bad_pages_le: "card (bad_pages mem base len bad) \<le> card (set (step_by 0 (unat len) PAGE))"
  unfolding bad_pages_def by (intro card_mono) auto

lemma mark_pages_result:
  "mark_pages base len mk w =
     (Ok (), w\<lparr>wmem := page_map (\<lambda>off _. mk off) base (step_by 0 (unat len) PAGE) (wmem w)\<rparr>)"
  by (simp add: mark_pages_def for_io_store64 page_map_def)

lemma mark_pages_read:
  "off \<in> set (step_by 0 (unat len) PAGE) \<Longrightarrow>
     read64 (page_map (\<lambda>off _. mk off) base (step_by 0 (unat len) PAGE) mem) (base + off) = mk off"
  by (rule page_map_same) (simp add: spaced_step_by PAGE_def)

lemma sys_mem:
  assumes "snd (snd (k_sys K c (ext w) (wmem w))) = wmem w" "sys K c w = (Ok r, w')"
  shows "wmem w' = wmem w"
  using assms by (cases "k_sys K c (ext w) (wmem w)") (auto simp: sys_def)

text \<open>What an armed canary leaves in memory.\<close>

lemma arm_memory:
  assumes "arm K gib w = (Ok c, w1)" "\<forall>p len x m. snd (snd (k_sys K (Madvise p len MADV_FREE) x m)) = m"
  shows "\<exists>m. wmem w1 = page_map (\<lambda>off _. marker off) (canary_ptr c) (step_by 0 (unat (canary_size c)) PAGE) m"
proof -
  obtain p wa where a: "sys K (Mmap 0 (push_bit 30 gib) [MAP_ANON, MAP_PRIVATE]) w = (Ok p, wa)" using sys_total by blast
  let ?wb = "wa\<lparr>wmem := page_map (\<lambda>off _. marker off) (unat (rv p)) (step_by 0 (unat (push_bit 30 gib :: usize)) PAGE) (wmem wa)\<rparr>"
  obtain q wc where q: "sys K (Madvise (unat (rv p)) (push_bit 30 gib) MADV_FREE) ?wb = (Ok q, wc)" using sys_total by blast
  have "wmem wc = wmem ?wb" using sys_mem [OF _ q] assms(2) by blast
  then show ?thesis
    using assms(1) a q
    by (auto simp: arm_def Let_def bind_io_def then_io_def assert_io_def mark_pages_result ret_def throw_def split: if_splits)
qed

text \<open>A page offset is never the pattern, so a marker is never zero.\<close>

lemma page_offset_mod: "off \<in> set (step_by 0 n PAGE) \<Longrightarrow> off mod PAGE = 0"
  by (simp add: set_step_by)

lemma marker_nonzero:
  assumes "off \<in> set (step_by 0 (unat (len :: usize)) PAGE)"
  shows "marker off \<noteq> 0"
proof
  assume "marker off = 0"
  then have "of_nat off = PATTERN" unfolding marker_def by (metis bit.xor_left_self xor.right_neutral)
  moreover have "off < 2 ^ 64"
    using assms unat_lt64 [of len] by (simp add: set_step_by)
  ultimately have "off = unat PATTERN" using unat_of_nat64 by metis
  then have "off mod PAGE = 15054" by (simp add: PATTERN_def PAGE_def)
  then show False using page_offset_mod [OF assms] by simp
qed

lemma safe_mark_pages [safe_intros]: "keeps_s2 K s (mark_pages base len mk)"
  unfolding mark_pages_def by (intro safe_for safe_store) simp

lemma safe_count_pages [safe_intros]: "keeps_s2 K s (count_pages base len bad)"
  by (rule safe_pure) (simp_all add: count_pages_result)

lemma safe_survey [safe_intros]: "keeps_s2 K s (survey c)"
  unfolding survey_def by (intro safe_bind_keep safe_intros) auto

lemma safe_mmap:
  assumes "MAP_FIXED \<notin> set flags"
  shows "safe K g (sys K (Mmap 0 len flags)) (\<lambda>p g'. rv p = MAP_FAILED \<and> g' = g \<or>
     rv p \<noteq> MAP_FAILED \<and> bytes (unat (rv p)) len \<inter> live g = {} \<and> g' = g\<lparr>live := live g \<union> bytes (unat (rv p)) len\<rparr>)"
  by (rule safe_sys) (use assms in \<open>auto simp: g_event_def mmap_ok_def\<close>)

text \<open>All memory the guest can reach is memory in use.\<close>

definition backed :: "ghost \<Rightarrow> bool" where
  "backed g \<longleftrightarrow> (\<forall>a h flags. s2 g a = Some (h, flags) \<longrightarrow> h \<in> live g)"

lemma backed_clear: "backed g \<Longrightarrow> bytes p len \<inter> live g = {} \<Longrightarrow> clear_of (s2 g) p len"
  by (auto simp: backed_def clear_of_def)

text \<open>The canary's memory is fresh, so its advice and its unmapping are disciplined whatever is mapped.\<close>

lemma safe_arm:
  assumes "backed g"
  shows "safe K g (arm K gib) (\<lambda>c g'. s2 g' = s2 g \<and> live g \<subseteq> live g' \<and> bytes (canary_ptr c) (canary_size c) \<inter> live g = {})"
    (is "safe K g _ ?Q")
proof -
  let ?len = "push_bit 30 gib :: usize"
  have rest: "safe K g' (then_io (assert_io (rv p \<noteq> MAP_FAILED) a) (then_io (mark_pages (unat (rv p)) ?len marker)
      (bind_io (sys K (Madvise (unat (rv p)) ?len MADV_FREE)) (\<lambda>q. then_io (assert_io (rc q = 0) b)
       (ret \<lparr>canary_ptr = unat (rv p), canary_size = ?len\<rparr>))))) ?Q"
    if "rv p = MAP_FAILED \<and> g' = g \<or> rv p \<noteq> MAP_FAILED \<and> bytes (unat (rv p)) ?len \<inter> live g = {}
      \<and> g' = g\<lparr>live := live g \<union> bytes (unat (rv p)) ?len\<rparr>" for p g' a b
  proof (cases "rv p = MAP_FAILED")
    case True
    then show ?thesis
      by (intro safe_then [OF safe_assert [where Q = "\<lambda>_ _. False"]]) (auto intro!: uses_intros simp: mark_pages_def)
  next
    case False
    then have g': "bytes (unat (rv p)) ?len \<inter> live g = {}" "g' = g\<lparr>live := live g \<union> bytes (unat (rv p)) ?len\<rparr>"
      using that by auto
    have "keeps_s2 K g' (sys K (Madvise (unat (rv p)) ?len MADV_FREE))"
      by (rule safe_sys) (use backed_clear [OF assms g'(1)] g'(2) in \<open>auto simp: g_event_def\<close>)
    then show ?thesis
      using g' by (auto intro!: safe_then_keep safe_bind_keep safe_intros)
  qed
  show ?thesis
    unfolding arm_def Let_def
    by (rule safe_bind [OF safe_mmap rest]) (auto intro!: uses_intros simp: mark_pages_def)
qed

lemma uses_arm [uses_intros]: "uses K (arm K gib)"
  unfolding arm_def Let_def mark_pages_def by (intro uses_intros)

lemma safe_drop_canary:
  "clear_of (s2 g) (canary_ptr c) (canary_size c) \<Longrightarrow>
     safe K g (drop_canary K c) (\<lambda>_ g'. s2 g' = s2 g \<and> live g - bytes (canary_ptr c) (canary_size c) \<subseteq> live g')"
  unfolding drop_canary_def by (rule safe_sys_ignore) auto

lemmas uses_canary [uses_intros] =
  safe_mark_pages [THEN safe_uses] safe_count_pages [THEN safe_uses] safe_survey [THEN safe_uses]

lemma uses_drop_canary [uses_intros]: "uses K (drop_canary K c)"
  unfolding drop_canary_def by (intro uses_intros)

end
