(* ===== verification/Pressure.thy ===== *)
theory Pressure
  imports Canary Text
begin

text \<open>
  \<^verbatim>\<open>ledger/src/pressure.rs\<close>: the pressure generator a child process runs, and the
  parent's side, which spawns it and waits for its first line. The environment variable that
  turns a process into the generator is an argument of the model. The line the child has
  written is what the kernel parameter reports after a read.
\<close>

definition GEN_CHUNK :: usize where "GEN_CHUNK = push_bit 30 1"

text \<open>The loop \<^verbatim>\<open>for i in 0..gb\<close> with its break; \<open>held\<close> grows by one chunk a round.\<close>

primrec dirty_chunks :: "nat \<Rightarrow> 'x kernel \<Rightarrow> nat list \<Rightarrow> ('x, nat list) io" where
  "dirty_chunks 0 K held = ret held"
| "dirty_chunks (Suc n) K held =
     bind_io (sys K (Mmap 0 GEN_CHUNK [MAP_ANON, MAP_PRIVATE])) (\<lambda>p.
     if rv p = MAP_FAILED then ret held
     else then_io (mark_pages (unat (rv p)) GEN_CHUNK (\<lambda>off. 0xDEAD0000 + of_nat off))
                  (dirty_chunks n K (held @ [unat (rv p)])))"

text \<open>
  \<^verbatim>\<open>maybe_run_generator\<close> up to the point where it sleeps for ever: \<open>None\<close> when the
  process is not a generator, otherwise the chunks it holds.
\<close>

definition maybe_run_generator :: "'x kernel \<Rightarrow> string option \<Rightarrow> ('x, nat list option) io" where
  "maybe_run_generator K env = (case env of
       None \<Rightarrow> ret None
     | Some gb \<Rightarrow> (case parse_u64 gb of
         None \<Rightarrow> throw (Expect ''pressure GiB'')
       | Some n \<Rightarrow> bind_io (dirty_chunks (unat n) K []) (\<lambda>held.
           then_io (println ''HOLDING'' []) (ret (Some held)))))"

type_synonym guard = u64

definition drop_guard :: "'x kernel \<Rightarrow> guard \<Rightarrow> ('x, unit) io" where
  "drop_guard K pid = then_io (sys_ignore K (Kill pid)) (sys_ignore K (WaitChild pid))"

definition next_line :: "'x kernel \<Rightarrow> u64 \<Rightarrow> ('x, (string + unit) option) io" where
  "next_line K pid = bind_io (sys K (ReadLine pid)) (\<lambda>_ w. (Ok (k_line K (ext w)), w))"

definition apply_pressure :: "'x kernel \<Rightarrow> usize \<Rightarrow> ('x, string + guard) io" where
  "apply_pressure K gb =
     bind_io (sys K CurrentExe) (\<lambda>e.
     if rc e \<noteq> 0 then ret (Inl ''current_exe'')
     else bind_io (sys K (SpawnGenerator gb)) (\<lambda>c.
       if rc c \<noteq> 0 then ret (Inl ''spawn'')
       else bind_io (next_line K (rv c)) (\<lambda>l.
         if l = Some (Inl ''HOLDING'') then ret (Inr (rv c))
         else then_io (sys_ignore K (Kill (rv c)))
             (then_io (sys_ignore K (WaitChild (rv c)))
                      (ret (Inl ''pressure child did not reach HOLDING''))))))"

section \<open>Lemmas\<close>

text \<open>The generator processes a run has started and not yet reaped.\<close>

fun child_event :: "call \<times> resp \<Rightarrow> u64 list \<Rightarrow> u64 list" where
  "child_event (SpawnGenerator gb, r) ps = (if rc r = 0 then rv r # ps else ps)"
| "child_event (WaitChild pid, r) ps = remove1 pid ps"
| "child_event e ps = ps"

definition live_children :: "(call \<times> resp) list \<Rightarrow> u64 list" where
  "live_children t = fold child_event t []"

lemma live_children_append [simp]: "live_children (t @ es) = fold child_event es (live_children t)"
  by (simp add: live_children_def)

lemma sys_ignore_trace: "\<exists>r w'. sys_ignore K c w = (Ok (), w') \<and> trace w' = trace w @ [(c, r)]"
  using sys_total [of K c w] sys_trace [of K c w] by (auto simp: sys_ignore_def bind_io_def ret_def)

text \<open>
  A wait for a process that sleeps for ever does not return unless the process is killed: every
  wait comes right after the kill of the same process.
\<close>

definition killed_first :: "(call \<times> resp) list \<Rightarrow> bool" where
  "killed_first es = list_all (\<lambda>i. case fst (es ! i) of WaitChild pid \<Rightarrow> 0 < i \<and> fst (es ! (i - 1)) = Kill pid | _ \<Rightarrow> True) [0..<length es]"

lemma drop_guard_trace: "\<exists>p q w'. drop_guard K pid w = (Ok (), w') \<and> trace w' = trace w @ [(Kill pid, p), (WaitChild pid, q)]"
proof -
  obtain p w1 where 1: "sys_ignore K (Kill pid) w = (Ok (), w1)" "trace w1 = trace w @ [(Kill pid, p)]" using sys_ignore_trace by blast
  obtain q w2 where 2: "sys_ignore K (WaitChild pid) w1 = (Ok (), w2)" "trace w2 = trace w1 @ [(WaitChild pid, q)]" using sys_ignore_trace by blast
  show ?thesis using 1 2 by (simp add: drop_guard_def then_io_def bind_io_def)
qed

lemma drop_guard_reaps:
  "\<exists>w'. drop_guard K pid w = (Ok (), w') \<and> live_children (trace w') = remove1 pid (live_children (trace w))"
  using drop_guard_trace [of K pid w] by auto

lemma apply_pressure_result:
  "\<exists>r w' es. apply_pressure K gb w = (Ok r, w') \<and> trace w' = trace w @ es \<and> killed_first es
   \<and> (case r of Inl _ \<Rightarrow> live_children (trace w') = live_children (trace w)
      | Inr pid \<Rightarrow> live_children (trace w') = pid # live_children (trace w) \<and> k_line K (ext w') = Some (Inl ''HOLDING'')
         \<and> (\<exists>c. (SpawnGenerator gb, c) \<in> set es \<and> rc c = 0 \<and> rv c = pid))"
proof -
  obtain e w1 where 1: "sys K CurrentExe w = (Ok e, w1)" using sys_total by blast
  obtain c w2 where 2: "sys K (SpawnGenerator gb) w1 = (Ok c, w2)" using sys_total by blast
  obtain l w3 where 3: "sys K (ReadLine (rv c)) w2 = (Ok l, w3)" using sys_total by blast
  obtain k w4 where 4: "sys_ignore K (Kill (rv c)) w3 = (Ok (), w4)" "trace w4 = trace w3 @ [(Kill (rv c), k)]"
    using sys_ignore_trace by blast
  obtain q w5 where 5: "sys_ignore K (WaitChild (rv c)) w4 = (Ok (), w5)" "trace w5 = trace w4 @ [(WaitChild (rv c), q)]"
    using sys_ignore_trace by blast
  note t = sys_trace [OF 1] sys_trace [OF 2] sys_trace [OF 3] 4(2) 5(2)
  show ?thesis
  proof (cases "rc e \<noteq> 0 \<or> rc c \<noteq> 0")
    case True
    then show ?thesis using 1 2 t by (auto simp: apply_pressure_def bind_io_def ret_def killed_first_def)
  next
    case False
    then show ?thesis using 1 2 3 4(1) 5(1) t
      by (cases "k_line K (ext w3) = Some (Inl ''HOLDING'')")
        (simp_all add: apply_pressure_def next_line_def bind_io_def then_io_def ret_def killed_first_def)
  qed
qed

lemma dirty_chunks_result:
  "\<exists>held' w'. dirty_chunks n K held w = (Ok (held @ held'), w') \<and> length held' \<le> n \<and> stdout w' = stdout w"
proof (induction n arbitrary: held w)
  case (Suc n)
  obtain p w1 where p: "sys K (Mmap 0 GEN_CHUNK [MAP_ANON, MAP_PRIVATE]) w = (Ok p, w1)" using sys_total by blast
  then have so: "stdout w1 = stdout w" by (auto simp: sys_def split: prod.splits)
  show ?case
  proof (cases "rv p = MAP_FAILED")
    case True
    then show ?thesis using p so
      by (intro exI [of _ "[]"] exI [of _ w1]) (simp add: bind_io_def ret_def)
  next
    case False
    let ?w2 = "w1\<lparr>wmem := page_map (\<lambda>off _. 0xDEAD0000 + of_nat off) (unat (rv p)) (step_by 0 (unat GEN_CHUNK) PAGE) (wmem w1)\<rparr>"
    obtain held' w' where "dirty_chunks n K (held @ [unat (rv p)]) ?w2 = (Ok ((held @ [unat (rv p)]) @ held'), w')"
      "length held' \<le> n" "stdout w' = stdout ?w2" using Suc by blast
    then show ?thesis using p so False
      by (intro exI [of _ "unat (rv p) # held'"] exI [of _ w'])
        (simp add: bind_io_def then_io_def mark_pages_result)
  qed
qed (simp add: ret_def)

lemma safe_drop_guard [safe_intros]: "keeps_s2 K s (drop_guard K pid)"
  unfolding drop_guard_def by (intro safe_then_keep safe_intros) auto

lemma safe_next_line [safe_intros]: "keeps_s2 K s (next_line K pid)"
  unfolding next_line_def by (intro safe_bind_keep safe_intros safe_pure) auto

lemma safe_apply_pressure [safe_intros]: "keeps_s2 K s (apply_pressure K gb)"
  unfolding apply_pressure_def
  by (auto intro!: safe_bind_keep safe_then_keep safe_intros)

lemmas uses_pressure [uses_intros] =
  safe_drop_guard [THEN safe_uses] safe_next_line [THEN safe_uses] safe_apply_pressure [THEN safe_uses]

end
