(* ===== verification/Options.thy ===== *)
theory Options
  imports Host Text
begin

text \<open>
  \<^verbatim>\<open>hv-reclaim/src/main.rs\<close>, the command line: \<^verbatim>\<open>ReclaimMode\<close>, \<^verbatim>\<open>Options\<close> and
  \<^verbatim>\<open>parse_args\<close>. An argument vector is the list of strings after the program name; a
  rejected one is a panic.
\<close>

datatype reclaim_mode = Reusable | MunmapMode

definition reclaim_mode_name :: "reclaim_mode \<Rightarrow> string" where
  "reclaim_mode_name m = (case m of Reusable \<Rightarrow> ''reusable'' | MunmapMode \<Rightarrow> ''munmap'')"

record options =
  advice :: madvice
  advice_name :: string
  size_gb :: usize
  naive :: bool
  host_touch :: bool
  guest_read :: bool
  pressure_check :: bool
  hammer :: bool
  pressure_gb :: usize
  repeat :: usize
  time_reclaim :: bool
  extent_kb :: usize
  reclaim_mode :: reclaim_mode
  steady_state :: bool
  fleet_sim :: bool
  services :: usize
  service_mib :: usize
  alloc_shape :: bool
  soak :: bool
  soak_minutes :: u64
  vcpus :: usize

definition default_options :: options where
  "default_options = \<lparr>advice = MADV_FREE_REUSABLE, advice_name = ''MADV_FREE_REUSABLE'', size_gb = 3,
     naive = False, host_touch = False, guest_read = False, pressure_check = False, hammer = False,
     pressure_gb = 48, repeat = 1, time_reclaim = False, extent_kb = 0, reclaim_mode = Reusable,
     steady_state = False, fleet_sim = False, services = 8, service_mib = 256, alloc_shape = False,
     soak = False, soak_minutes = 60, vcpus = 4\<rparr>"

text \<open>\<^verbatim>\<open>args.next().expect(missing).parse().expect(bad)\<close>\<close>

definition number_arg :: "string \<Rightarrow> string \<Rightarrow> string list \<Rightarrow> (u64 \<Rightarrow> options outcome) \<Rightarrow> (options \<times> string list) outcome" where
  "number_arg missing bad rest put = (case rest of
       [] \<Rightarrow> Panic (Expect missing)
     | v # rest' \<Rightarrow> (case parse_u64 v of
           None \<Rightarrow> Panic (Expect bad)
         | Some n \<Rightarrow> (case put n of Ok opts \<Rightarrow> Ok (opts, rest') | Panic p \<Rightarrow> Panic p | OutOfFuel \<Rightarrow> OutOfFuel)))"

definition advice_arg :: "string list \<Rightarrow> (madvice \<times> string) outcome" where
  "advice_arg rest =
    (if take 1 rest = [''reusable''] then Ok (MADV_FREE_REUSABLE, ''MADV_FREE_REUSABLE'')
     else if take 1 rest = [''free''] then Ok (MADV_FREE, ''MADV_FREE'')
     else if take 1 rest = [''dontneed''] then Ok (MADV_DONTNEED, ''MADV_DONTNEED'')
     else Panic (Explicit ''unknown advice''))"

definition mode_arg :: "string list \<Rightarrow> reclaim_mode outcome" where
  "mode_arg rest =
    (if take 1 rest = [''reusable''] then Ok Reusable
     else if take 1 rest = [''munmap''] then Ok MunmapMode
     else Panic (Explicit ''unknown reclaim mode''))"

text \<open>The body of the \<^verbatim>\<open>while let Some(arg) = args.next()\<close> loop: one argument and what it consumes.\<close>

definition parse_arg :: "string \<Rightarrow> options \<Rightarrow> string list \<Rightarrow> (options \<times> string list) outcome" where
  "parse_arg arg opts rest =
    (if arg = ''--advice'' then
       (case advice_arg rest of Ok (a, n) \<Rightarrow> Ok (opts\<lparr>advice := a, advice_name := n\<rparr>, drop 1 rest)
        | Panic p \<Rightarrow> Panic p | OutOfFuel \<Rightarrow> OutOfFuel)
     else if arg = ''--size-gb'' then
       number_arg ''--size-gb N'' ''integer GiB'' rest (\<lambda>n. Ok (opts\<lparr>size_gb := n\<rparr>))
     else if arg = ''--naive'' then Ok (opts\<lparr>naive := True\<rparr>, rest)
     else if arg = ''--host-touch'' then Ok (opts\<lparr>host_touch := True\<rparr>, rest)
     else if arg = ''--guest-read'' then Ok (opts\<lparr>guest_read := True\<rparr>, rest)
     else if arg = ''--pressure-check'' then Ok (opts\<lparr>pressure_check := True\<rparr>, rest)
     else if arg = ''--hammer'' then Ok (opts\<lparr>hammer := True\<rparr>, rest)
     else if arg = ''--pressure-gb'' then
       number_arg ''--pressure-gb N'' ''integer GiB'' rest (\<lambda>n. Ok (opts\<lparr>pressure_gb := n\<rparr>))
     else if arg = ''--repeat'' then
       number_arg ''--repeat N'' ''integer'' rest
         (\<lambda>n. if n \<ge> 1 then Ok (opts\<lparr>repeat := n\<rparr>) else Panic (AssertFailed ''--repeat must be >= 1''))
     else if arg = ''--time-reclaim'' then Ok (opts\<lparr>time_reclaim := True\<rparr>, rest)
     else if arg = ''--extent-kb'' then
       number_arg ''--extent-kb N'' ''integer KiB'' rest (\<lambda>n. Ok (opts\<lparr>extent_kb := n\<rparr>))
     else if arg = ''--reclaim-mode'' then
       (case mode_arg rest of Ok m \<Rightarrow> Ok (opts\<lparr>reclaim_mode := m\<rparr>, drop 1 rest)
        | Panic p \<Rightarrow> Panic p | OutOfFuel \<Rightarrow> OutOfFuel)
     else if arg = ''--steady-state'' then Ok (opts\<lparr>steady_state := True\<rparr>, rest)
     else if arg = ''--fleet-sim'' then Ok (opts\<lparr>fleet_sim := True\<rparr>, rest)
     else if arg = ''--alloc-shape'' then Ok (opts\<lparr>alloc_shape := True\<rparr>, rest)
     else if arg = ''--soak'' then Ok (opts\<lparr>soak := True\<rparr>, rest)
     else if arg = ''--soak-minutes'' then
       number_arg ''--soak-minutes N'' ''integer minutes'' rest (\<lambda>n. Ok (opts\<lparr>soak_minutes := n\<rparr>))
     else if arg = ''--vcpus'' then
       number_arg ''--vcpus N'' ''integer'' rest
         (\<lambda>n. if n \<ge> 1 then Ok (opts\<lparr>vcpus := n\<rparr>) else Panic (AssertFailed ''--vcpus must be >= 1''))
     else if arg = ''--services'' then
       number_arg ''--services N'' ''integer count'' rest (\<lambda>n. Ok (opts\<lparr>services := n\<rparr>))
     else if arg = ''--service-mib'' then
       number_arg ''--service-mib N'' ''integer MiB'' rest (\<lambda>n. Ok (opts\<lparr>service_mib := n\<rparr>))
     else Panic (Explicit ''unknown argument''))"

lemma number_arg_shrinks: "number_arg a b rest put = Ok (opts, rest') \<Longrightarrow> length rest' \<le> length rest"
  by (auto simp: number_arg_def split: list.splits option.splits outcome.splits)

lemma parse_arg_shrinks: "parse_arg arg opts rest = Ok (opts', rest') \<Longrightarrow> length rest' \<le> length rest"
  unfolding parse_arg_def
  by (auto split: if_splits outcome.splits prod.splits dest: number_arg_shrinks)

function parse_loop :: "options \<Rightarrow> string list \<Rightarrow> options outcome" where
  "parse_loop opts [] = Ok opts"
| "parse_loop opts (arg # rest) = (case parse_arg arg opts rest of
       Ok (opts', rest') \<Rightarrow> parse_loop opts' rest'
     | Panic p \<Rightarrow> Panic p
     | OutOfFuel \<Rightarrow> OutOfFuel)"
  by pat_completeness auto
termination
  by (relation "measure (\<lambda>(opts, args). length args)") (auto dest: parse_arg_shrinks)

definition count_modes :: "options \<Rightarrow> nat" where
  "count_modes opts = of_bool (time_reclaim opts) + of_bool (fleet_sim opts) + of_bool (soak opts)
     + of_bool (alloc_shape opts)"

text \<open>The assertions after the loop.\<close>

definition validate :: "options \<Rightarrow> options outcome" where
  "validate opts =
    (if hammer opts \<and> \<not> (\<not> host_touch opts \<and> \<not> naive opts \<and> \<not> pressure_check opts)
     then Panic (AssertFailed ''--hammer probes the post-reclaim guest state'')
     else if repeat opts > 1 \<and> \<not> (\<not> pressure_check opts \<and> \<not> hammer opts)
     then Panic (AssertFailed ''--repeat measures the plain reclaim cycle'')
     else if count_modes opts > 0 then
       (if count_modes opts \<noteq> 1
        then Panic (AssertFailed ''--time-reclaim, --fleet-sim, --soak and --alloc-shape are separate modes'')
        else if \<not> (\<not> naive opts \<and> \<not> host_touch opts \<and> \<not> pressure_check opts \<and> \<not> hammer opts)
        then Panic (AssertFailed ''--time-reclaim/--fleet-sim/--soak/--alloc-shape drive their own sequences'')
        else Ok opts)
     else if \<not> (extent_kb opts = 0 \<and> \<not> steady_state opts \<and> reclaim_mode opts = Reusable)
     then Panic (AssertFailed ''--extent-kb, --steady-state and --reclaim-mode only apply to --time-reclaim and --soak'')
     else Ok opts)"

definition parse_args :: "string list \<Rightarrow> options outcome" where
  "parse_args args = (case parse_loop default_options args of
       Ok opts \<Rightarrow> validate opts
     | Panic p \<Rightarrow> Panic p
     | OutOfFuel \<Rightarrow> OutOfFuel)"

section \<open>Which options a run can have\<close>

definition advice_matches :: "options \<Rightarrow> bool" where
  "advice_matches opts \<longleftrightarrow> (advice opts, advice_name opts) \<in>
     {(MADV_FREE_REUSABLE, ''MADV_FREE_REUSABLE''), (MADV_FREE, ''MADV_FREE''), (MADV_DONTNEED, ''MADV_DONTNEED'')}"

definition valid_options :: "options \<Rightarrow> bool" where
  "valid_options opts \<longleftrightarrow>
     advice_matches opts \<and> 1 \<le> repeat opts \<and> 1 \<le> vcpus opts
     \<and> (hammer opts \<longrightarrow> \<not> host_touch opts \<and> \<not> naive opts \<and> \<not> pressure_check opts)
     \<and> (1 < repeat opts \<longrightarrow> \<not> pressure_check opts \<and> \<not> hammer opts)
     \<and> count_modes opts \<le> 1
     \<and> (count_modes opts = 1 \<longrightarrow> \<not> naive opts \<and> \<not> host_touch opts \<and> \<not> pressure_check opts \<and> \<not> hammer opts)
     \<and> (count_modes opts = 0 \<longrightarrow> extent_kb opts = 0 \<and> \<not> steady_state opts \<and> reclaim_mode opts = Reusable)"

definition ranges_ok :: "options \<Rightarrow> bool" where
  "ranges_ok opts \<longleftrightarrow> advice_matches opts \<and> 1 \<le> repeat opts \<and> 1 \<le> vcpus opts"

lemma number_arg_OkE:
  assumes "number_arg a b rest put = Ok (opts, rest')"
  obtains n where "put n = Ok opts"
  using assms by (auto simp: number_arg_def split: list.splits option.splits outcome.splits)

lemma if_OkE: "(if b then x else y) = Ok z \<Longrightarrow> (x = Ok z \<Longrightarrow> R) \<Longrightarrow> (y = Ok z \<Longrightarrow> R) \<Longrightarrow> R"
  by (simp split: if_splits)

lemma parse_arg_ranges:
  assumes "parse_arg arg opts rest = Ok (opts', rest')" "ranges_ok opts"
  shows "ranges_ok opts'"
  using assms(1) unfolding parse_arg_def
  by (elim if_OkE; use assms(2) in \<open>auto simp: ranges_ok_def advice_matches_def advice_arg_def mode_arg_def
    split: if_splits outcome.splits elim!: number_arg_OkE\<close>)

lemma parse_loop_ranges: "parse_loop opts args = Ok opts' \<Longrightarrow> ranges_ok opts \<Longrightarrow> ranges_ok opts'"
  by (induction opts args rule: parse_loop.induct)
    (auto split: outcome.splits prod.splits dest: parse_arg_ranges)

lemma validate_Ok_iff:
  "validate opts = Ok opts' \<longleftrightarrow> opts' = opts \<and> (ranges_ok opts \<longrightarrow> valid_options opts)
     \<and> (hammer opts \<longrightarrow> \<not> host_touch opts \<and> \<not> naive opts \<and> \<not> pressure_check opts)
     \<and> (1 < repeat opts \<longrightarrow> \<not> pressure_check opts \<and> \<not> hammer opts)
     \<and> count_modes opts \<le> 1
     \<and> (count_modes opts = 1 \<longrightarrow> \<not> naive opts \<and> \<not> host_touch opts \<and> \<not> pressure_check opts \<and> \<not> hammer opts)
     \<and> (count_modes opts = 0 \<longrightarrow> extent_kb opts = 0 \<and> \<not> steady_state opts \<and> reclaim_mode opts = Reusable)"
  unfolding validate_def ranges_ok_def valid_options_def by (cases "count_modes opts") auto

lemma parse_args_valid: "parse_args args = Ok opts \<Longrightarrow> valid_options opts"
proof -
  assume p: "parse_args args = Ok opts"
  then obtain o1 where o1: "parse_loop default_options args = Ok o1" "validate o1 = Ok opts"
    by (auto simp: parse_args_def split: outcome.splits)
  have "ranges_ok default_options"
    by (simp add: ranges_ok_def advice_matches_def default_options_def)
  then have "ranges_ok o1" using parse_loop_ranges o1(1) by blast
  then show ?thesis using o1(2) by (simp add: validate_Ok_iff)
qed

section \<open>What a command line says\<close>

text \<open>
  A command line is a sequence of groups: a flag by itself, or an option with its value. A number is
  any text that reads as one.
\<close>

datatype setting =
    Advice madvice | SizeGb u64 | Naive | HostTouch | GuestRead | PressureCheck | Hammer | PressureGb u64 | Repeat u64
  | TimeReclaim | ExtentKb u64 | Mode reclaim_mode | SteadyState | FleetSim | AllocShape | Soak | SoakMinutes u64 | Vcpus u64
  | Services u64 | ServiceMib u64

inductive arg_group :: "setting \<Rightarrow> string list \<Rightarrow> bool" where
  "arg_group (Advice MADV_FREE_REUSABLE) [''--advice'', ''reusable'']"
| "arg_group (Advice MADV_FREE) [''--advice'', ''free'']"
| "arg_group (Advice MADV_DONTNEED) [''--advice'', ''dontneed'']"
| "parse_u64 v = Some n \<Longrightarrow> arg_group (SizeGb n) [''--size-gb'', v]"
| "arg_group Naive [''--naive'']"
| "arg_group HostTouch [''--host-touch'']"
| "arg_group GuestRead [''--guest-read'']"
| "arg_group PressureCheck [''--pressure-check'']"
| "arg_group Hammer [''--hammer'']"
| "parse_u64 v = Some n \<Longrightarrow> arg_group (PressureGb n) [''--pressure-gb'', v]"
| "parse_u64 v = Some n \<Longrightarrow> 1 \<le> n \<Longrightarrow> arg_group (Repeat n) [''--repeat'', v]"
| "arg_group TimeReclaim [''--time-reclaim'']"
| "parse_u64 v = Some n \<Longrightarrow> arg_group (ExtentKb n) [''--extent-kb'', v]"
| "arg_group (Mode Reusable) [''--reclaim-mode'', ''reusable'']"
| "arg_group (Mode MunmapMode) [''--reclaim-mode'', ''munmap'']"
| "arg_group SteadyState [''--steady-state'']"
| "arg_group FleetSim [''--fleet-sim'']"
| "arg_group AllocShape [''--alloc-shape'']"
| "arg_group Soak [''--soak'']"
| "parse_u64 v = Some n \<Longrightarrow> arg_group (SoakMinutes n) [''--soak-minutes'', v]"
| "parse_u64 v = Some n \<Longrightarrow> 1 \<le> n \<Longrightarrow> arg_group (Vcpus n) [''--vcpus'', v]"
| "parse_u64 v = Some n \<Longrightarrow> arg_group (Services n) [''--services'', v]"
| "parse_u64 v = Some n \<Longrightarrow> arg_group (ServiceMib n) [''--service-mib'', v]"

definition advice_label :: "madvice \<Rightarrow> string" where
  "advice_label a = (case a of MADV_FREE_REUSABLE \<Rightarrow> ''MADV_FREE_REUSABLE'' | MADV_FREE \<Rightarrow> ''MADV_FREE'' | MADV_DONTNEED \<Rightarrow> ''MADV_DONTNEED'')"

primrec put_setting :: "setting \<Rightarrow> options \<Rightarrow> options" where
  "put_setting (Advice a) q = q\<lparr>advice := a, advice_name := advice_label a\<rparr>"
| "put_setting (SizeGb n) q = q\<lparr>size_gb := n\<rparr>"
| "put_setting Naive q = q\<lparr>naive := True\<rparr>"
| "put_setting HostTouch q = q\<lparr>host_touch := True\<rparr>"
| "put_setting GuestRead q = q\<lparr>guest_read := True\<rparr>"
| "put_setting PressureCheck q = q\<lparr>pressure_check := True\<rparr>"
| "put_setting Hammer q = q\<lparr>hammer := True\<rparr>"
| "put_setting (PressureGb n) q = q\<lparr>pressure_gb := n\<rparr>"
| "put_setting (Repeat n) q = q\<lparr>repeat := n\<rparr>"
| "put_setting TimeReclaim q = q\<lparr>time_reclaim := True\<rparr>"
| "put_setting (ExtentKb n) q = q\<lparr>extent_kb := n\<rparr>"
| "put_setting (Mode m) q = q\<lparr>reclaim_mode := m\<rparr>"
| "put_setting SteadyState q = q\<lparr>steady_state := True\<rparr>"
| "put_setting FleetSim q = q\<lparr>fleet_sim := True\<rparr>"
| "put_setting AllocShape q = q\<lparr>alloc_shape := True\<rparr>"
| "put_setting Soak q = q\<lparr>soak := True\<rparr>"
| "put_setting (SoakMinutes n) q = q\<lparr>soak_minutes := n\<rparr>"
| "put_setting (Vcpus n) q = q\<lparr>vcpus := n\<rparr>"
| "put_setting (Services n) q = q\<lparr>services := n\<rparr>"
| "put_setting (ServiceMib n) q = q\<lparr>service_mib := n\<rparr>"

lemma group_parse: "arg_group s g \<Longrightarrow> \<exists>arg rest. g = arg # rest \<and> parse_arg arg q (rest @ r) = Ok (put_setting s q, r)"
  by (induction rule: arg_group.induct) (simp_all add: parse_arg_def number_arg_def advice_arg_def mode_arg_def advice_label_def)

lemma number_arg_OkD:
  "number_arg a b rest f = Ok (q', r) \<Longrightarrow> \<exists>v n. rest = v # r \<and> parse_u64 v = Some n \<and> f n = Ok q'"
  by (auto simp: number_arg_def split: list.splits option.splits outcome.splits)

text \<open>A group read off the front of the arguments, and the two shapes of it.\<close>

definition front_group :: "string list \<Rightarrow> options \<Rightarrow> options \<Rightarrow> string list \<Rightarrow> bool" where
  "front_group args q q' r \<longleftrightarrow> (\<exists>s g. arg_group s g \<and> args = g @ r \<and> q' = put_setting s q)"

lemma front_flag: "arg_group s [arg] \<Longrightarrow> q' = put_setting s q \<Longrightarrow> rest = r \<Longrightarrow> front_group (arg # rest) q q' r"
  unfolding front_group_def by (rule exI [where x = s], rule exI [where x = "[arg]"]) simp

lemma front_value: "arg_group s [arg, v] \<Longrightarrow> q' = put_setting s q \<Longrightarrow> rest = v # r \<Longrightarrow> front_group (arg # rest) q q' r"
  unfolding front_group_def by (rule exI [where x = s], rule exI [where x = "[arg, v]"]) simp

lemma front_advice:
  assumes "(case advice_arg rest of Ok (a, n) \<Rightarrow> Ok (q\<lparr>advice := a, advice_name := n\<rparr>, drop 1 rest)
        | Panic p \<Rightarrow> Panic p | OutOfFuel \<Rightarrow> OutOfFuel) = Ok (q', r)"
  shows "front_group (''--advice'' # rest) q q' r"
  using assms unfolding advice_arg_def
  by (cases rest) (auto simp: advice_label_def split: if_splits intro: arg_group.intros(1-3) [THEN front_value])

lemma front_mode:
  assumes "(case mode_arg rest of Ok m \<Rightarrow> Ok (q\<lparr>reclaim_mode := m\<rparr>, drop 1 rest)
        | Panic p \<Rightarrow> Panic p | OutOfFuel \<Rightarrow> OutOfFuel) = Ok (q', r)"
  shows "front_group (''--reclaim-mode'' # rest) q q' r"
  using assms unfolding mode_arg_def
  by (cases rest) (auto split: if_splits intro: arg_group.intros(14,15) [THEN front_value])

lemma if_Ok_casesE: "(if b then x else y) = Ok z \<Longrightarrow> (b \<Longrightarrow> x = Ok z \<Longrightarrow> R) \<Longrightarrow> (y = Ok z \<Longrightarrow> R) \<Longrightarrow> R"
  by (simp split: if_splits)

lemmas front_flags = arg_group.intros(5-9,12,16-19) [THEN front_flag]

lemmas front_values = arg_group.intros(4,10,11,13,20-23) [THEN front_value]

lemma parse_arg_group: "parse_arg arg q rest = Ok (q', r) \<Longrightarrow> front_group (arg # rest) q q' r"
  unfolding parse_arg_def
  by (elim if_Ok_casesE; hypsubst?;
      (erule front_advice | erule front_mode | (rule front_flags; simp; fail)
       | (drule number_arg_OkD; clarsimp split: if_splits; rule front_values; (assumption | simp); fail)
       | simp))

lemma parse_loop_groups:
  "parse_loop q args = Ok q' \<longleftrightarrow> (\<exists>ss gs. args = concat gs \<and> list_all2 arg_group ss gs \<and> q' = fold put_setting ss q)"
  (is "?parses q args \<longleftrightarrow> ?grouped q args")
proof
  show "?parses q args \<Longrightarrow> ?grouped q args"
  proof (induction q args rule: parse_loop.induct)
    case (1 q) then show ?case by (intro exI [where x = "[]"]) simp
  next
    case (2 q arg rest)
    then obtain q1 r where step: "parse_arg arg q rest = Ok (q1, r)" and more: "parse_loop q1 r = Ok q'"
      by (auto split: outcome.splits)
    obtain s g where s: "arg_group s g" "arg # rest = g @ r" "q1 = put_setting s q"
      using parse_arg_group [OF step] by (auto simp: front_group_def)
    obtain ss gs where ss: "r = concat gs" "list_all2 arg_group ss gs" "q' = fold put_setting ss q1"
      using "2.IH" [OF step refl more] by blast
    show ?case
      by (rule exI [where x = "s # ss"], rule exI [where x = "g # gs"]) (simp add: s ss)
  qed
next
  have "parse_loop q (concat gs) = Ok (fold put_setting ss q)" if "list_all2 arg_group ss gs" for ss gs
    using that
  proof (induction arbitrary: q rule: list_all2_induct)
    case (Cons s ss g gs)
    then obtain arg rest where "g = arg # rest" "parse_arg arg q (rest @ concat gs) = Ok (put_setting s q, concat gs)"
      using group_parse by blast
    then show ?case using Cons by simp
  qed simp
  then show "?grouped q args \<Longrightarrow> ?parses q args" by blast
qed

end
