(* ===== verification/Reclaim.thy ===== *)
theory Reclaim
  imports Pressure Options
begin

text \<open>
  The reclaim sequences of \<^verbatim>\<open>hv-reclaim\<close>: \<^verbatim>\<open>reclaim\<close> and \<^verbatim>\<open>mmap_anon\<close> of
  \<^verbatim>\<open>main.rs\<close>, and the release step that \<^verbatim>\<open>timing.rs\<close> and \<^verbatim>\<open>soak.rs\<close> share (advise,
  or tear out and replace the host mapping). A release step that is safe on memory no stage-2
  mapping points to is an interface; whatever releases through it between an unmap and a
  remap keeps the discipline and restores the stage-2 table.
\<close>

unbundle bit_operations_syntax

definition mmap_anon :: "'x kernel \<Rightarrow> usize \<Rightarrow> ('x, nat) io" where
  "mmap_anon K len = bind_io (sys K (Mmap 0 len [MAP_ANON, MAP_PRIVATE])) (\<lambda>p.
     then_io (assert_io (rv p \<noteq> MAP_FAILED) ''mmap failed'') (ret (unat (rv p))))"

text \<open>\<^verbatim>\<open>hv_vm_map(host, gpa, len, HV_MEMORY_READ | HV_MEMORY_WRITE)\<close> and \<^verbatim>\<open>hv_vm_unmap\<close>, checked.\<close>

definition map_rw :: "'x kernel \<Rightarrow> nat \<Rightarrow> u64 \<Rightarrow> usize \<Rightarrow> string \<Rightarrow> ('x, unit) io" where
  "map_rw K host gpa len what = check_sys K (HvVmMap host gpa len (HV_MEMORY_READ OR HV_MEMORY_WRITE)) what"

definition unmap_range :: "'x kernel \<Rightarrow> u64 \<Rightarrow> usize \<Rightarrow> string \<Rightarrow> ('x, unit) io" where
  "unmap_range K gpa len what = check_sys K (HvVmUnmap gpa len) what"

definition advise :: "'x kernel \<Rightarrow> nat \<Rightarrow> usize \<Rightarrow> madvice \<Rightarrow> string \<Rightarrow> ('x, unit) io" where
  "advise K host len adv what =
     bind_io (sys K (Madvise host len adv)) (\<lambda>p. assert_io (rc p = 0) what)"

definition reclaim :: "'x kernel \<Rightarrow> nat \<Rightarrow> usize \<Rightarrow> options \<Rightarrow> ('x, unit) io" where
  "reclaim K ram ram_size opts =
     then_io (when_io (\<not> naive opts) (unmap_range K RAM_GPA ram_size ''hv_vm_unmap''))
    (then_io (advise K ram ram_size (advice opts) ''madvise failed'')
             (when_io (\<not> naive opts) (map_rw K ram RAM_GPA ram_size ''hv_vm_map remap'')))"

text \<open>The \<^verbatim>\<open>match mode\<close> of \<^verbatim>\<open>reclaim_extents\<close> and of the soak's \<^verbatim>\<open>reclaim\<close>.\<close>

definition release :: "reclaim_mode \<Rightarrow> madvice \<Rightarrow> 'x kernel \<Rightarrow> nat \<Rightarrow> usize \<Rightarrow> ('x, unit) io" where
  "release mode adv K host len = (case mode of
       Reusable \<Rightarrow> advise K host len adv ''madvise''
     | MunmapMode \<Rightarrow>
         bind_io (sys K (Munmap host len)) (\<lambda>p.
         then_io (assert_io (rc p = 0) ''munmap'')
        (bind_io (sys K (Mmap host len [MAP_ANON, MAP_PRIVATE, MAP_FIXED])) (\<lambda>q.
         assert_io (unat (rv q) = host) ''mmap(MAP_FIXED) moved or failed''))))"

lemma safe_unmap_range: "safe K g (unmap_range K gpa len a) (\<lambda>_ g'. g' = g\<lparr>s2 := s2_unmap gpa len (s2 g)\<rparr>)"
  unfolding unmap_range_def by (rule safe_check_sys) (simp_all add: g_event_def)

lemma safe_map_rw:
  assumes "alive g host len" "Q () (g\<lparr>s2 := s2_map host gpa len RW (s2 g)\<rparr>)"
  shows "safe K g (map_rw K host gpa len a) Q"
  unfolding map_rw_def RW_def [symmetric] by (rule safe_check_sys) (use assms in \<open>simp_all add: g_event_def\<close>)

section \<open>The interface of a release step\<close>

locale release_step =
  fixes rel :: "'x kernel \<Rightarrow> nat \<Rightarrow> usize \<Rightarrow> ('x, unit) io"
  assumes rel_safe: "clear_of (s2 g) host len \<Longrightarrow> alive g host len \<Longrightarrow> keeps_s2 K g (rel K host len)"
    and rel_uses: "uses K (rel K host len)"
begin

text \<open>Unmap, release, remap: disciplined whatever the kernel answers, and the mappings are restored.\<close>

lemma cycle:
  assumes "owned (s2 g) gpa len host" "mapped_at (s2 g) gpa len host" "alive g host len"
  shows "keeps_s2 K g (then_io (unmap_range K gpa len a) (then_io (rel K host len) (map_rw K host gpa len b)))"
proof (rule safe_then)
  show "safe K g (unmap_range K gpa len a) (\<lambda>_ g'. g' = g\<lparr>s2 := s2_unmap gpa len (s2 g)\<rparr>)"
    by (rule safe_unmap_range)
next
  fix g' assume g': "g' = g\<lparr>s2 := s2_unmap gpa len (s2 g)\<rparr>"
  have "safe K g' (map_rw K host gpa len b) (\<lambda>_ g''. g'' = g)"
    by (rule safe_map_rw) (use assms(3) in \<open>simp_all add: g' remap_restores [OF assms(2)] alive_def\<close>)
  then show "safe K g' (then_io (rel K host len) (map_rw K host gpa len b)) (\<lambda>_ g''. g'' = g)"
    using rel_safe [of g' host len] unmap_clears [OF assms(1)] assms(3) g' by (intro safe_then_keep) (simp_all add: alive_def)
qed (auto simp: map_rw_def intro!: uses_intros rel_uses)

end

lemma safe_advise: "clear_of (s2 g) host len \<Longrightarrow> keeps_s2 K g (advise K host len adv what)"
  unfolding advise_def
  by (rule safe_bind [OF safe_sys [where Q = "\<lambda>_ g'. g' = g"]]) (auto simp: g_event_def intro!: safe_intros uses_intros)

lemma munmap_mmap_fixed:
  assumes "clear_of (s2 g) host len" "alive g host len"
  shows "keeps_s2 K g (release MunmapMode adv K host len)"
proof -
  let ?g = "g\<lparr>live := live g - bytes host len\<rparr>"
  have mu: "safe K g (sys K (Munmap host len)) (\<lambda>p g'. rc p = 0 \<longrightarrow> g' = ?g)"
    by (rule safe_sys) (use assms in \<open>auto simp: g_event_def\<close>)
  have mm: "safe K ?g (sys K (Mmap host len [MAP_ANON, MAP_PRIVATE, MAP_FIXED])) (\<lambda>q g'. unat (rv q) = host \<longrightarrow> g' = g)"
    by (rule safe_sys) (use assms(2) in \<open>auto simp: g_event_def mmap_ok_def alive_def Un_absorb2\<close>)
  have rest: "safe K ?g (bind_io (sys K (Mmap host len [MAP_ANON, MAP_PRIVATE, MAP_FIXED])) (\<lambda>q.
      assert_io (unat (rv q) = host) a)) (\<lambda>_ g'. g' = g)" for a
    by (rule safe_bind [OF mm]) (auto intro!: safe_intros uses_intros)
  have "safe K g' (then_io (assert_io (rc p = 0) b) (bind_io (sys K (Mmap host len [MAP_ANON, MAP_PRIVATE, MAP_FIXED])) (\<lambda>q.
      assert_io (unat (rv q) = host) a))) (\<lambda>_ g'. g' = g)" if "rc p = 0 \<longrightarrow> g' = ?g" for p g' a b
    by (rule safe_then [OF safe_assert [where Q = "\<lambda>_ g''. g'' = g' \<and> rc p = 0"]])
      (use that rest in \<open>auto intro!: uses_intros\<close>)
  then show ?thesis
    unfolding release_def by (auto intro!: safe_bind [OF mu] uses_intros)
qed

lemma safe_release:
  "clear_of (s2 g) host len \<Longrightarrow> alive g host len \<Longrightarrow> keeps_s2 K g (release mode adv K host len)"
  by (cases mode) (simp_all add: munmap_mmap_fixed, simp add: release_def safe_advise)

lemma uses_release [uses_intros]: "uses K (advise K host len adv what)" "uses K (release mode adv K host len)"
  by (cases mode; auto simp: advise_def release_def intro!: uses_intros)+

interpretation advise_rel: release_step "\<lambda>K host len. advise K host len adv what" for adv what
  by unfold_locales (auto intro: safe_advise uses_intros)

interpretation mode_rel: release_step "release mode adv" for mode adv
  by unfold_locales (auto intro: safe_release uses_intros)

lemma safe_mmap_anon:
  "safe K g (mmap_anon K len) (\<lambda>p g'. bytes p len \<inter> live g = {} \<and> g' = g\<lparr>live := live g \<union> bytes p len\<rparr>)"
  unfolding mmap_anon_def
  by (rule safe_bind [OF safe_mmap safe_then [OF safe_assert [where Q = "\<lambda>_ g'. R g'" for R]]])
    (auto intro!: safe_intros uses_intros)

lemma safe_reclaim:
  assumes "\<not> naive opts" "owned (s2 g) RAM_GPA len ram" "mapped_at (s2 g) RAM_GPA len ram" "alive g ram len"
  shows "keeps_s2 K g (reclaim K ram len opts)"
  unfolding reclaim_def using assms advise_rel.cycle [OF assms(2-4)] by (simp add: when_io_def)

lemma uses_reclaim [uses_intros]: "uses K (mmap_anon K len)" "uses K (map_rw K host gpa len what)"
    "uses K (unmap_range K gpa len what)" "uses K (reclaim K ram len opts)"
  by (auto simp: mmap_anon_def map_rw_def unmap_range_def reclaim_def intro!: uses_intros)

end
