(* ===== verification/Timing.thy ===== *)
theory Timing
  imports Reclaim
begin

text \<open>
  \<^verbatim>\<open>hv-reclaim/src/timing.rs\<close>: the reclaim triple run extent by extent over guest RAM,
  timed per phase, and the cycle loop of \<^verbatim>\<open>--time-reclaim\<close>. Instants are the kernel
  parameter's clock in nanoseconds; an elapsed time saturates at zero as
  \<^verbatim>\<open>Instant::elapsed\<close> does.
\<close>

unbundle bit_operations_syntax

definition now :: "'x kernel \<Rightarrow> ('x, nat) io" where
  "now K = bind_io (sys K Now) (\<lambda>p. ret (unat (rv p)))"

text \<open>\<^verbatim>\<open>let t = Instant::now(); f; t.elapsed().as_nanos()\<close>\<close>

definition timed :: "'x kernel \<Rightarrow> ('x, unit) io \<Rightarrow> ('x, nat) io" where
  "timed K f = bind_io (now K) (\<lambda>t0. bind_io f (\<lambda>_. bind_io (now K) (\<lambda>t1. ret (t1 - t0))))"

record phases =
  p_unmap :: nat
  p_release :: nat
  p_remap :: nat

definition reclaim_extent :: "'x kernel \<Rightarrow> nat \<Rightarrow> usize \<Rightarrow> reclaim_mode \<Rightarrow> madvice \<Rightarrow> nat \<Rightarrow> phases \<Rightarrow> ('x, phases) io" where
  "reclaim_extent K ram extent mode adv off p =
    (let host = ram + off; gpa = RAM_GPA + of_nat off in
     bind_io (timed K (unmap_range K gpa extent ''hv_vm_unmap(extent)'')) (\<lambda>d1.
     bind_io (timed K (release mode adv K host extent)) (\<lambda>d2.
     bind_io (timed K (map_rw K host gpa extent ''hv_vm_map(extent)'')) (\<lambda>d3.
     ret (p\<lparr>p_unmap := p_unmap p + d1, p_release := p_release p + d2, p_remap := p_remap p + d3\<rparr>)))))"

definition reclaim_extents :: "'x kernel \<Rightarrow> nat \<Rightarrow> usize \<Rightarrow> usize \<Rightarrow> reclaim_mode \<Rightarrow> madvice \<Rightarrow> ('x, phases) io" where
  "reclaim_extents K ram ram_size extent mode adv =
     fold_io (step_by 0 (unat ram_size) (unat extent)) (reclaim_extent K ram extent mode adv)
       \<lparr>p_unmap = 0, p_release = 0, p_remap = 0\<rparr>"

definition is_multiple_of :: "usize \<Rightarrow> usize \<Rightarrow> bool" where
  "is_multiple_of a b = (if b = 0 then a = 0 else a mod b = 0)"

text \<open>The cycle reset: replace guest RAM by fresh memory. \<^verbatim>\<open>main.rs\<close> has the same one.\<close>

definition reset_ram :: "'x kernel \<Rightarrow> nat \<Rightarrow> usize \<Rightarrow> ('x, nat) io" where
  "reset_ram K ram ram_size =
     then_io (unmap_range K RAM_GPA ram_size ''hv_vm_unmap (cycle reset)'')
    (then_io (sys_ignore K (Munmap ram ram_size))
    (bind_io (mmap_anon K ram_size) (\<lambda>ram'.
     then_io (map_rw K ram' RAM_GPA ram_size ''hv_vm_map (cycle reset)'') (ret ram'))))"

definition timing_cycle :: "nat \<Rightarrow> 'x kernel \<Rightarrow> u64 \<Rightarrow> options \<Rightarrow> usize \<Rightarrow> usize \<Rightarrow> nat \<Rightarrow> nat \<Rightarrow> ('x, nat) io" where
  "timing_cycle fuel K vcpu opts ram_size extent cycle ram0 =
     bind_io (if cycle > 1 \<and> \<not> steady_state opts then reset_ram K ram0 ram_size else ret ram0) (\<lambda>ram.
     bind_io (timed K (run_touch_pass fuel K vcpu ram_size)) (\<lambda>touch_ns.
     bind_io (ledger_read K) (\<lambda>before.
     bind_io (reclaim_extents K ram ram_size extent (reclaim_mode opts) (advice opts)) (\<lambda>ph.
     then_io (sys_ignore K (Sleep 200))
    (bind_io (ledger_read K) (\<lambda>after.
     bind_io (timed K (run_touch_pass fuel K vcpu ram_size)) (\<lambda>faultback_ns.
     then_io (println ''{},{},{},{},{},{},{},{},{},{},{:.1},{},{}''
       [ArgStr (reclaim_mode_name (reclaim_mode opts)), ArgNat (unat (size_gb opts)), ArgNat (unat (extent div 1024)),
        ArgNat (unat (ram_size div extent)), ArgNat cycle, ArgNat touch_ns, ArgNat (p_unmap ph),
        ArgNat (p_release ph), ArgNat (p_remap ph), ArgNat faultback_ns,
        ArgF64 (delta_mib (phys_footprint after) (phys_footprint before)),
        ArgInt (sint (regions before)), ArgInt (sint (regions after))])
       (ret ram))))))))"

definition timing_run :: "nat \<Rightarrow> 'x kernel \<Rightarrow> u64 \<Rightarrow> nat \<Rightarrow> options \<Rightarrow> ('x, nat) io" where
  "timing_run fuel K vcpu ram opts =
    (let ram_size = push_bit 30 (size_gb opts);
         extent = (if extent_kb opts = 0 then ram_size else extent_kb opts * 1024) in
     then_io (assert_io (is_multiple_of extent (of_nat PAGE) \<and> is_multiple_of ram_size extent)
        ''--extent-kb must be a multiple of 16 and divide the RAM size'')
    (if extent = 0 then throw (Explicit ''attempt to divide by zero'')
     else then_io (println ''# hv-reclaim --time-reclaim: {} GiB, {} extent(s) of {} KiB, mode {}, {}, {} cycle(s)''
         [ArgNat (unat (size_gb opts)), ArgNat (unat (ram_size div extent)), ArgNat (unat (extent div 1024)),
          ArgStr (reclaim_mode_name (reclaim_mode opts)), ArgStr (if steady_state opts then ''steady-state (same mapping every cycle)'' else ''fresh mapping every cycle''),
          ArgNat (unat (repeat opts))])
    (then_io (println ''# phase columns are summed ns across all extents; release = {}''
         [ArgStr (case reclaim_mode opts of Reusable \<Rightarrow> ''madvise(MADV_FREE_REUSABLE)''
            | MunmapMode \<Rightarrow> ''munmap + mmap(MAP_FIXED)'')])
    (then_io (println ''mode,size_gb,extent_kb,extents,cycle,touch_ns,unmap_ns,release_ns,remap_ns,faultback_ns,settle_mib,regions_before,regions_after'' [])
             (fold_io [1..<Suc (unat (repeat opts))] (timing_cycle fuel K vcpu opts ram_size extent) ram)))))"

section \<open>Discipline\<close>

text \<open>The VM of \<^verbatim>\<open>hv-reclaim\<close>: the code page and guest RAM are mapped, apart, and memory in use.\<close>

definition vm_s2 :: "nat \<Rightarrow> nat \<Rightarrow> usize \<Rightarrow> stage2" where
  "vm_s2 code ram ram_size = s2_map ram RAM_GPA ram_size RW (s2_map code CODE_GPA (of_nat PAGE) RX (\<lambda>_. None))"

definition vm_state :: "nat \<Rightarrow> nat \<Rightarrow> usize \<Rightarrow> ghost \<Rightarrow> bool" where
  "vm_state code ram ram_size g \<longleftrightarrow> s2 g = vm_s2 code ram ram_size \<and> alive g code (of_nat PAGE) \<and> alive g ram ram_size
     \<and> bytes code (of_nat PAGE) \<inter> bytes ram ram_size = {}"

lemma page_unat [simp]: "unat (of_nat PAGE :: usize) = PAGE"
  by (simp add: PAGE_def)

lemma vm_owned: "bytes code (of_nat PAGE) \<inter> bytes ram ram_size = {} \<Longrightarrow> owned (vm_s2 code ram ram_size) RAM_GPA ram_size ram"
  unfolding owned_def vm_s2_def s2_map_def bytes_def
  by (auto simp: word_less_nat_alt disjoint_iff split: if_splits)

lemma vm_stateD:
  assumes "vm_state code ram ram_size g"
  shows "owned (s2 g) RAM_GPA ram_size ram" "mapped_at (s2 g) RAM_GPA ram_size ram" "alive g ram ram_size"
  using assms vm_owned by (auto simp: vm_state_def mapped_at_def vm_s2_def s2_map_def)

lemma vm_remap: "s2_map ram' RAM_GPA ram_size RW (s2_unmap RAM_GPA ram_size (vm_s2 code ram ram_size)) = vm_s2 code ram' ram_size"
  by (auto simp: vm_s2_def s2_map_def s2_unmap_def)

lemma bytes_mem: "x < len \<Longrightarrow> p + unat x \<in> bytes p len"
  by (simp add: bytes_def word_less_nat_alt)

lemma vm_backed: "vm_state code ram ram_size g \<Longrightarrow> backed g"
  by (auto simp: backed_def vm_state_def vm_s2_def s2_map_def alive_def split: if_splits dest: bytes_mem)

text \<open>Memory the VM does not use comes and goes.\<close>

lemma vm_state_cong:
  assumes "vm_state code ram ram_size g" "s2 g' = s2 g" "bytes code (of_nat PAGE) \<union> bytes ram ram_size \<subseteq> live g'"
  shows "vm_state code ram ram_size g'"
  using assms by (simp add: vm_state_def alive_def)

lemma safe_now [safe_intros]: "keeps_s2 K g (now K)"
  unfolding now_def by (intro safe_bind_keep safe_intros) auto

lemma safe_timed:
  assumes "safe K g f Q"
  shows "safe K g (timed K f) (\<lambda>_ g'. Q () g')"
  unfolding timed_def
  by (intro safe_bind_keep safe_now safe_bind [OF assms])
    (auto intro!: safe_bind_keep safe_intros uses_intros safe_now [THEN safe_uses])

lemma uses_timed [uses_intros]: "uses K (now K)" "uses K f \<Longrightarrow> uses K (timed K f)"
  by (auto simp: now_def timed_def intro!: uses_intros)

lemma safe_ledger_read [safe_intros]: "keeps_s2 K g (ledger_read K)"
  unfolding ledger_read_def by (intro safe_bind_keep safe_then_keep safe_intros safe_pure) (auto simp: Let_def)

lemmas uses_ledger_read [uses_intros] = safe_ledger_read [THEN safe_uses]

lemma uses_reclaim_extents [uses_intros]:
  "uses K (reclaim_extent K ram extent mode adv off p)" "uses K (reclaim_extents K ram ram_size extent mode adv)"
  by (auto simp: reclaim_extent_def reclaim_extents_def Let_def intro!: uses_intros)

lemma safe_reclaim_extent:
  assumes "owned (s2 g) (RAM_GPA + of_nat off) extent (ram + off)"
    and "mapped_at (s2 g) (RAM_GPA + of_nat off) extent (ram + off)" and "alive g (ram + off) extent"
  shows "keeps_s2 K g (reclaim_extent K ram extent mode adv off p)"
proof -
  let ?gpa = "RAM_GPA + of_nat off" and ?host = "ram + off"
  let ?g = "g\<lparr>s2 := s2_unmap ?gpa extent (s2 g)\<rparr>"
  have rel: "keeps_s2 K ?g (release mode adv K ?host extent)"
    by (rule safe_release) (use unmap_clears [OF assms(1)] assms(3) in \<open>simp_all add: alive_def\<close>)
  have re: "safe K ?g (map_rw K ?host ?gpa extent b) (\<lambda>_ g'. g' = g)" for b
    by (rule safe_map_rw) (use assms(3) in \<open>simp_all add: remap_restores [OF assms(2)] alive_def\<close>)
  have 3: "safe K ?g (bind_io (timed K (map_rw K ?host ?gpa extent b)) (\<lambda>d. ret (f d))) (\<lambda>_ g'. g' = g)"
    for b and f :: "nat \<Rightarrow> phases"
    by (rule safe_bind [OF safe_timed [OF re]]) (auto intro!: safe_ret uses_intros)
  show ?thesis
    unfolding reclaim_extent_def Let_def
    by (rule safe_bind [OF safe_timed [OF safe_unmap_range]])
      (auto intro!: safe_bind_keep [OF safe_timed [OF rel]] 3 uses_intros)
qed

lemma multiple_below:
  fixes k :: nat
  assumes "k dvd a" "k dvd b" "a < b"
  shows "a + k \<le> b"
proof -
  obtain i j where ij: "a = k * i" "b = k * j" using assms(1,2) unfolding dvd_def by blast
  then have "i < j" using assms(3) by simp
  then have "k * Suc i \<le> k * j" by (intro mult_le_mono2) simp
  then show ?thesis using ij by simp
qed

text \<open>An extent that divides the RAM size never reaches past it.\<close>

lemma extent_inside:
  assumes "0 < extent" "is_multiple_of ram_size extent" "off \<in> set (step_by 0 (unat ram_size) (unat extent))"
  shows "off + unat extent \<le> unat ram_size" "off < 2 ^ 64"
proof -
  have e: "0 < unat extent" "unat extent dvd unat ram_size"
    using assms(1,2) by (auto simp: is_multiple_of_def unat_gt_0 mod_eq_0_iff_dvd unat_mod_distrib
        dvd_eq_mod_eq_0 word_neq_0_conv simp flip: unat_mod_distrib)
  then have o: "off < unat ram_size" "off mod unat extent = 0" using assms(3) by (auto simp: set_step_by)
  show "off + unat extent \<le> unat ram_size"
    by (rule multiple_below) (use e o in \<open>auto simp: mod_eq_0_iff_dvd\<close>)
  show "off < 2 ^ 64" using o(1) unat_lt64 [of ram_size] by simp
qed

text \<open>A part of the RAM is owned, mapped and in use as the whole is.\<close>

lemma ram_part:
  assumes "owned (s2 g) RAM_GPA ram_size ram" "mapped_at (s2 g) RAM_GPA ram_size ram" "alive g ram ram_size"
    and "off + unat len \<le> unat ram_size" "off < 2 ^ 64"
  shows "owned (s2 g) (RAM_GPA + of_nat off) len (ram + off)"
    and "mapped_at (s2 g) (RAM_GPA + of_nat off) len (ram + off)" and "alive g (ram + off) len"
proof -
  let ?o = "of_nat off :: usize"
  have u: "unat ?o = off" using unat_of_nat64 [OF assms(5)] .
  have b: "unat ?o + unat len \<le> unat ram_size" "unat ?o + unat len < 2 ^ 64"
    using assms(4) u unat_lt64 [of ram_size] by auto
  show "owned (s2 g) (RAM_GPA + of_nat off) len (ram + off)" using owned_sub [OF assms(1,2) b(1)] u by simp
  show "mapped_at (s2 g) (RAM_GPA + of_nat off) len (ram + off)" using mapped_sub [OF assms(2) b] u by simp
  show "alive g (ram + off) len" using assms(3,4) by (auto simp: alive_def bytes_def)
qed

lemma safe_reclaim_extents:
  assumes "owned (s2 g) RAM_GPA ram_size ram" "mapped_at (s2 g) RAM_GPA ram_size ram" "alive g ram ram_size"
    and "0 < extent" "is_multiple_of ram_size extent"
  shows "keeps_s2 K g (reclaim_extents K ram ram_size extent mode adv)"
  unfolding reclaim_extents_def
  by (intro safe_fold safe_reclaim_extent ram_part [OF assms(1-3)] extent_inside [OF assms(4,5)])

lemma uses_reset_ram [uses_intros]: "uses K (reset_ram K ram ram_size)"
  unfolding reset_ram_def by (intro uses_intros)

text \<open>The cycle reset gives a VM with fresh RAM.\<close>

lemma safe_reset_ram:
  assumes "vm_state code ram ram_size g"
  shows "safe K g (reset_ram K ram ram_size) (\<lambda>ram' g'. vm_state code ram' ram_size g')"
proof -
  let ?g = "g\<lparr>s2 := s2_unmap RAM_GPA ram_size (s2 g)\<rparr>"
  let ?P = "\<lambda>g'. s2 g' = s2 ?g \<and> bytes code (of_nat PAGE) \<subseteq> live g'"
  have mu: "safe K ?g (sys_ignore K (Munmap ram ram_size)) (\<lambda>_ g'. ?P g')"
    by (rule safe_sys_ignore)
      (use unmap_clears [OF vm_stateD(1) [OF assms]] assms in \<open>auto simp: vm_state_def alive_def\<close>)
  have re: "safe K g2 (then_io (map_rw K r RAM_GPA ram_size b) (ret r)) (\<lambda>ram' g'. vm_state code ram' ram_size g')"
    if "?P g1" "bytes r ram_size \<inter> live g1 = {}" "g2 = g1\<lparr>live := live g1 \<union> bytes r ram_size\<rparr>" for r b g1 g2
  proof (rule safe_then [OF safe_map_rw [where Q = "\<lambda>_ g'. vm_state code r ram_size g'"]])
    show "vm_state code r ram_size (g2\<lparr>s2 := s2_map r RAM_GPA ram_size RW (s2 g2)\<rparr>)"
      using that assms vm_remap [of r ram_size code ram] by (auto simp: vm_state_def alive_def)
  qed (use that in \<open>auto intro!: safe_ret uses_intros simp: alive_def\<close>)
  have mm: "safe K g1 (bind_io (mmap_anon K ram_size) (\<lambda>r. then_io (map_rw K r RAM_GPA ram_size b) (ret r)))
      (\<lambda>ram' g'. vm_state code ram' ram_size g')" if "?P g1" for g1 b
    by (rule safe_bind [OF safe_mmap_anon]) (auto intro!: re [OF that] uses_intros)
  show ?thesis
    unfolding reset_ram_def
    by (rule safe_then [OF safe_unmap_range]) (auto intro!: safe_then [OF mu] mm uses_intros)
qed

lemma uses_timing [uses_intros]:
  "uses K (timing_cycle fuel K vcpu opts ram_size extent cycle ram)" "uses K (timing_run fuel K vcpu ram opts)"
  by (auto simp: timing_cycle_def timing_run_def Let_def intro!: uses_intros)

lemma safe_timing_cycle:
  assumes "vm_state code ram ram_size g" "0 < extent" "is_multiple_of ram_size extent"
  shows "safe K g (timing_cycle fuel K vcpu opts ram_size extent cycle ram) (\<lambda>ram' g'. vm_state code ram' ram_size g')"
proof -
  have rst: "safe K g (if b then reset_ram K ram ram_size else ret ram) (\<lambda>ram' g'. vm_state code ram' ram_size g')" for b
    using safe_reset_ram [OF assms(1)] assms(1) by (auto intro: safe_ret)
  show ?thesis
    unfolding timing_cycle_def
    by (rule safe_bind [OF rst])
      (auto intro!: safe_bind_keep safe_then_keep safe_timed safe_touch safe_intros
        safe_reclaim_extents vm_stateD assms(2,3) uses_intros)
qed

text \<open>Threading a VM state through a loop of cycles.\<close>

lemma safe_fold_vm:
  assumes "\<And>i r g. vm_state code r ram_size g \<Longrightarrow> safe K g (f i r) (\<lambda>r' g'. vm_state code r' ram_size g')"
    and "\<And>i r. uses K (f i r)" and "vm_state code ram ram_size g"
  shows "safe K g (fold_io is f ram) (\<lambda>r' g'. vm_state code r' ram_size g')"
  using assms(3)
proof (induction "is" arbitrary: ram g)
  case (Cons i "is")
  show ?case
    using safe_bind [OF assms(1) [OF Cons.prems] Cons.IH] assms(2) by (simp add: uses_fold)
qed (auto intro: safe_ret)

lemma safe_timing_run:
  assumes "vm_state code ram (push_bit 30 (size_gb opts)) g"
  shows "safe K g (timing_run fuel K vcpu ram opts) (\<lambda>ram' g'. vm_state code ram' (push_bit 30 (size_gb opts)) g')"
proof -
  let ?n = "push_bit 30 (size_gb opts) :: usize"
  define e where "e = (if extent_kb opts = 0 then ?n else extent_kb opts * 1024)"
  have loop: "safe K g (fold_io cs (timing_cycle fuel K vcpu opts ?n e) ram) (\<lambda>ram' g'. vm_state code ram' ?n g')"
    if "is_multiple_of ?n e" "e \<noteq> 0" for cs
    by (intro safe_fold_vm safe_timing_cycle uses_intros assms) (use that in \<open>simp_all add: word_neq_0_conv\<close>)
  show ?thesis
    unfolding timing_run_def Let_def e_def [symmetric]
    by (rule safe_then [OF safe_assert [where Q = "\<lambda>_ g'. g' = g \<and> is_multiple_of ?n e"]])
      (auto intro!: safe_then_keep safe_intros loop assms uses_intros)
qed

end
