(* ===== verification/Platform.thy ===== *)
theory Platform
  imports Timing
begin

text \<open>
  A reference platform: an executable kernel parameter that behaves as the contracts of the
  development ask. It runs the vCPU instruction by instruction, cancels runs as often as its
  state says, hands out fresh memory from a growing break and answers every other call with
  success. The theorems hold of every kernel that satisfies their hypotheses; this one shows
  that the hypotheses can be satisfied together, on the program's own code page.
\<close>

unbundle bit_operations_syntax

section \<open>Running to an abort\<close>

partial_function (option) run_to_abort :: "machine \<Rightarrow> (machine \<times> u64) option" where
  "run_to_abort m = (case arm_step m of
       Next m' \<Rightarrow> run_to_abort m'
     | DataAbort a \<Rightarrow> Some (m, a)
     | _ \<Rightarrow> None)"

lemma run_to_abort_n:
  "run_n n m = Some ma \<Longrightarrow> arm_step ma = DataAbort a \<Longrightarrow> run_to_abort m = Some (ma, a)"
proof (induction n arbitrary: m)
  case 0
  then show ?case by (subst run_to_abort.simps) simp
next
  case (Suc n)
  then show ?case by (subst run_to_abort.simps) (auto split: arm_result.splits)
qed

section \<open>The kernel\<close>

record plat =
  cpus :: "u64 \<Rightarrow> cpu"
  tbl :: stage2
  cancels :: nat
  exit_rec :: exit_info
  brk :: usize
  clock :: nat

definition cpu_part :: "machine \<Rightarrow> cpu" where
  "cpu_part m = \<lparr>pc = pc m, xr = xr m, cpsr = cpsr m\<rparr>"

definition success :: "u64 \<Rightarrow> resp" where
  "success v = \<lparr>rc = 0, rv = v\<rparr>"

definition abort_info :: "u64 \<Rightarrow> exit_info" where
  "abort_info a = \<lparr>reason = HV_EXIT_REASON_EXCEPTION, exception = \<lparr>syndrome = push_bit 26 EC_DATA_ABORT_LOWER_EL,
     virtual_address = a, physical_address = a\<rparr>\<rparr>"

definition cancel_info :: exit_info where
  "cancel_info = \<lparr>reason = HV_EXIT_REASON_CANCELED, exception = \<lparr>syndrome = 0, virtual_address = 0, physical_address = 0\<rparr>\<rparr>"

definition plat_view :: "plat hv_view" where
  "plat_view = \<lparr>v_cpu = cpus, v_s2 = tbl, v_cancels = cancels\<rparr>"

definition plat_run :: "u64 \<Rightarrow> plat \<Rightarrow> mem \<Rightarrow> resp \<times> plat \<times> mem" where
  "plat_run v x m =
    (if 0 < cancels x then (success 0, x\<lparr>cancels := cancels x - 1, exit_rec := cancel_info\<rparr>, m)
     else case run_to_abort (machine_of plat_view v x m) of
         None \<Rightarrow> (\<lparr>rc = 1, rv = 0\<rparr>, x, m)
       | Some (ma, a) \<Rightarrow> (success 0, x\<lparr>cpus := (cpus x)(v := cpu_part ma), exit_rec := abort_info a\<rparr>, mmem ma))"

fun plat_sys :: "call \<Rightarrow> plat \<Rightarrow> mem \<Rightarrow> resp \<times> plat \<times> mem" where
  "plat_sys (HvVcpuSetReg v r a) x m = (success 0, x\<lparr>cpus := (cpus x)(v := set_reg r a (cpus x v))\<rparr>, m)"
| "plat_sys (HvVcpuGetReg v r) x m = (success (get_reg r (cpus x v)), x, m)"
| "plat_sys (HvVcpuRun v) x m = plat_run v x m"
| "plat_sys (HvVmMap h a n fl) x m = (success 0, x\<lparr>tbl := s2_map h a n fl (tbl x)\<rparr>, m)"
| "plat_sys (HvVmUnmap a n) x m = (success 0, x\<lparr>tbl := s2_unmap a n (tbl x)\<rparr>, m)"
| "plat_sys HvVmDestroy x m = (success 0, x\<lparr>tbl := (\<lambda>_. None)\<rparr>, m)"
| "plat_sys (Mmap p n fl) x m =
     (if MAP_FIXED \<in> set fl then (success (of_nat (if p + unat n \<le> unat (brk x) then p else Suc p)), x, m)
      else if unat (brk x) + unat n < 2 ^ 64 - 1 then (success (brk x), x\<lparr>brk := brk x + n\<rparr>, m)
      else (success MAP_FAILED, x, m))"
| "plat_sys (HvVmAllocate n fl) x m =
     (if unat (brk x) + unat n < 2 ^ 64 - 1 then (success (brk x), x\<lparr>brk := brk x + n\<rparr>, m)
      else (\<lparr>rc = 1, rv = 0\<rparr>, x, m))"
| "plat_sys (TaskInfo fl n) x m = (success (ucast n), x, m)"
| "plat_sys Sysconf x m = (success (of_nat PAGE), x, m)"
| "plat_sys Now x m = (success (of_nat (min (clock x) (2 ^ 64 - 1))), x\<lparr>clock := clock x + 1000000000\<rparr>, m)"
| "plat_sys (Sleep ms) x m = (success 0, x\<lparr>clock := clock x + ms * 1000000\<rparr>, m)"
| "plat_sys c x m = (success 0, x, m)"

definition zero_info :: task_vm_info where
  "zero_info = \<lparr>virtual_size = 0, region_count = 0, page_size = 0, resident_size = 0, resident_size_peak = 0,
     device = 0, device_peak = 0, internal = 0, internal_peak = 0, external = 0, external_peak = 0,
     reusable_bytes = 0, reusable_peak = 0, purgeable_volatile_pmap = 0, purgeable_volatile_resident = 0,
     purgeable_volatile_virtual = 0, compressed_bytes = 0, compressed_peak = 0, compressed_lifetime = 0,
     phys_footprint_bytes = 0\<rparr>"

definition no_rusage :: rusage_info where
  "no_rusage = \<lparr>user_time = 0, system_time = 0, pkg_idle_wkups = 0, interrupt_wkups = 0, pageins = 0, wired_size = 0,
     ri_resident_size = 0, ri_phys_footprint = 0, proc_start_abstime = 0, proc_exit_abstime = 0, child_user_time = 0,
     child_system_time = 0, child_pkg_idle_wkups = 0, child_interrupt_wkups = 0, child_pageins = 0,
     child_elapsed_abstime = 0, diskio_bytesread = 0, diskio_byteswritten = 0\<rparr>"

definition plat_kernel :: "plat kernel" where
  "plat_kernel = \<lparr>k_sys = plat_sys, k_exit = (\<lambda>_. exit_rec), k_vm_info = (\<lambda>_. zero_info),
     k_line = (\<lambda>_. Some (Inl ''HOLDING'')), k_text = (\<lambda>_. []), k_rusage = (\<lambda>_. no_rusage)\<rparr>"

section \<open>The contracts hold\<close>

lemma machine_of_cpu_part: "machine_of plat_view v (x\<lparr>cpus := (cpus x)(v := cpu_part ma), exit_rec := e\<rparr>) (mmem ma) = ma\<lparr>ms2 := tbl x\<rparr>"
  by (cases ma) (simp add: machine_of_def cpu_part_def plat_view_def)

lemma arm_exec_ms2: "arm_exec i m = Next m' \<Longrightarrow> ms2 m' = ms2 m"
  by (cases i) (auto simp: Let_def advance_def set_xr_def split: if_splits option.splits)

lemma arm_step_ms2: "arm_step m = Next m' \<Longrightarrow> ms2 m' = ms2 m"
  unfolding arm_step_def by (auto split: option.splits dest: arm_exec_ms2)

lemma run_n_ms2: "run_n n m = Some m' \<Longrightarrow> ms2 m' = ms2 m"
proof (induction n arbitrary: m)
  case (Suc n)
  then show ?case by (cases "arm_step m") (auto dest: arm_step_ms2)
qed simp

lemma plat_run_law: "run_law plat_kernel plat_view v"
  unfolding run_law_def
proof (intro allI impI)
  fix x m n ma a p x' m'
  assume run: "run_n n (machine_of plat_view v x m) = Some ma" and ab: "arm_step ma = DataAbort a"
    and k: "k_sys plat_kernel (HvVcpuRun v) x m = (p, x', m')"
  have r: "run_to_abort (machine_of plat_view v x m) = Some (ma, a)" using run_to_abort_n [OF run ab] .
  have s: "ms2 ma = tbl x" using run_n_ms2 [OF run] by (simp add: machine_of_def plat_view_def)
  show "rc p = 0 \<and>
     (reason (k_exit plat_kernel v x') = HV_EXIT_REASON_CANCELED \<and> v_cancels plat_view x' < v_cancels plat_view x
        \<and> (\<exists>i\<le>n. run_n i (machine_of plat_view v x m) = Some (machine_of plat_view v x' m'))
      \<or> reason (k_exit plat_kernel v x') = HV_EXIT_REASON_EXCEPTION
        \<and> drop_bit 26 (syndrome (exception (k_exit plat_kernel v x'))) AND 0x3F = EC_DATA_ABORT_LOWER_EL
        \<and> physical_address (exception (k_exit plat_kernel v x')) = a
        \<and> machine_of plat_view v x' m' = ma \<and> v_cancels plat_view x' \<le> v_cancels plat_view x)"
  proof (cases "0 < cancels x")
    case True
    then have e: "p = success 0" "x' = x\<lparr>cancels := cancels x - 1, exit_rec := cancel_info\<rparr>" "m' = m"
      using k by (simp_all add: plat_kernel_def plat_run_def)
    then have "run_n 0 (machine_of plat_view v x m) = Some (machine_of plat_view v x' m')"
      by (simp add: machine_of_def plat_view_def)
    then show ?thesis
      using True e by (auto simp: success_def plat_kernel_def cancel_info_def plat_view_def)
  next
    case False
    then have e: "p = success 0" "x' = x\<lparr>cpus := (cpus x)(v := cpu_part ma), exit_rec := abort_info a\<rparr>" "m' = mmem ma"
      using k r by (simp_all add: plat_kernel_def plat_run_def)
    have "drop_bit 26 (push_bit 26 EC_DATA_ABORT_LOWER_EL) AND 0x3F = EC_DATA_ABORT_LOWER_EL"
      by (simp add: EC_DATA_ABORT_LOWER_EL_def)
    moreover have "ma\<lparr>ms2 := tbl x\<rparr> = ma" using s by simp
    ultimately show ?thesis
      using e machine_of_cpu_part [where v = v and x = x and ma = ma] by (simp add: success_def plat_kernel_def abort_info_def plat_view_def)
  qed
qed

lemma plat_contract: "vcpu_contract plat_kernel plat_view v"
  unfolding vcpu_contract_def set_reg_law_def get_reg_law_def
  using plat_run_law by (auto simp: plat_kernel_def plat_view_def success_def)

section \<open>A ready guest\<close>

lemma vm_s2_ready:
  assumes "code_loaded code mem" "code + PAGE \<le> ram \<or> ram + unat n \<le> code"
    and "8 dvd unat n" "unat RAM_GPA + unat n + PAGE \<le> 2 ^ 64"
  shows "guest_ready ram (unat n) code (vm_s2 code ram n) mem"
proof -
  have s: "unat (of_nat off :: u64) = off" if "off < unat n" for off
    using that unat_of_nat64 unat_lt64 [of n] by simp
  have ram: "vm_s2 code ram n (RAM_GPA + of_nat off) = Some (ram + off, RW)" if "off < unat n" for off
    using that s [OF that] by (simp add: vm_s2_def s2_map_def word_less_nat_alt)
  have far: "\<not> (CODE_GPA + of_nat off - RAM_GPA < n)" if "off < PAGE" for off
  proof -
    have "CODE_GPA + of_nat off - RAM_GPA = of_nat (2 ^ 64 - 0x70000000 + off)"
      by (simp add: code_defs)
    moreover have "unat (of_nat (2 ^ 64 - 0x70000000 + off) :: u64) = 2 ^ 64 - 0x70000000 + off"
      using that by (intro unat_of_nat64) (simp add: PAGE_def)
    ultimately have "unat (CODE_GPA + of_nat off - RAM_GPA) = 2 ^ 64 - 0x70000000 + off" by metis
    then show ?thesis using assms(4) by (simp add: word_less_nat_alt code_defs)
  qed
  have code: "vm_s2 code ram n (CODE_GPA + of_nat off) = Some (code + off, RX)" if "off < PAGE" for off
    using that far [OF that] unat_of_nat64 [of off] by (simp add: vm_s2_def s2_map_def word_less_nat_alt PAGE_def)
  have "unat (DOORBELL_GPA - RAM_GPA) = 2 ^ 64 - 0x71000000" "unat (DOORBELL_GPA - CODE_GPA) = 2 ^ 64 - 0x1000000"
    by (simp_all add: code_defs)
  then have "vm_s2 code ram n DOORBELL_GPA = None"
    using assms(4) by (simp add: vm_s2_def s2_map_def word_less_nat_alt code_defs)
  then show ?thesis unfolding guest_window_def using assms ram code by auto
qed

text \<open>The world after the program has set its VM up: the calls of \<^verbatim>\<open>main\<close> are in the trace.\<close>

definition boot :: "nat \<Rightarrow> nat \<Rightarrow> usize \<Rightarrow> nat \<Rightarrow> mem \<Rightarrow> plat world" where
  "boot code ram n c mem = \<lparr>ext = \<lparr>cpus = (\<lambda>_. \<lparr>pc = 0, xr = (\<lambda>_. 0), cpsr = 0\<rparr>), tbl = vm_s2 code ram n,
     cancels = c, exit_rec = cancel_info, brk = of_nat ram + n, clock = 0\<rparr>, wmem = mem,
     trace = [(Mmap 0 n [MAP_ANON, MAP_PRIVATE], success (of_nat ram)),
       (Mmap 0 (of_nat PAGE) [MAP_ANON, MAP_PRIVATE], success (of_nat code)), (HvVmCreate, success 0),
       (HvVmMap code CODE_GPA (of_nat PAGE) RX, success 0), (HvVmMap ram RAM_GPA n RW, success 0)], stdout = []\<rparr>"

text \<open>A guest with \<open>n\<close> bytes of RAM whose runs are cancelled \<open>c\<close> times, on the code page the program writes.\<close>

lemma platform_ready:
  assumes "8 dvd unat n" "unat RAM_GPA + unat n + PAGE \<le> 2 ^ 64" "good_range a b (unat n)"
  shows "\<exists>mem. pass_pre plat_kernel plat_view v 0x8000 (unat n) 0x4000 (Suc c) a b (boot 0x4000 0x8000 n c mem)"
proof -
  obtain w' :: "plat world" where "code_loaded 0x4000 (wmem w')"
    using write_code_page_result [where K = plat_kernel and code = "0x4000" and w = "boot 0x4000 0x8000 n c (\<lambda>_. 0)"]
    by (auto simp: plat_kernel_def)
  then have "guest_ready 0x8000 (unat n) 0x4000 (vm_s2 0x4000 0x8000 n) (wmem w')"
    using vm_s2_ready assms by (simp add: PAGE_def)
  then show ?thesis
    using assms plat_contract
    by (intro exI [of _ "wmem w'"]) (simp add: window_pre_def boot_def plat_view_def)
qed

section \<open>Honesty\<close>

text \<open>All memory in use is below the break, so what the platform hands out is fresh.\<close>

definition below_brk :: "plat world \<Rightarrow> bool" where
  "below_brk w \<longleftrightarrow> honest (trace w) \<and> live (ghost_of (trace w)) \<subseteq> {..< unat (brk (ext w))}"

lemma plat_brk_same:
  "plat_sys c x m = (r, x', m') \<Longrightarrow> (\<And>p n fl. c \<noteq> Mmap p n fl) \<Longrightarrow> (\<And>n fl. c \<noteq> HvVmAllocate n fl) \<Longrightarrow> brk x' = brk x"
  by (cases c) (auto simp: plat_run_def split: if_splits option.splits prod.splits)

lemma live_event_le:
  "(\<And>p n fl. c \<noteq> Mmap p n fl) \<Longrightarrow> (\<And>n fl. c \<noteq> HvVmAllocate n fl) \<Longrightarrow> live_event (c, r) l \<subseteq> l \<and> fresh_resp g (c, r)"
  by (cases c) auto

lemma brk_grows:
  assumes "unat b + unat n < 2 ^ 64 - 1" "l \<subseteq> {..< unat b}"
  shows "bytes (unat b) n \<inter> l = {}" "l \<union> bytes (unat b) n \<subseteq> {..< unat (b + n)}"
proof -
  have "unat (b + n) = unat b + unat n" using assms(1) unat_add_bound [of b "unat n"] by simp
  then show "bytes (unat b) n \<inter> l = {}" "l \<union> bytes (unat b) n \<subseteq> {..< unat (b + n)}"
    using assms(2) by (auto simp: bytes_def)
qed

lemma fixed_moved: "unat (of_nat (Suc p) :: u64) \<noteq> p"
proof
  have e: "unat (of_nat (Suc p) :: u64) = Suc p mod 2 ^ 64" by (simp only: unat_of_nat) simp
  assume h: "unat (of_nat (Suc p) :: u64) = p"
  then have "p < 2 ^ 64" unfolding e by (metis mod_less_divisor zero_less_numeral zero_less_power)
  then consider "Suc p < 2 ^ 64" | "Suc p = 2 ^ 64" by linarith
  then show False
  proof cases
    case 1
    then show False using h e by simp
  next
    case 2
    then have "p = 0" using h e by (metis mod_self)
    then show False using 2 by simp
  qed
qed

lemma plat_event_fresh:
  assumes "plat_sys c x m = (r, x', m')" "live g \<subseteq> {..< unat (brk x)}"
  shows "fresh_resp g (c, r) \<and> live_event (c, r) (live g) \<subseteq> {..< unat (brk x')}"
proof -
  consider (map) p n fl where "c = Mmap p n fl" | (alloc) n fl where "c = HvVmAllocate n fl"
    | (other) "\<And>p n fl. c \<noteq> Mmap p n fl" "\<And>n fl. c \<noteq> HvVmAllocate n fl" by blast
  then show ?thesis
  proof cases
    case (map p n fl)
    show ?thesis
    proof (cases "MAP_FIXED \<in> set fl")
      case True
      then have "x' = x" "rv r = of_nat (if p + unat n \<le> unat (brk x) then p else Suc p)"
        using assms(1) map by (auto simp: success_def)
      then show ?thesis
        using True assms(2) fixed_moved [of p] map by (cases "p + unat n \<le> unat (brk x)") (auto simp: mmap_ok_def bytes_def)
    next
      case False
      then show ?thesis
        using assms brk_grows [of "brk x" n "live g"] map
        by (cases "unat (brk x) + unat n < 2 ^ 64 - 1") (auto simp: success_def mmap_ok_def)
    qed
  next
    case (alloc n fl)
    then show ?thesis
      using assms brk_grows [of "brk x" n "live g"]
      by (cases "unat (brk x) + unat n < 2 ^ 64 - 1") (auto simp: success_def)
  next
    case other
    then show ?thesis using plat_brk_same [OF assms(1) other] live_event_le [OF other] assms(2) by (metis subset_trans)
  qed
qed

lemma below_brk_step: "below_brk w \<Longrightarrow> world_step plat_kernel w w' \<Longrightarrow> below_brk w'"
proof -
  assume b: "below_brk w" and st: "world_step plat_kernel w w'"
  show ?thesis
  proof (cases "\<exists>c. w' = snd (sys plat_kernel c w)")
    case True
    then obtain c where c: "w' = snd (sys plat_kernel c w)" by blast
    obtain r x' m' where k: "plat_sys c (ext w) (wmem w) = (r, x', m')" by (cases "plat_sys c (ext w) (wmem w)") auto
    have e: "ext w' = x'" "trace w' = trace w @ [(c, r)]" using c k by (simp_all add: sys_def plat_kernel_def)
    show ?thesis
      using plat_event_fresh [OF k, of "ghost_of (trace w)"] b by (simp add: below_brk_def e honest_snoc)
  next
    case False
    then show ?thesis using b st by (auto simp: below_brk_def world_step_def)
  qed
qed

lemma plat_honest:
  assumes "uses plat_kernel f" "below_brk w"
  shows "honest (trace (snd (f w)))"
proof -
  have "below_brk (snd (f w))" using uses_keeps [of plat_kernel f below_brk w] assms below_brk_step by blast
  then show ?thesis unfolding below_brk_def by blast
qed

lemma unat_MAP_FAILED: "unat MAP_FAILED = 2 ^ 64 - 1"
  by (simp add: MAP_FAILED_def unsigned_minus_1_eq_mask mask_eq_exp_minus_1)

lemma boot_vm:
  assumes "code + PAGE \<le> ram" "ram + unat n < 2 ^ 64 - 1"
  shows "vm_state code ram n (ghost_of (trace (boot code ram n c mem)))" (is ?v)
    and "disciplined (trace (boot code ram n c mem))" and "below_brk (boot code ram n c mem)"
proof -
  have u: "unat (of_nat code :: u64) = code" "unat (of_nat ram :: u64) = ram" "unat (of_nat ram + n) = ram + unat n"
    using assms unat_add_bound [of n ram] by (auto simp: unat_of_nat64 add.commute)
  have m: "(of_nat code :: u64) \<noteq> MAP_FAILED" "(of_nat ram :: u64) \<noteq> MAP_FAILED"
    using u(1,2) assms unat_MAP_FAILED by (metis add_leD1 le_add1 le_trans not_less)+
  have ap: "bytes code (of_nat PAGE) \<inter> bytes ram n = {}" using assms by (auto simp: bytes_def)
  have g: "ghost_of (trace (boot code ram n c mem)) = \<lparr>s2 = vm_s2 code ram n, live = bytes ram n \<union> bytes code (of_nat PAGE)\<rparr>"
    by (simp add: ghost_of_def boot_def g_event_def no_ghost_def mmap_ok_def success_def u m vm_s2_def)
  show ?v unfolding g vm_state_def using ap by (simp add: alive_def)
  show "disciplined (trace (boot code ram n c mem))"
    by (simp add: disciplined_def boot_def g_event_def no_ghost_def mmap_ok_def success_def u m alive_def)
  have "honest (trace (boot code ram n c mem))"
    using ap by (simp add: honest_def boot_def g_event_def no_ghost_def mmap_ok_def success_def u m Int_commute)
  moreover have "bytes ram n \<union> bytes code (of_nat PAGE) \<subseteq> {..< ram + unat n}" using assms by (auto simp: bytes_def)
  ultimately show "below_brk (boot code ram n c mem)"
    unfolding below_brk_def g by (simp add: boot_def u)
qed

end
