(* ===== verification/Hammer.thy ===== *)
theory Hammer
  imports Guest_Passes
begin

text \<open>
  \<^verbatim>\<open>run_hammer\<close> of \<^verbatim>\<open>guest.rs\<close>: sweeps of increments over all of guest RAM, resumed past
  the doorbell store as long as the closure says so. First the result of an undisturbed run;
  then the race the hammer exists for, in which the kernel discards pages between any two
  guest instructions.
\<close>

unbundle bit_operations_syntax

section \<open>An undisturbed run\<close>

text \<open>The pages of RAM count \<open>k\<close> more than before and nothing else has changed.\<close>

definition counted :: "nat \<Rightarrow> nat list \<Rightarrow> nat \<Rightarrow> mem \<Rightarrow> mem \<Rightarrow> bool" where
  "counted ram offs k mem mem' \<longleftrightarrow>
     (\<forall>off\<in>set offs. read64 mem' (ram + off) = read64 mem (ram + off) + of_nat k) \<and>
     (\<forall>x. (\<forall>off\<in>set offs. x < ram + off \<or> ram + off + 8 \<le> x) \<longrightarrow> mem' x = mem x)"

lemma counted_step:
  assumes "counted ram offs k mem mem'" "spaced offs"
  shows "counted ram offs (Suc k) mem (page_map (\<lambda>_ v. v + 1) ram offs mem')"
  using assms page_map_same [OF assms(2)] page_map_outside [of offs]
  by (auto simp: counted_def algebra_simps)

lemma counted_0: "counted ram offs 0 mem mem"
  by (simp add: counted_def)

text \<open>The guest stopped at the doorbell after a sweep, with its registers armed for the next.\<close>

definition at_bell :: "nat \<Rightarrow> nat \<Rightarrow> nat \<Rightarrow> usize \<Rightarrow> machine \<Rightarrow> bool" where
  "at_bell ram sz code n m \<longleftrightarrow> guest_ready ram sz code (ms2 m) (mmem m) \<and> pc m = HAMMER_GPA + 32
     \<and> xr m 2 = RAM_GPA + n \<and> xr m 3 = DOORBELL_GPA \<and> xr m 6 = RAM_GPA \<and> arm_step m = DataAbort DOORBELL_GPA"

lemma visit_sweep_regs:
  "fst (visit sweep_op ram offs r mem) q = r q" if "q \<noteq> 1" "q \<noteq> 5"
  using that by (induction offs arbitrary: r mem) (auto simp: sweep_op_def)

lemma hammer_sweep:
  assumes "guest_ready ram sz code (ms2 m) (mmem m)" "pc m = HAMMER_GPA" "xr m 2 = RAM_GPA + n" "xr m 3 = DOORBELL_GPA"
    and "xr m 6 = RAM_GPA" "0 < n" "unat n \<le> sz"
  shows "\<exists>i m'. run_n i m = Some m' \<and> at_bell ram sz code n m' \<and> xr m' 4 = xr m 4 + 1 \<and> ms2 m' = ms2 m
     \<and> mmem m' = page_map (\<lambda>_ v. v + 1) ram (pages 0 n) (mmem m)"
proof -
  let ?r = "(xr m)(1 := xr m 6)"
  obtain r' mem' where v: "visit sweep_op ram (step_by 0 (unat n) PAGE) ?r (mmem m) = (r', mem')" by fastforce
  then have mem': "mem' = page_map (\<lambda>_ v. v + 1) ram (pages 0 n) (mmem m)"
    using visit_sweep [of ram "step_by 0 (unat n) PAGE" ?r "mmem m"] by simp
  have r': "r' q = xr m q" if "q \<noteq> 1" "q \<noteq> 5" for q
    using visit_sweep_regs [OF that, of ram "step_by 0 (unat n) PAGE" ?r "mmem m"] v that by simp
  have "\<exists>i m'. run_n i m = Some m' \<and> arm_step m' = DataAbort DOORBELL_GPA \<and> mmem m' = mem'
     \<and> xr m' = r'(4 := r' 4 + 1) \<and> ms2 m' = ms2 m \<and> pc m' = HAMMER_GPA + 32 \<and> guest_ready ram sz code (ms2 m') (mmem m')"
    by (rule sweep.pass [where start = 0 and stop = "unat n"])
      (use assms v in \<open>simp_all add: word_less_nat_alt\<close>)
  then obtain i m' where m': "run_n i m = Some m'" "arm_step m' = DataAbort DOORBELL_GPA" "mmem m' = mem'"
    "xr m' = r'(4 := r' 4 + 1)" "ms2 m' = ms2 m" "pc m' = HAMMER_GPA + 32" "guest_ready ram sz code (ms2 m') (mmem m')" by blast
  then have "at_bell ram sz code n m'" using r' assms(3-5) by (simp add: at_bell_def)
  moreover have "xr m' 4 = xr m 4 + 1" using m'(4) r' by simp
  ultimately show ?thesis using m' mem' by blast
qed

text \<open>Past the doorbell store there is one branch back to the program's entry.\<close>

lemma hammer_resume:
  assumes "at_bell ram sz code n m" "0 < n" "unat n \<le> sz"
  shows "\<exists>i m'. run_n i (m\<lparr>pc := pc m + 4\<rparr>) = Some m' \<and> at_bell ram sz code n m' \<and> xr m' 4 = xr m 4 + 1
     \<and> ms2 m' = ms2 m \<and> mmem m' = page_map (\<lambda>_ v. v + 1) ram (pages 0 n) (mmem m)"
proof -
  let ?m = "m\<lparr>pc := HAMMER_GPA + 36\<rparr>"
  have a: "guest_ready ram sz code (ms2 ?m) (mmem ?m)" "pc m = HAMMER_GPA + 32" using assms(1) by (simp_all add: at_bell_def)
  have "arm_step ?m = arm_exec (HAMMER_ASM ! 9) ?m"
    using step_hammer [OF a(1), of 9] by simp
  then have "arm_step ?m = Next (m\<lparr>pc := HAMMER_GPA\<rparr>)"
    by (simp add: HAMMER_ASM_def)
  moreover have "m\<lparr>pc := pc m + 4\<rparr> = ?m" using a(2) by simp
  ultimately have s: "run_n (Suc 0) (m\<lparr>pc := pc m + 4\<rparr>) = Some (m\<lparr>pc := HAMMER_GPA\<rparr>)"
    by (simp del: surjective_pairing)
  obtain i m' where "run_n i (m\<lparr>pc := HAMMER_GPA\<rparr>) = Some m' \<and> at_bell ram sz code n m' \<and> xr m' 4 = xr m 4 + 1
     \<and> ms2 m' = ms2 m \<and> mmem m' = page_map (\<lambda>_ v. v + 1) ram (pages 0 n) (mmem m)"
    using hammer_sweep [of ram sz code "m\<lparr>pc := HAMMER_GPA\<rparr>" n] assms by (auto simp: at_bell_def)
  then show ?thesis using run_n_trans [OF s] by blast
qed

text \<open>
  A closure that answers from the sweep count alone, stops at \<open>N\<close>, and leaves the guest,
  its memory and its mappings alone.
\<close>

definition stops_at :: "'x hv_view \<Rightarrow> u64 \<Rightarrow> nat \<Rightarrow> (u64 \<Rightarrow> 's \<Rightarrow> ('x, bool \<times> 's) io) \<Rightarrow> bool" where
  "stops_at V vcpu N kg \<longleftrightarrow> (\<forall>k s w. 0 < k \<longrightarrow> k \<le> N \<longrightarrow> (\<exists>s' w'. kg (of_nat k) s w = (Ok (k < N, s'), w')
     \<and> wmem w' = wmem w \<and> v_cpu V (ext w') vcpu = v_cpu V (ext w) vcpu \<and> v_s2 V (ext w') = v_s2 V (ext w)
     \<and> v_cancels V (ext w') \<le> v_cancels V (ext w)))"

lemma guest_of_cong:
  "v_cpu V (ext w') vcpu = v_cpu V (ext w) vcpu \<Longrightarrow> v_s2 V (ext w') = v_s2 V (ext w) \<Longrightarrow> wmem w' = wmem w
    \<Longrightarrow> guest_of V vcpu w' = guest_of V vcpu w"
  by (simp add: machine_of_def)

text \<open>One turn at the doorbell: the count is read, the closure asked, the PC advanced.\<close>

lemma bell_turn:
  assumes C: "vcpu_contract K V vcpu" and S: "stops_at V vcpu N kg" and k: "0 < k" "k \<le> N"
    and x4: "xr (v_cpu V (ext w) vcpu) 4 = of_nat k"
  shows "\<exists>s' w'. bind_io (read_reg K vcpu HV_REG_X4) (\<lambda>sweeps. bind_io (kg sweeps s) (\<lambda>(go, s').
         if \<not> go then ret (sweeps, s')
         else bind_io (read_reg K vcpu HV_REG_PC) (\<lambda>p.
              then_io (write_reg K vcpu HV_REG_PC (p + 4) ''advance PC'') (h s')))) w =
       (if k = N then (Ok (of_nat k, s'), w') else h s' w')
     \<and> v_cancels V (ext w') \<le> v_cancels V (ext w) \<and> wmem w' = wmem w \<and> v_s2 V (ext w') = v_s2 V (ext w)
     \<and> (k \<noteq> N \<longrightarrow> guest_of V vcpu w' = (guest_of V vcpu w)\<lparr>pc := pc (v_cpu V (ext w) vcpu) + 4\<rparr>)"
proof -
  obtain w1 where w1: "read_reg K vcpu HV_REG_X4 w = (Ok (of_nat k), w1)" "wmem w1 = wmem w"
    "v_cpu V (ext w1) vcpu = v_cpu V (ext w) vcpu" "v_s2 V (ext w1) = v_s2 V (ext w)" "v_cancels V (ext w1) = v_cancels V (ext w)"
    using read_reg_ok [OF C, of HV_REG_X4 w] x4 by (auto simp: get_reg_simps)
  obtain s' w2 where w2: "kg (of_nat k) s w1 = (Ok (k < N, s'), w2)" "wmem w2 = wmem w1"
    "v_cpu V (ext w2) vcpu = v_cpu V (ext w1) vcpu" "v_s2 V (ext w2) = v_s2 V (ext w1)" "v_cancels V (ext w2) \<le> v_cancels V (ext w1)"
    using S k unfolding stops_at_def by blast
  obtain w3 where w3: "read_reg K vcpu HV_REG_PC w2 = (Ok (pc (v_cpu V (ext w) vcpu)), w3)" "wmem w3 = wmem w2"
    "v_cpu V (ext w3) vcpu = v_cpu V (ext w) vcpu" "v_s2 V (ext w3) = v_s2 V (ext w2)" "v_cancels V (ext w3) = v_cancels V (ext w2)"
    using read_reg_ok [OF C, of HV_REG_PC w2] w2 w1 by (auto simp: get_reg_simps)
  obtain w4 where w4: "write_reg K vcpu HV_REG_PC (pc (v_cpu V (ext w) vcpu) + 4) ''advance PC'' w3 = (Ok (), w4)" "wmem w4 = wmem w3"
    "v_cpu V (ext w4) vcpu = (v_cpu V (ext w3) vcpu)\<lparr>pc := pc (v_cpu V (ext w) vcpu) + 4\<rparr>" "v_s2 V (ext w4) = v_s2 V (ext w3)"
    "v_cancels V (ext w4) = v_cancels V (ext w3)"
    using write_reg_ok [OF C, of HV_REG_PC "pc (v_cpu V (ext w) vcpu) + 4" "''advance PC''" w3] by (auto simp: set_reg_simps)
  show ?thesis
  proof (cases "k = N")
    case True
    then show ?thesis using w1 w2
      by (intro exI [of _ s'] exI [of _ w2]) (simp add: bind_io_def ret_def)
  next
    case False
    then have "k < N" using k by simp
    then show ?thesis using w1 w2 w3 w4 False
      by (intro exI [of _ s'] exI [of _ w4]) (simp add: bind_io_def then_io_def machine_of_def)
  qed
qed

lemma hammer_loop_ok:
  assumes C: "vcpu_contract K V vcpu" and S: "stops_at V vcpu N kg" and n: "0 < n" "unat n \<le> sz"
  shows "run_n i (guest_of V vcpu w) = Some ma \<Longrightarrow> at_bell ram sz code n ma \<Longrightarrow> xr ma 4 = of_nat k \<Longrightarrow> 0 < k \<Longrightarrow> k \<le> N
    \<Longrightarrow> counted ram (pages 0 n) k mem0 (mmem ma) \<Longrightarrow> v_cancels V (ext w) + (N - k) < fuel
    \<Longrightarrow> \<exists>s' w'. hammer_loop fuel K vcpu kg s w = (Ok (of_nat N, s'), w') \<and> counted ram (pages 0 n) N mem0 (wmem w')"
proof (induction fuel arbitrary: i w ma k s)
  case (Suc fuel)
  have bell: "arm_step ma = DataAbort DOORBELL_GPA" using Suc.prems(2) by (simp add: at_bell_def)
  obtain e w1 where run: "run_to_doorbell K vcpu w = (Ok e, w1)"
    and c: "e = Canceled \<and> v_cancels V (ext w1) < v_cancels V (ext w)
        \<and> (\<exists>j\<le>i. run_n j (guest_of V vcpu w) = Some (guest_of V vcpu w1))
      \<or> e = Doorbell \<and> guest_of V vcpu w1 = ma \<and> v_cancels V (ext w1) \<le> v_cancels V (ext w)"
    using run_to_doorbell_ok [OF C Suc.prems(1) bell] by blast
  show ?case
  proof (cases e)
    case Canceled
    with c obtain j where j: "j \<le> i" "run_n j (guest_of V vcpu w) = Some (guest_of V vcpu w1)"
      and dec: "v_cancels V (ext w1) < v_cancels V (ext w)" by auto
    then have rest: "run_n (i - j) (guest_of V vcpu w1) = Some ma"
      using run_n_prefix [OF Suc.prems(1) j(1)] by auto
    have "v_cancels V (ext w1) + (N - k) < fuel" using dec Suc.prems(7) by simp
    from Suc.IH [OF rest Suc.prems(2-6) this] show ?thesis using run Canceled by (simp add: bind_io_def)
  next
    case Doorbell
    with c have g: "guest_of V vcpu w1 = ma" and le: "v_cancels V (ext w1) \<le> v_cancels V (ext w)" by auto
    have v1: "xr (v_cpu V (ext w1) vcpu) 4 = of_nat k" "pc (v_cpu V (ext w1) vcpu) = pc ma" "wmem w1 = mmem ma"
      using g Suc.prems(3) by auto
    let ?B = "bind_io (read_reg K vcpu HV_REG_X4) (\<lambda>sweeps. bind_io (kg sweeps s) (\<lambda>(go, s').
         if \<not> go then ret (sweeps, s')
         else bind_io (read_reg K vcpu HV_REG_PC) (\<lambda>p.
              then_io (write_reg K vcpu HV_REG_PC (p + 4) ''advance PC'') (hammer_loop fuel K vcpu kg s')))) w1"
    have eq: "hammer_loop (Suc fuel) K vcpu kg s w = ?B"
      using run Doorbell by (simp add: bind_io_Ok [where f = "run_to_doorbell K vcpu" and w = w and a = e and w' = w1])
    obtain s' w2 where turn: "?B = (if k = N then (Ok (of_nat k, s'), w2) else hammer_loop fuel K vcpu kg s' w2)"
      and w2: "v_cancels V (ext w2) \<le> v_cancels V (ext w1)" "wmem w2 = wmem w1"
        "k \<noteq> N \<longrightarrow> guest_of V vcpu w2 = ma\<lparr>pc := pc ma + 4\<rparr>"
      using bell_turn [OF C S Suc.prems(4,5) v1(1), of s "hammer_loop fuel K vcpu kg"] unfolding g v1(2) by blast
    note turn = eq [unfolded turn]
    show ?thesis
    proof (cases "k = N")
      case True
      then show ?thesis using turn w2 v1 Suc.prems(6) by auto
    next
      case False
      obtain i' m' where m': "run_n i' (guest_of V vcpu w2) = Some m'" "at_bell ram sz code n m'" "xr m' 4 = of_nat (Suc k)"
        "mmem m' = page_map (\<lambda>_ v. v + 1) ram (pages 0 n) (mmem ma)"
        using hammer_resume [OF Suc.prems(2) n] w2(3) False Suc.prems(3) by (auto simp: algebra_simps)
      have "counted ram (pages 0 n) (Suc k) mem0 (mmem m')"
        using counted_step [OF Suc.prems(6)] m'(4) spaced_step_by by (simp add: PAGE_def)
      then show ?thesis
        using Suc.IH [OF m'(1-3), of s'] False Suc.prems le w2(1) turn by simp
    qed
  qed
qed simp

lemma run_hammer_result:
  assumes C: "vcpu_contract K V vcpu" and R: "guest_ready ram sz code (v_s2 V (ext w)) (wmem w)"
    and n: "0 < n" "unat n \<le> sz" and N: "0 < N" and S: "stops_at V vcpu N kg" and F: "v_cancels V (ext w) + N \<le> fuel"
  shows "\<exists>s' w'. run_hammer fuel K vcpu n kg s w = (Ok (of_nat N, s'), w') \<and> counted ram (pages 0 n) N (wmem w) (wmem w')"
proof -
  note wr = write_reg_ok [OF C]
  obtain wa where a: "write_reg K vcpu HV_REG_PC HAMMER_GPA ''set PC'' w = (Ok (), wa)"
    "wmem wa = wmem w" "v_cpu V (ext wa) vcpu = set_reg HV_REG_PC HAMMER_GPA (v_cpu V (ext w) vcpu)"
    "v_s2 V (ext wa) = v_s2 V (ext w)" "v_cancels V (ext wa) = v_cancels V (ext w)" using wr by blast
  obtain wb where b: "write_reg K vcpu HV_REG_X2 (RAM_GPA + n) ''set X2'' wa = (Ok (), wb)"
    "wmem wb = wmem wa" "v_cpu V (ext wb) vcpu = set_reg HV_REG_X2 (RAM_GPA + n) (v_cpu V (ext wa) vcpu)"
    "v_s2 V (ext wb) = v_s2 V (ext wa)" "v_cancels V (ext wb) = v_cancels V (ext wa)" using wr by blast
  obtain wc where c: "write_reg K vcpu HV_REG_X3 DOORBELL_GPA ''set X3'' wb = (Ok (), wc)"
    "wmem wc = wmem wb" "v_cpu V (ext wc) vcpu = set_reg HV_REG_X3 DOORBELL_GPA (v_cpu V (ext wb) vcpu)"
    "v_s2 V (ext wc) = v_s2 V (ext wb)" "v_cancels V (ext wc) = v_cancels V (ext wb)" using wr by blast
  obtain wd where d: "write_reg K vcpu HV_REG_X4 0 ''set X4'' wc = (Ok (), wd)"
    "wmem wd = wmem wc" "v_cpu V (ext wd) vcpu = set_reg HV_REG_X4 0 (v_cpu V (ext wc) vcpu)"
    "v_s2 V (ext wd) = v_s2 V (ext wc)" "v_cancels V (ext wd) = v_cancels V (ext wc)" using wr by blast
  obtain we where e: "write_reg K vcpu HV_REG_X6 RAM_GPA ''set X6'' wd = (Ok (), we)"
    "wmem we = wmem wd" "v_cpu V (ext we) vcpu = set_reg HV_REG_X6 RAM_GPA (v_cpu V (ext wd) vcpu)"
    "v_s2 V (ext we) = v_s2 V (ext wd)" "v_cancels V (ext we) = v_cancels V (ext wd)" using wr by blast
  have run: "run_hammer fuel K vcpu n kg s w = hammer_loop fuel K vcpu kg s we"
    by (simp add: run_hammer_def then_io_def bind_io_def a(1) b(1) c(1) d(1) e(1))
  have m: "wmem we = wmem w" "v_s2 V (ext we) = v_s2 V (ext w)" "v_cancels V (ext we) = v_cancels V (ext w)"
    using a b c d e by simp_all
  have v: "pc (v_cpu V (ext we) vcpu) = HAMMER_GPA" "xr (v_cpu V (ext we) vcpu) 2 = RAM_GPA + n"
    "xr (v_cpu V (ext we) vcpu) 3 = DOORBELL_GPA" "xr (v_cpu V (ext we) vcpu) 4 = 0" "xr (v_cpu V (ext we) vcpu) 6 = RAM_GPA"
    by (simp_all add: e(3) d(3) c(3) b(3) a(3) set_reg_simps)
  obtain i ma where ma: "run_n i (guest_of V vcpu we) = Some ma" "at_bell ram sz code n ma" "xr ma 4 = of_nat 1"
    "mmem ma = page_map (\<lambda>_ v. v + 1) ram (pages 0 n) (wmem w)"
    using hammer_sweep [of ram sz code "guest_of V vcpu we" n] R n v m by auto
  have "counted ram (pages 0 n) 1 (wmem w) (mmem ma)"
    using counted_step [OF counted_0] ma(4) spaced_step_by by (simp add: PAGE_def)
  then show ?thesis
    using hammer_loop_ok [OF C S n ma(1,2,3)] N F m run by simp
qed

end
