(* ===== verification/Guest_Correct.thy ===== *)
theory Guest_Correct
  imports Platform Hammer
begin

text \<open>
  The properties of \<^verbatim>\<open>guest.rs\<close>: what the words of the five programs mean, that the code
  page holds them, and what every pass does to guest RAM. Each is stated for every kernel that
  keeps the vCPU contract and every guest that is ready, and shown on the reference platform.
\<close>

unbundle bit_operations_syntax

text \<open>The reference platform with two pages of RAM and one cancelled run, ready for a pass over both pages.\<close>

lemma two_pages: "\<exists>mem. pass_pre plat_kernel plat_view 0 0x8000 0x8000 0x4000 2 0 0x8000 (boot 0x4000 0x8000 0x8000 1 mem)"
  using platform_ready [where n = "0x8000" and a = 0 and b = "0x8000" and v = 0 and c = 1] unfolding Suc_1
  by (simp add: good_range_def code_defs)

lemma two_page_offsets: "step_by 0 0x8000 PAGE = [0, 0x4000]"
  by (simp add: step_by_def PAGE_def upt_rec)

text \<open>
  C36. \<^verbatim>\<open>write_code_page\<close> leaves all five programs whole at their offsets in the code page
  (none overwrites another), and writes nothing outside that page, whatever the instruction
  cache call does short of changing memory.
\<close>

theorem code_page_holds_programs:
  assumes "\<forall>x m. snd (snd (k_sys K (IcacheInvalidate code (of_nat PAGE)) x m)) = m"
  shows "\<exists>w'. write_code_page K code w = (Ok (), w')
     \<and> holds_code (wmem w') code TOUCH_CODE \<and> holds_code (wmem w') (code + HAMMER_OFF) HAMMER_CODE
     \<and> holds_code (wmem w') (code + READ_OFF) READ_CODE \<and> holds_code (wmem w') (code + VERIFY_OFF) VERIFY_CODE
     \<and> holds_code (wmem w') (code + FILL_OFF) FILL_CODE
     \<and> (\<forall>x. x < code \<or> code + PAGE \<le> x \<longrightarrow> wmem w' x = wmem w x)"
proof -
  have "\<And>x m p x' m'. k_sys K (IcacheInvalidate code (of_nat PAGE)) x m = (p, x', m') \<Longrightarrow> m' = m"
    using assms by (metis snd_conv)
  then show ?thesis using write_code_page_result [of K code w] unfolding code_loaded_def by blast
qed

theorem code_page_holds_programs_witness:
  "\<exists>w'. write_code_page plat_kernel 0x4000 (boot 0x4000 0x8000 0x8000 0 (\<lambda>_. 0)) = (Ok (), w')
     \<and> holds_code (wmem w') (0x4000 + FILL_OFF) FILL_CODE"
  using code_page_holds_programs [where K = plat_kernel and code = "0x4000" and w = "boot 0x4000 0x8000 0x8000 0 (\<lambda>_. 0)"]
  by (auto simp: plat_kernel_def)

text \<open>
  C8. The touch pass: on a ready guest, and with more fuel than runs the framework will still
  cancel, \<^verbatim>\<open>run_touch_range\<close> returns; every page of the range then holds its own guest
  physical address in its first word, and no other byte of the process has changed.
\<close>

theorem touch_range_marks:
  assumes "pass_pre K V vcpu ram sz code fuel start_off end_off w"
  shows "\<exists>w'. run_touch_range fuel K vcpu start_off end_off w = (Ok (), w')
     \<and> (\<forall>off\<in>set (pages start_off end_off). read64 (wmem w') (ram + off) = RAM_GPA + of_nat off)
     \<and> (\<forall>x. (\<forall>off\<in>set (pages start_off end_off). x < ram + off \<or> ram + off + 8 \<le> x) \<longrightarrow> wmem w' x = wmem w x)
     \<and> kept V ram sz code w w'"
proof -
  have sp: "spaced (pages start_off end_off)" by (simp add: spaced_step_by PAGE_def)
  obtain w' where "run_touch_range fuel K vcpu start_off end_off w = (Ok (), w')" "kept V ram sz code w w'"
    "wmem w' = page_map (\<lambda>off _. RAM_GPA + of_nat off) ram (pages start_off end_off) (wmem w)"
    using run_touch_range_result [OF assms] by blast
  then show ?thesis using page_map_same [OF sp] page_map_outside by auto
qed

theorem touch_range_marks_witness:
  "\<exists>mem w'. run_touch_range 2 plat_kernel 0 0 0x8000 (boot 0x4000 0x8000 0x8000 1 mem) = (Ok (), w')
     \<and> read64 (wmem w') 0x8000 = RAM_GPA \<and> read64 (wmem w') 0xC000 = RAM_GPA + 0x4000"
proof -
  obtain mem where "pass_pre plat_kernel plat_view 0 0x8000 0x8000 0x4000 2 0 0x8000 (boot 0x4000 0x8000 0x8000 1 mem)"
    using two_pages by blast
  from touch_range_marks [OF this] show ?thesis by (fastforce simp: two_page_offsets)
qed

text \<open>
  The read pass of \<^verbatim>\<open>--guest-read\<close> returns and changes no byte of memory.
\<close>

theorem read_pass_pure:
  assumes "pass_pre K V vcpu ram sz code fuel 0 ram_size w"
  shows "\<exists>w'. run_read_pass fuel K vcpu ram_size w = (Ok (), w') \<and> wmem w' = wmem w \<and> kept V ram sz code w w'"
  using run_read_pass_result [OF assms] by blast

theorem read_pass_pure_witness:
  "\<exists>mem w'. run_read_pass 2 plat_kernel 0 0x8000 (boot 0x4000 0x8000 0x8000 1 mem) = (Ok (), w') \<and> wmem w' = mem"
proof -
  obtain mem where "pass_pre plat_kernel plat_view 0 0x8000 0x8000 0x4000 2 0 0x8000 (boot 0x4000 0x8000 0x8000 1 mem)"
    using two_pages by blast
  from read_pass_pure [OF this] show ?thesis by (auto simp: boot_def)
qed

text \<open>
  C38. The sweep pass returns and adds one to the first word of every page of the range, modulo
  \<open>2 ^ 64\<close>, and changes nothing else.
\<close>

theorem sweep_range_increments:
  assumes "pass_pre K V vcpu ram sz code fuel start_off end_off w"
  shows "\<exists>w'. run_sweep_range fuel K vcpu start_off end_off w = (Ok (), w')
     \<and> counted ram (pages start_off end_off) 1 (wmem w) (wmem w') \<and> kept V ram sz code w w'"
proof -
  have sp: "spaced (pages start_off end_off)" by (simp add: spaced_step_by PAGE_def)
  obtain w' where "run_sweep_range fuel K vcpu start_off end_off w = (Ok (), w')" "kept V ram sz code w w'"
    "wmem w' = page_map (\<lambda>_ v. v + 1) ram (pages start_off end_off) (wmem w)"
    using run_sweep_range_result [OF assms] by blast
  then show ?thesis using counted_step [OF counted_0 sp] by auto
qed

theorem sweep_range_increments_witness:
  "\<exists>mem w'. run_sweep_range 2 plat_kernel 0 0 0x8000 (boot 0x4000 0x8000 0x8000 1 mem) = (Ok (), w')
     \<and> read64 (wmem w') 0xC000 = read64 mem 0xC000 + 1"
proof -
  obtain mem where "pass_pre plat_kernel plat_view 0 0x8000 0x8000 0x4000 2 0 0x8000 (boot 0x4000 0x8000 0x8000 1 mem)"
    using two_pages by blast
  from sweep_range_increments [OF this] show ?thesis by (fastforce simp: two_page_offsets counted_def boot_def)
qed

text \<open>
  C9. The guest-side checker is exact: \<^verbatim>\<open>run_verify_range\<close> returns the number of pages of
  the range whose first word is not the expected value, and changes no byte of memory.
\<close>

theorem verify_range_exact:
  assumes "pass_pre K V vcpu ram sz code fuel start_off end_off w"
  shows "\<exists>w'. run_verify_range fuel K vcpu start_off end_off expected w =
       (Ok (of_nat (card {off \<in> set (pages start_off end_off). read64 (wmem w) (ram + off) \<noteq> expected})), w')
     \<and> wmem w' = wmem w \<and> kept V ram sz code w w'"
proof -
  have "distinct (pages start_off end_off)" by (simp add: step_by_distinct PAGE_def)
  from distinct_card [OF distinct_filter [OF this, of "\<lambda>off. read64 (wmem w) (ram + off) \<noteq> expected"]]
  show ?thesis using run_verify_range_result [OF assms, of expected] unfolding set_filter by auto
qed

theorem verify_range_exact_witness:
  "\<exists>mem w' n. run_verify_range 2 plat_kernel 0 0 0x8000 7 (boot 0x4000 0x8000 0x8000 1 mem) = (Ok n, w') \<and> wmem w' = mem"
proof -
  obtain mem where "pass_pre plat_kernel plat_view 0 0x8000 0x8000 0x4000 2 0 0x8000 (boot 0x4000 0x8000 0x8000 1 mem)"
    using two_pages by blast
  from verify_range_exact [OF this, where expected = 7] show ?thesis
    by (elim exE conjE, intro exI conjI) (assumption, simp add: boot_def)
qed

text \<open>
  C11. Filling a range and verifying it reports no mismatch: the round trip the soak relies on
  when it takes a reclaimed range back.
\<close>

theorem fill_verify_clean:
  assumes "pass_pre K V vcpu ram sz code fuel start_off end_off w"
  shows "\<exists>w'. then_io (run_fill_range fuel K vcpu start_off end_off value)
       (run_verify_range fuel K vcpu start_off end_off value) w = (Ok 0, w')
     \<and> (\<forall>off\<in>set (pages start_off end_off). read64 (wmem w') (ram + off) = value) \<and> kept V ram sz code w w'"
proof -
  let ?offs = "pages start_off end_off"
  have sp: "spaced ?offs" by (simp add: spaced_step_by PAGE_def)
  obtain w1 where w1: "run_fill_range fuel K vcpu start_off end_off value w = (Ok (), w1)" "kept V ram sz code w w1"
    "wmem w1 = page_map (\<lambda>_ _. value) ram ?offs (wmem w)" using run_fill_range_result [OF assms] by blast
  have rd: "\<forall>off\<in>set ?offs. read64 (wmem w1) (ram + off) = value" using page_map_same [OF sp] w1(3) by simp
  have "pass_pre K V vcpu ram sz code fuel start_off end_off w1" using assms w1(2) by (auto simp: window_pre_def kept_in_def)
  then obtain w2 where "run_verify_range fuel K vcpu start_off end_off value w1 =
       (Ok (of_nat (length (filter (\<lambda>off. read64 (wmem w1) (ram + off) \<noteq> value) ?offs))), w2)"
     "kept V ram sz code w1 w2" "wmem w2 = wmem w1" using run_verify_range_result by blast
  moreover have "filter (\<lambda>off. read64 (wmem w1) (ram + off) \<noteq> value) ?offs = []" using rd by (simp add: filter_empty_conv)
  ultimately show ?thesis using w1 rd by (auto simp: then_io_def bind_io_def kept_in_def)
qed

theorem fill_verify_clean_witness:
  "\<exists>mem w'. then_io (run_fill_range 2 plat_kernel 0 0 0x8000 42) (run_verify_range 2 plat_kernel 0 0 0x8000 42)
       (boot 0x4000 0x8000 0x8000 1 mem) = (Ok 0, w') \<and> read64 (wmem w') 0xC000 = 42"
proof -
  obtain mem where "pass_pre plat_kernel plat_view 0 0x8000 0x8000 0x4000 2 0 0x8000 (boot 0x4000 0x8000 0x8000 1 mem)"
    using two_pages by blast
  from fill_verify_clean [OF this, of 42] show ?thesis by (fastforce simp: two_page_offsets)
qed

text \<open>
  C10. An undisturbed hammer run whose closure stops it after \<open>N\<close> sweeps returns \<open>N\<close>, with fuel
  for the sweeps and the cancelled runs, and every page of guest RAM has been incremented
  exactly \<open>N\<close> times: resuming past the doorbell store neither skips nor repeats a sweep.
\<close>

theorem hammer_counts:
  assumes "vcpu_contract K V vcpu" and "guest_ready ram sz code (v_s2 V (ext w)) (wmem w)"
    and "0 < ram_size" "unat ram_size \<le> sz" and "0 < N" "stops_at V vcpu N kg" "v_cancels V (ext w) + N \<le> fuel"
  shows "\<exists>s' w'. run_hammer fuel K vcpu ram_size kg s w = (Ok (of_nat N, s'), w')
     \<and> counted ram (pages 0 ram_size) N (wmem w) (wmem w')"
  using run_hammer_result [OF assms] .

theorem hammer_counts_witness:
  "\<exists>mem w'. run_hammer 4 plat_kernel 0 0x8000 (\<lambda>n s. ret (n < 3, s)) () (boot 0x4000 0x8000 0x8000 1 mem) = (Ok (3, ()), w')
     \<and> read64 (wmem w') 0xC000 = read64 mem 0xC000 + 3"
proof -
  obtain mem where p: "pass_pre plat_kernel plat_view 0 0x8000 0x8000 0x4000 2 0 0x8000 (boot 0x4000 0x8000 0x8000 1 mem)"
    using two_pages by blast
  have "stops_at plat_view 0 3 (\<lambda>n s. ret (n < 3, s :: unit))"
    unfolding stops_at_def by (auto simp: ret_def word_less_nat_alt unat_of_nat)
  with p have "\<exists>s' w'. run_hammer 4 plat_kernel 0 0x8000 (\<lambda>n s. ret (n < 3, s)) () (boot 0x4000 0x8000 0x8000 1 mem) = (Ok (of_nat 3, s'), w')
     \<and> counted 0x8000 (pages 0 0x8000) 3 (wmem (boot 0x4000 0x8000 0x8000 1 mem)) (wmem w')"
    by (intro hammer_counts [where V = plat_view and sz = "0x8000" and code = "0x4000"])
      (simp_all add: window_pre_def boot_def plat_view_def)
  then show ?thesis by (fastforce simp: two_page_offsets counted_def boot_def)
qed

end
