(* ===== verification/Host_Correct.thy ===== *)
theory Host_Correct
  imports Platform
begin

text \<open>
  The properties of the \<^verbatim>\<open>ledger\<close> crate and of the host side of \<^verbatim>\<open>hv-reclaim\<close>: the
  command line, the ledger reading, the canary, the pressure generator, and the discipline of
  the reclaim sequences.
\<close>

unbundle bit_operations_syntax

section \<open>Command line\<close>

text \<open>
  C27. What \<^verbatim>\<open>parse_args\<close> makes of a command line: it accepts a line, with the options \<open>opts\<close>, exactly
  when the line is a sequence of the documented groups (a flag, or an option and its value), \<open>opts\<close>
  is what the groups say one after the other, a later one overriding an earlier one and what is not
  said being the default, and the result satisfies the combination rules the code enforces. These are
  not quite the ones it announces: the message of the last assertion says that \<^verbatim>\<open>--extent-kb\<close>,
  \<^verbatim>\<open>--steady-state\<close> and \<^verbatim>\<open>--reclaim-mode\<close> only apply to \<^verbatim>\<open>--time-reclaim\<close> and \<^verbatim>\<open>--soak\<close>, but they are
  accepted with \<^verbatim>\<open>--fleet-sim\<close> and \<^verbatim>\<open>--alloc-shape\<close> too.
\<close>

theorem parse_args_exact:
  "parse_args args = Ok opts \<longleftrightarrow>
     (\<exists>ss gs. args = concat gs \<and> list_all2 arg_group ss gs \<and> opts = fold put_setting ss default_options \<and> valid_options opts)"
proof
  assume p: "parse_args args = Ok opts"
  then obtain o1 where o1: "parse_loop default_options args = Ok o1" "validate o1 = Ok opts"
    by (auto simp: parse_args_def split: outcome.splits)
  then show "\<exists>ss gs. args = concat gs \<and> list_all2 arg_group ss gs \<and> opts = fold put_setting ss default_options \<and> valid_options opts"
    using parse_args_valid [OF p] by (auto simp: parse_loop_groups validate_Ok_iff)
next
  assume "\<exists>ss gs. args = concat gs \<and> list_all2 arg_group ss gs \<and> opts = fold put_setting ss default_options \<and> valid_options opts"
  then show "parse_args args = Ok opts"
    using parse_loop_groups [of default_options args opts] by (auto simp: parse_args_def validate_Ok_iff valid_options_def)
qed

section \<open>Ledger\<close>

text \<open>
  Below 8 PiB the footprint delta the experiments print is exact and antisymmetric: the
  conversion through \<^verbatim>\<open>f64\<close> loses nothing and the sign is right in both directions.
\<close>

theorem delta_mib_exact:
  assumes "after < 2 ^ 53" "before < 2 ^ 53"
  shows "delta_mib after before = (of_int (uint after) - of_int (uint before)) / 2 ^ 20
    \<and> delta_mib before after = - delta_mib after before"
proof -
  have b: "0 \<le> uint after" "uint after < 2 ^ 53" "0 \<le> uint before" "uint before < 2 ^ 53"
    using assms by (auto simp: word_less_def)
  have f: "f64_of_int (uint after) = uint after" "f64_of_int (uint before) = uint before"
    using b by (auto intro!: f64_of_int_exact)
  have d: "f64_of_int (uint after - uint before) = uint after - uint before"
    "f64_of_int (uint before - uint after) = uint before - uint after"
    by (rule f64_of_int_exact; use b in linarith)+
  show ?thesis unfolding delta_mib_def f d by (simp add: diff_divide_distrib)
qed

theorem delta_mib_exact_witness: "delta_mib 0x40000000 0xC0000000 = - 2048"
  using delta_mib_exact [of "0x40000000" "0xC0000000"] by simp

section \<open>Canary\<close>

text \<open>
  C12. The canary is an exact detector. After arming over a kernel whose \<^verbatim>\<open>MADV_FREE\<close> does
  not itself touch the memory, suppose that by the time of the survey exactly the pages in
  \<open>D\<close> read zero and the others are as armed. Then the survey reports \<open>card D\<close> discarded pages:
  no discarded page is missed and no surviving page is counted, because no marker is zero.
\<close>

theorem canary_exact:
  assumes "arm K gib w = (Ok c, w1)"
    and "\<forall>p len x m. snd (snd (k_sys K (Madvise p len MADV_FREE) x m)) = m"
    and "D \<subseteq> set (step_by 0 (unat (canary_size c)) PAGE)"
    and "\<forall>off\<in>set (step_by 0 (unat (canary_size c)) PAGE). read64 (wmem w2) (canary_ptr c + off) =
       (if off \<in> D then 0 else read64 (wmem w1) (canary_ptr c + off))"
  shows "survey c w2 = (Ok \<lparr>discarded = of_nat (card D), total = canary_size c div of_nat PAGE\<rparr>, w2)"
proof -
  let ?offs = "step_by 0 (unat (canary_size c)) PAGE"
  obtain m where m: "wmem w1 = page_map (\<lambda>off _. marker off) (canary_ptr c) ?offs m"
    using arm_memory [OF assms(1,2)] by blast
  have mk: "read64 (wmem w1) (canary_ptr c + off) = marker off" if "off \<in> set ?offs" for off
    using mark_pages_read [OF that] unfolding m .
  have "bad_pages (wmem w2) (canary_ptr c) (canary_size c) (\<lambda>off v. v \<noteq> PATTERN XOR of_nat off) = D"
    unfolding bad_pages_def using assms(3,4) mk marker_nonzero
    by (auto simp: marker_def [symmetric] split: if_splits)
  then show ?thesis by (simp add: survey_def bind_io_def count_pages_result ret_def)
qed

lemma plat_arm:
  "\<exists>c w1. arm plat_kernel 1 (boot 0x4000 0x8000 0x8000 0 mem) = (Ok c, w1) \<and> canary_size c = 0x40000000"
  by (simp add: arm_def Let_def bind_io_def then_io_def assert_io_def mark_pages_result ret_def sys_def plat_kernel_def
      boot_def success_def MAP_FAILED_def)

lemma plat_madvise: "\<forall>p len x m. snd (snd (k_sys plat_kernel (Madvise p len MADV_FREE) x m)) = m"
  by (simp add: plat_kernel_def)

theorem canary_exact_witness:
  "\<exists>c w1. arm plat_kernel 1 (boot 0x4000 0x8000 0x8000 0 (\<lambda>_. 0)) = (Ok c, w1) \<and>
     survey c (w1\<lparr>wmem := write64 (wmem w1) (canary_ptr c) 0\<rparr>) =
       (Ok \<lparr>discarded = 1, total = 0x10000\<rparr>, w1\<lparr>wmem := write64 (wmem w1) (canary_ptr c) 0\<rparr>)"
proof -
  obtain c w1 where a: "arm plat_kernel 1 (boot 0x4000 0x8000 0x8000 0 (\<lambda>_. 0)) = (Ok c, w1)" "canary_size c = 0x40000000"
    using plat_arm by blast
  let ?w2 = "w1\<lparr>wmem := write64 (wmem w1) (canary_ptr c) 0\<rparr>"
  have "survey c ?w2 = (Ok \<lparr>discarded = of_nat (card {0::nat}), total = canary_size c div of_nat PAGE\<rparr>, ?w2)"
  proof (rule canary_exact [OF a(1) plat_madvise])
    show "{0} \<subseteq> set (step_by 0 (unat (canary_size c)) PAGE)" by (simp add: a(2) set_step_by)
    have far: "off = 0 \<or> 8 \<le> off" if "off mod PAGE = 0" for off :: nat
      using dvd_imp_le [of PAGE off] that by (cases "off = 0") (simp_all add: mod_eq_0_iff_dvd PAGE_def)
    have rd: "read64 (write64 (wmem w1) (canary_ptr c) 0) (canary_ptr c + off) =
       (if off = 0 then 0 else read64 (wmem w1) (canary_ptr c + off))" if "off mod PAGE = 0" for off
      using far [OF that] by (auto intro: read64_write64_other)
    then show "\<forall>off\<in>set (step_by 0 (unat (canary_size c)) PAGE). read64 (wmem ?w2) (canary_ptr c + off) =
       (if off \<in> {0} then 0 else read64 (wmem w1) (canary_ptr c + off))"
      by (simp add: set_step_by)
  qed
  then show ?thesis using a by (auto simp: PAGE_def)
qed

text \<open>
  The verdict of a survey is sound: it never reports more discarded pages than there are,
  and it is conclusive exactly when at least half the canary's pages no longer read back; the
  doubling in \<^verbatim>\<open>conclusive\<close> cannot wrap.
\<close>

theorem canary_verdict:
  assumes "PAGE dvd unat (canary_size c)"
  shows "\<exists>v. survey c w = (Ok v, w) \<and> unat (discarded v) \<le> unat (total v) \<and> unat (total v) * PAGE = unat (canary_size c)
    \<and> (conclusive v \<longleftrightarrow> unat (canary_size c) div PAGE \<le>
        2 * card {off \<in> set (step_by 0 (unat (canary_size c)) PAGE). read64 (wmem w) (canary_ptr c + off) \<noteq> marker off})"
proof -
  let ?B = "{off \<in> set (step_by 0 (unat (canary_size c)) PAGE). read64 (wmem w) (canary_ptr c + off) \<noteq> marker off}"
  let ?t = "canary_size c div of_nat PAGE"
  have t: "unat ?t = unat (canary_size c) div PAGE" by (simp add: unat_div)
  have "unat (canary_size c) div PAGE < 2 ^ 63"
    using unat_lt64 [of "canary_size c"] by (simp add: PAGE_def less_mult_imp_div_less)
  moreover have le: "card ?B \<le> unat (canary_size c) div PAGE"
    using bad_pages_le [of "wmem w" "canary_ptr c" "canary_size c" "\<lambda>off v. v \<noteq> marker off"] page_count [OF assms]
    by (simp add: bad_pages_def)
  ultimately have u: "unat (of_nat (card ?B) :: usize) = card ?B" "unat (of_nat (card ?B) * 2 :: usize) = 2 * card ?B"
    using unat_of_nat64 [of "card ?B"] unat_of_nat64 [of "card ?B * 2"] by simp_all
  have "survey c w = (Ok \<lparr>discarded = of_nat (card ?B), total = ?t\<rparr>, w)"
    by (simp add: survey_def bind_io_def count_pages_result ret_def bad_pages_def marker_def)
  then show ?thesis using u t le assms
    by (intro exI [of _ "\<lparr>discarded = of_nat (card ?B), total = ?t\<rparr>"]) (simp add: conclusive_def word_le_nat_alt)
qed

theorem canary_verdict_witness:
  "\<exists>v. survey \<lparr>canary_ptr = 0x4000, canary_size = 0x40000000\<rparr> (boot 0x4000 0x8000 0x8000 0 (\<lambda>_. 0)) =
     (Ok v, boot 0x4000 0x8000 0x8000 0 (\<lambda>_. 0)) \<and> unat (total v) * PAGE = 0x40000000"
  using canary_verdict [of "\<lparr>canary_ptr = 0x4000, canary_size = 0x40000000\<rparr>" "boot 0x4000 0x8000 0x8000 0 (\<lambda>_. 0)"]
  by (auto simp: PAGE_def)

section \<open>Pressure\<close>

text \<open>
  C13. \<^verbatim>\<open>pressure::apply\<close> never leaks a generator process and never waits for one that is not killed.
  On an error no child is left that was not there before. A guard is handed out only for a child
  that was started with the amount asked for and whose first line was HOLDING; that child is then the
  one more child alive, and dropping its guard kills it, reaps it and leaves the children that were
  there before. Every wait comes right after the kill of the same child. (Reading the line and
  waiting are calls that are answered; how long they block is not part of the model.)
\<close>

theorem apply_pressure_no_leak:
  "\<exists>r w' es. apply_pressure K gb w = (Ok r, w') \<and> trace w' = trace w @ es \<and> killed_first es
   \<and> (case r of Inl _ \<Rightarrow> live_children (trace w') = live_children (trace w)
      | Inr pid \<Rightarrow> live_children (trace w') = pid # live_children (trace w) \<and> k_line K (ext w') = Some (Inl ''HOLDING'')
         \<and> (\<exists>c. (SpawnGenerator gb, c) \<in> set es \<and> rc c = 0 \<and> rv c = pid)
         \<and> (\<exists>w'' p q. drop_guard K pid w' = (Ok (), w'') \<and> trace w'' = trace w' @ [(Kill pid, p), (WaitChild pid, q)]
              \<and> live_children (trace w'') = live_children (trace w)))"
proof -
  obtain r w' es where a: "apply_pressure K gb w = (Ok r, w')" "trace w' = trace w @ es" "killed_first es"
    "case r of Inl _ \<Rightarrow> live_children (trace w') = live_children (trace w)
      | Inr pid \<Rightarrow> live_children (trace w') = pid # live_children (trace w) \<and> k_line K (ext w') = Some (Inl ''HOLDING'')
         \<and> (\<exists>c. (SpawnGenerator gb, c) \<in> set es \<and> rc c = 0 \<and> rv c = pid)"
    using apply_pressure_result [of K gb w] by blast
  have "\<exists>w'' p q. drop_guard K pid w' = (Ok (), w'') \<and> trace w'' = trace w' @ [(Kill pid, p), (WaitChild pid, q)]
      \<and> live_children (trace w'') = live_children (trace w)" if "r = Inr pid" for pid
  proof -
    obtain p q w'' where d: "drop_guard K pid w' = (Ok (), w'')" "trace w'' = trace w' @ [(Kill pid, p), (WaitChild pid, q)]"
      using drop_guard_trace by blast
    have "live_children (trace w'') = remove1 pid (live_children (trace w'))" unfolding d(2) live_children_append by simp
    then have "live_children (trace w'') = live_children (trace w)" using a(4) that by simp
    then show ?thesis using d by blast
  qed
  then show ?thesis using a by (cases r) auto
qed

text \<open>
  The generator child announces HOLDING exactly once, whatever \<^verbatim>\<open>mmap\<close> answers, and
  holds at most the requested number of chunks. In particular HOLDING does not say that all of
  the pressure was built up.
\<close>

theorem generator_announces:
  "n < 2 ^ 64 \<Longrightarrow> \<exists>held w'. maybe_run_generator K (Some (show_nat n)) w = (Ok (Some held), w')
     \<and> length held \<le> n \<and> stdout w' = stdout w @ [Line ''HOLDING'' []]"
proof -
  assume n: "n < 2 ^ 64"
  obtain held w1 where "dirty_chunks n K [] w = (Ok ([] @ held), w1)" "length held \<le> n" "stdout w1 = stdout w"
    using dirty_chunks_result by blast
  then show ?thesis
    using parse_u64_show [OF n] unat_of_nat64 [OF n]
    by (intro exI [of _ held] exI [of _ "w1\<lparr>stdout := stdout w1 @ [Line ''HOLDING'' []]\<rparr>"])
      (simp add: maybe_run_generator_def bind_io_def then_io_def println_def ret_def)
qed

theorem generator_announces_witness:
  "\<exists>held w'. maybe_run_generator plat_kernel (Some ''48'') (boot 0x4000 0x8000 0x8000 0 (\<lambda>_. 0)) = (Ok (Some held), w')
     \<and> length held \<le> 48 \<and> stdout w' = [Line ''HOLDING'' []]"
proof -
  have "show_nat 48 = ''48''" by code_simp
  moreover have "stdout (boot 0x4000 0x8000 0x8000 0 (\<lambda>_. 0)) = []" by (simp add: boot_def)
  ultimately show ?thesis using generator_announces [of 48 plat_kernel "boot 0x4000 0x8000 0x8000 0 (\<lambda>_. 0)"] by simp
qed

end
