(* ===== verification/Hammer_Race.thy ===== *)
theory Hammer_Race
  imports Hammer
begin

text \<open>
  The race of \<^verbatim>\<open>--hammer\<close>: the guest executes the hammer program of \<^verbatim>\<open>guest.rs\<close>, the host
  resumes it past the doorbell store, and between any two of these steps the kernel may
  discard a page of guest RAM, which then reads zero. The state keeps, beside the machine, how
  many sweeps are complete and which pages were discarded at a moment when no load of them
  was in flight.
\<close>

unbundle bit_operations_syntax

record race =
  vm :: machine
  sweeps :: nat
  lost :: "nat set"

abbreviation ram_pages :: "nat \<Rightarrow> nat set" where
  "ram_pages sz \<equiv> set (step_by 0 sz PAGE)"

definition zero_page :: "nat \<Rightarrow> mem \<Rightarrow> mem" where
  "zero_page p mem = (\<lambda>x. if p \<le> x \<and> x < p + PAGE then 0 else mem x)"

text \<open>Between the \<^verbatim>\<open>ldr\<close> and the \<^verbatim>\<open>str\<close> of a page's increment.\<close>

definition in_window :: "machine \<Rightarrow> nat \<Rightarrow> bool" where
  "in_window m off \<longleftrightarrow> (pc m = HAMMER_GPA + 8 \<or> pc m = HAMMER_GPA + 12) \<and> xr m 1 = RAM_GPA + of_nat off"

inductive race_step :: "nat \<Rightarrow> nat \<Rightarrow> race \<Rightarrow> race \<Rightarrow> bool" for ram sz where
  guest: "arm_step (vm r) = Next m \<Longrightarrow>
    race_step ram sz r (r\<lparr>vm := m, sweeps := (if pc (vm r) = HAMMER_GPA + 28 then Suc (sweeps r) else sweeps r)\<rparr>)"
| resume: "arm_step (vm r) = DataAbort DOORBELL_GPA \<Longrightarrow>
    race_step ram sz r (r\<lparr>vm := (vm r)\<lparr>pc := pc (vm r) + 4\<rparr>\<rparr>)"
| discard: "off \<in> ram_pages sz \<Longrightarrow>
    race_step ram sz r (r\<lparr>vm := (vm r)\<lparr>mmem := zero_page (ram + off) (mmem (vm r))\<rparr>,
      lost := (if in_window (vm r) off then lost r else insert off (lost r))\<rparr>)"

definition race_start :: "nat \<Rightarrow> nat \<Rightarrow> nat \<Rightarrow> race \<Rightarrow> bool" where
  "race_start ram sz code r \<longleftrightarrow> guest_ready ram sz code (ms2 (vm r)) (mmem (vm r)) \<and> PAGE dvd sz \<and> 0 < sz
     \<and> pc (vm r) = HAMMER_GPA \<and> xr (vm r) 2 = RAM_GPA + of_nat sz \<and> xr (vm r) 3 = DOORBELL_GPA
     \<and> xr (vm r) 4 = 0 \<and> xr (vm r) 6 = RAM_GPA \<and> sweeps r = 0 \<and> lost r = {}
     \<and> (\<forall>off\<in>ram_pages sz. read64 (mmem (vm r)) (ram + off) = RAM_GPA + of_nat off)"

section \<open>The invariant\<close>

definition base_ok :: "nat \<Rightarrow> nat \<Rightarrow> nat \<Rightarrow> machine \<Rightarrow> nat \<Rightarrow> bool" where
  "base_ok ram sz code m k \<longleftrightarrow> guest_ready ram sz code (ms2 m) (mmem m) \<and> PAGE dvd sz \<and> 0 < sz
     \<and> xr m 2 = RAM_GPA + of_nat sz \<and> xr m 3 = DOORBELL_GPA \<and> xr m 4 = of_nat k \<and> xr m 6 = RAM_GPA"

text \<open>Where the program is: the instruction, and the page of the current round.\<close>

definition loc :: "nat \<Rightarrow> nat \<Rightarrow> nat \<Rightarrow> machine \<Rightarrow> bool" where
  "loc sz i cur m \<longleftrightarrow> pc m = HAMMER_GPA + of_nat (i * 4) \<and>
     (i \<in> {1, 2, 3, 4} \<longrightarrow> cur \<in> ram_pages sz \<and> xr m 1 = RAM_GPA + of_nat cur) \<and>
     (i \<in> {5, 6} \<longrightarrow> cur \<in> ram_pages sz \<and> xr m 1 = RAM_GPA + of_nat (cur + PAGE)) \<and>
     (i = 6 \<longrightarrow> (cond_holds 3 (cpsr m) \<longleftrightarrow> cur + PAGE < sz))"

text \<open>Whether a page has had its increment in the sweep under way.\<close>

definition swept :: "nat \<Rightarrow> nat \<Rightarrow> nat \<Rightarrow> nat" where
  "swept i cur off = (if i \<in> {1, 2, 3} then of_bool (off < cur)
     else if i \<in> {4, 5, 6} then of_bool (off \<le> cur) else of_bool (i = 7))"

text \<open>The count of a page: in memory, or in flight in x5.\<close>

definition page_val :: "nat \<Rightarrow> nat \<Rightarrow> nat \<Rightarrow> machine \<Rightarrow> nat \<Rightarrow> u64" where
  "page_val ram i cur m off = (if i = 2 \<and> off = cur then xr m 5
     else if i = 3 \<and> off = cur then xr m 5 - 1 else read64 (mmem m) (ram + off))"

text \<open>A page never lost holds its address plus its increments; a lost one counts from zero.\<close>

definition tracks :: "nat set \<Rightarrow> nat \<Rightarrow> nat \<Rightarrow> u64 \<Rightarrow> bool" where
  "tracks L off n v \<longleftrightarrow> (if off \<in> L then \<exists>j\<le>n. v = of_nat j else v = RAM_GPA + of_nat off + of_nat n)"

definition race_inv :: "nat \<Rightarrow> nat \<Rightarrow> nat \<Rightarrow> race \<Rightarrow> bool" where
  "race_inv ram sz code r \<longleftrightarrow> base_ok ram sz code (vm r) (sweeps r) \<and>
     (\<exists>i cur. i < 10 \<and> loc sz i cur (vm r) \<and>
        (\<forall>off\<in>ram_pages sz. tracks (lost r) off (sweeps r + swept i cur off) (page_val ram i cur (vm r) off)))"

lemma tracks_Suc: "tracks L off s v \<Longrightarrow> tracks L off (Suc s) (v + 1)"
  unfolding tracks_def by (auto simp: algebra_simps) (metis Suc_le_mono of_nat_Suc add.commute)

lemma ram_pages_facts:
  assumes "PAGE dvd sz" "off \<in> ram_pages sz"
  shows "PAGE dvd off" "8 dvd off" "off < sz" "off + PAGE \<le> sz"
proof -
  show o: "PAGE dvd off" "off < sz" using assms(2) by (auto simp: set_step_by mod_eq_0_iff_dvd)
  show "8 dvd off" using o(1) dvd_trans [of 8 PAGE off] by (simp add: PAGE_def)
  obtain i j where ij: "off = PAGE * i" "sz = PAGE * j" using o(1) assms(1) by (auto simp: dvd_def)
  then have "i < j" using o(2) by simp
  then have "PAGE * Suc i \<le> PAGE * j" by (intro mult_le_mono2) simp
  then show "off + PAGE \<le> sz" using ij by simp
qed

lemma ram_pages_I: "PAGE dvd off \<Longrightarrow> off < sz \<Longrightarrow> off \<in> ram_pages sz"
  by (simp add: set_step_by)

lemma ram_pages_apart:
  assumes "PAGE dvd sz" "a \<in> ram_pages sz" "b \<in> ram_pages sz" "a < b"
  shows "a + PAGE \<le> b"
proof -
  obtain i j where ij: "a = PAGE * i" "b = PAGE * j"
    using ram_pages_facts(1) [OF assms(1,2)] ram_pages_facts(1) [OF assms(1,3)] by (auto simp: dvd_def)
  then have "i < j" using assms(4) by simp
  then have "PAGE * Suc i \<le> PAGE * j" by (intro mult_le_mono2) simp
  then show ?thesis using ij by simp
qed

lemma ram_word_inj:
  assumes "guest_ready ram sz code s2 mem" "a \<le> sz" "b \<le> sz" "RAM_GPA + of_nat a = RAM_GPA + of_nat b"
  shows "a = b"
proof -
  have "unat RAM_GPA + a < 2 ^ 64" "unat RAM_GPA + b < 2 ^ 64" using assms by (auto simp: guest_window_def PAGE_def)
  then show ?thesis using assms(4) unat_add_bound by (metis add_left_cancel)
qed

lemma ram_word_less:
  assumes "guest_ready ram sz code s2 mem" "a < sz + PAGE" "b \<le> sz"
  shows "RAM_GPA + of_nat a < RAM_GPA + of_nat b \<longleftrightarrow> a < b"
proof -
  have "unat RAM_GPA + a < 2 ^ 64" "unat RAM_GPA + b < 2 ^ 64" using assms by (auto simp: guest_window_def PAGE_def)
  then show ?thesis by (simp only: word_less_nat_alt unat_add_bound) simp
qed

section \<open>Preservation\<close>

lemmas loc_defs = base_ok_def loc_def

lemma hammer_step:
  assumes "base_ok ram sz code m k" "i < 10" "loc sz i cur m"
  shows "arm_step m = arm_exec (HAMMER_ASM ! i) m"
  using step_hammer assms by (auto simp: loc_defs)

text \<open>What the guest does from each instruction; only the doorbell store stops it.\<close>

lemma hammer_next:
  assumes "base_ok ram sz code m k" "loc sz i cur m"
  shows "i = 0 \<Longrightarrow> arm_step m = Next (m\<lparr>pc := HAMMER_GPA + 4, xr := (xr m)(1 := RAM_GPA)\<rparr>)"
    and "i = 1 \<Longrightarrow> arm_step m = Next (m\<lparr>pc := HAMMER_GPA + 8, xr := (xr m)(5 := read64 (mmem m) (ram + cur))\<rparr>)"
    and "i = 2 \<Longrightarrow> arm_step m = Next (m\<lparr>pc := HAMMER_GPA + 12, xr := (xr m)(5 := xr m 5 + 1)\<rparr>)"
    and "i = 3 \<Longrightarrow> arm_step m = Next (m\<lparr>pc := HAMMER_GPA + 16, mmem := write64 (mmem m) (ram + cur) (xr m 5)\<rparr>)"
    and "i = 4 \<Longrightarrow> arm_step m = Next (m\<lparr>pc := HAMMER_GPA + 20, xr := (xr m)(1 := RAM_GPA + of_nat (cur + PAGE))\<rparr>)"
    and "i = 5 \<Longrightarrow> arm_step m = Next (m\<lparr>pc := HAMMER_GPA + 24, cpsr := sub_flags (xr m 1) (xr m 2) (cpsr m)\<rparr>)"
    and "i = 6 \<Longrightarrow> arm_step m = Next (m\<lparr>pc := (if cur + PAGE < sz then HAMMER_GPA + 4 else HAMMER_GPA + 28)\<rparr>)"
    and "i = 7 \<Longrightarrow> arm_step m = Next (m\<lparr>pc := HAMMER_GPA + 32, xr := (xr m)(4 := xr m 4 + 1)\<rparr>)"
    and "i = 8 \<Longrightarrow> arm_step m = DataAbort DOORBELL_GPA"
    and "i = 9 \<Longrightarrow> arm_step m = Next (m\<lparr>pc := HAMMER_GPA\<rparr>)"
proof -
  have R: "guest_ready ram sz code (ms2 m) (mmem m)" and x: "xr m 3 = DOORBELL_GPA" "xr m 6 = RAM_GPA"
    using assms(1) by (simp_all add: base_ok_def)
  have pg: "PAGE dvd sz" using assms(1) by (simp add: base_ok_def)
  have c: "cur \<in> ram_pages sz \<and> xr m 1 = RAM_GPA + of_nat cur" if "i \<in> {1, 2, 3, 4}"
    using assms(2) that by (simp only: loc_def simp_thms)
  have cur: "8 dvd cur" "cur < sz" "xr m 1 = RAM_GPA + of_nat cur" if "i \<in> {1, 2, 3, 4}"
    using c [OF that] ram_pages_facts(2,3) [OF pg] by blast+
  have st: "i < 10 \<Longrightarrow> arm_step m = arm_exec (HAMMER_ASM ! i) m" using hammer_step [OF assms(1) _ assms(2)] .
  have p: "pc m = HAMMER_GPA + of_nat (i * 4)" using assms(2) by (simp add: loc_def)
  show "i = 0 \<Longrightarrow> arm_step m = Next (m\<lparr>pc := HAMMER_GPA + 4, xr := (xr m)(1 := RAM_GPA)\<rparr>)"
    using st p x by (simp add: HAMMER_ASM_def exec_simps)
  show "i = 1 \<Longrightarrow> arm_step m = Next (m\<lparr>pc := HAMMER_GPA + 8, xr := (xr m)(5 := read64 (mmem m) (ram + cur))\<rparr>)"
    using st p cur R by (simp add: HAMMER_ASM_def exec_simps)
  show "i = 2 \<Longrightarrow> arm_step m = Next (m\<lparr>pc := HAMMER_GPA + 12, xr := (xr m)(5 := xr m 5 + 1)\<rparr>)"
    using st p by (simp add: HAMMER_ASM_def exec_simps)
  show "i = 3 \<Longrightarrow> arm_step m = Next (m\<lparr>pc := HAMMER_GPA + 16, mmem := write64 (mmem m) (ram + cur) (xr m 5)\<rparr>)"
    using st p cur R by (simp add: HAMMER_ASM_def exec_simps)
  show "i = 4 \<Longrightarrow> arm_step m = Next (m\<lparr>pc := HAMMER_GPA + 20, xr := (xr m)(1 := RAM_GPA + of_nat (cur + PAGE))\<rparr>)"
    using st p cur by (simp add: HAMMER_ASM_def exec_simps algebra_simps)
  show "i = 5 \<Longrightarrow> arm_step m = Next (m\<lparr>pc := HAMMER_GPA + 24, cpsr := sub_flags (xr m 1) (xr m 2) (cpsr m)\<rparr>)"
    using st p by (simp add: HAMMER_ASM_def exec_simps)
  show "i = 6 \<Longrightarrow> arm_step m = Next (m\<lparr>pc := (if cur + PAGE < sz then HAMMER_GPA + 4 else HAMMER_GPA + 28)\<rparr>)"
    using st p assms(2) by (simp add: HAMMER_ASM_def exec_simps loc_def)
  show "i = 7 \<Longrightarrow> arm_step m = Next (m\<lparr>pc := HAMMER_GPA + 32, xr := (xr m)(4 := xr m 4 + 1)\<rparr>)"
    using st p by (simp add: HAMMER_ASM_def exec_simps)
  show "i = 8 \<Longrightarrow> arm_step m = DataAbort DOORBELL_GPA"
    using st x R by (simp add: HAMMER_ASM_def exec_simps)
  show "i = 9 \<Longrightarrow> arm_step m = Next (m\<lparr>pc := HAMMER_GPA\<rparr>)"
    using st p by (simp add: HAMMER_ASM_def exec_simps)
qed

text \<open>The invariant at a known location.\<close>

definition inv_at :: "nat \<Rightarrow> nat \<Rightarrow> nat \<Rightarrow> nat set \<Rightarrow> nat \<Rightarrow> nat \<Rightarrow> nat \<Rightarrow> machine \<Rightarrow> bool" where
  "inv_at ram sz code L k i cur m \<longleftrightarrow> base_ok ram sz code m k \<and> i < 10 \<and> loc sz i cur m \<and>
     (\<forall>off\<in>ram_pages sz. tracks L off (k + swept i cur off) (page_val ram i cur m off))"

lemma race_inv_iff: "race_inv ram sz code r \<longleftrightarrow> (\<exists>i cur. inv_at ram sz code (lost r) (sweeps r) i cur (vm r))"
  by (auto simp: race_inv_def inv_at_def)

lemma index_cases: "i < 10 \<Longrightarrow> i \<in> {0, 1, 2, 3, 4, 5, 6, 7, 8, 9::nat}"
  by auto

lemma store_tracks:
  assumes "inv_at ram sz code L k 3 cur m" "off \<in> ram_pages sz"
  shows "tracks L off (k + swept 4 cur off) (read64 (write64 (mmem m) (ram + cur) (xr m 5)) (ram + off))"
proof -
  have c: "PAGE dvd sz" "cur \<in> ram_pages sz" using assms(1) by (simp_all add: inv_at_def loc_defs)
  have t: "tracks L off (k + swept 3 cur off) (page_val ram 3 cur m off)" using assms by (simp add: inv_at_def)
  show ?thesis
  proof (cases "off = cur")
    case True
    then show ?thesis using tracks_Suc [OF t] by (simp add: swept_def page_val_def)
  next
    case False
    then have "off + PAGE \<le> cur \<or> cur + PAGE \<le> off"
      using ram_pages_apart [OF c(1) assms(2) c(2)] ram_pages_apart [OF c assms(2)] by linarith
    then have "read64 (write64 (mmem m) (ram + cur) (xr m 5)) (ram + off) = read64 (mmem m) (ram + off)"
      by (intro read64_write64_other) (auto simp: PAGE_def)
    moreover have "swept 4 cur off = swept 3 cur off" using False by (auto simp: swept_def)
    ultimately show ?thesis using t False by (simp add: page_val_def)
  qed
qed

lemma inv_move:
  assumes "inv_at ram sz code L k i cur m" "base_ok ram sz code m' k'" "i' < 10" "loc sz i' cur' m'"
    and "\<And>off. off \<in> ram_pages sz \<Longrightarrow> k' + swept i' cur' off = k + swept i cur off"
    and "\<And>off. off \<in> ram_pages sz \<Longrightarrow> page_val ram i' cur' m' off = page_val ram i cur m off"
  shows "inv_at ram sz code L k' i' cur' m'"
  using assms by (simp add: inv_at_def)

lemma inv_atD:
  assumes "inv_at ram sz code L k i cur m"
  shows "base_ok ram sz code m k" "i < 10" "loc sz i cur m" "guest_ready ram sz code (ms2 m) (mmem m)"
    "PAGE dvd sz" "0 < sz" "xr m 2 = RAM_GPA + of_nat sz" "pc m = HAMMER_GPA + of_nat (i * 4)"
  using assms by (auto simp: inv_at_def loc_defs)

text \<open>The steps that do more than move on: the store, the comparison and the loop branch.\<close>

lemma inv_store:
  assumes I: "inv_at ram sz code L k 3 cur m" and s: "arm_step m = Next m'"
  shows "inv_at ram sz code L k 4 cur m'"
proof -
  note D = inv_atD [OF I]
  have m': "m' = m\<lparr>pc := HAMMER_GPA + 16, mmem := write64 (mmem m) (ram + cur) (xr m 5)\<rparr>"
    using hammer_next(4) [OF D(1,3)] s by simp
  have "cur \<in> ram_pages sz" using D(3) by (simp add: loc_def)
  then have "cur + 8 \<le> sz" using ram_pages_facts(4) [OF D(5)] by (force simp: PAGE_def)
  then have "base_ok ram sz code m' k" "loc sz 4 cur m'"
    using D(1,3) guest_window_write64 [OF D(4)] by (simp_all add: m' loc_defs)
  then show ?thesis using store_tracks [OF I] by (simp add: m' inv_at_def page_val_def)
qed

lemma inv_compare:
  assumes I: "inv_at ram sz code L k 5 cur m" and s: "arm_step m = Next m'"
  shows "inv_at ram sz code L k 6 cur m'"
proof -
  note D = inv_atD [OF I]
  have m': "m' = m\<lparr>pc := HAMMER_GPA + 24, cpsr := sub_flags (xr m 1) (xr m 2) (cpsr m)\<rparr>"
    using hammer_next(6) [OF D(1,3)] s by simp
  have c: "cur \<in> ram_pages sz" "xr m 1 = RAM_GPA + of_nat (cur + PAGE)" using D(3) by (simp_all add: loc_def)
  have "cur + PAGE < sz + PAGE" using ram_pages_facts(3) [OF D(5) c(1)] by simp
  then have "xr m 1 < xr m 2 \<longleftrightarrow> cur + PAGE < sz" using ram_word_less [OF D(4), of "cur + PAGE" sz] c(2) D(7) by simp
  then have "loc sz 6 cur m'" using c by (simp add: m' loc_def)
  moreover have "base_ok ram sz code m' k" using D(1) by (simp add: m' base_ok_def)
  ultimately show ?thesis by (intro inv_move [OF I]) (simp_all add: m' swept_def page_val_def)
qed

lemma inv_branch:
  assumes I: "inv_at ram sz code L k 6 cur m" and s: "arm_step m = Next m'"
  shows "\<exists>i' cur'. inv_at ram sz code L k i' cur' m'"
proof -
  note D = inv_atD [OF I]
  have m': "m' = m\<lparr>pc := (if cur + PAGE < sz then HAMMER_GPA + 4 else HAMMER_GPA + 28)\<rparr>"
    using hammer_next(7) [OF D(1,3)] s by simp
  have c: "cur \<in> ram_pages sz" "xr m 1 = RAM_GPA + of_nat (cur + PAGE)" using D(3) by (simp_all add: loc_def)
  have le: "off \<le> cur \<longleftrightarrow> off < cur + PAGE" if "off \<in> ram_pages sz" for off
    using ram_pages_apart [OF D(5) c(1) that] by (cases "cur < off") (auto simp: PAGE_def)
  have B: "base_ok ram sz code m' k" using D(1) by (simp add: m' base_ok_def)
  show ?thesis
  proof (cases "cur + PAGE < sz")
    case True
    have "cur + PAGE \<in> ram_pages sz" using True ram_pages_facts(1) [OF D(5) c(1)] by (intro ram_pages_I) simp_all
    then have "loc sz 1 (cur + PAGE) m'" using c True by (simp add: m' loc_def)
    then have "inv_at ram sz code L k 1 (cur + PAGE) m'"
      by (intro inv_move [OF I B]) (simp_all add: m' swept_def page_val_def le)
    then show ?thesis by blast
  next
    case False
    have "off \<le> cur" if "off \<in> ram_pages sz" for off using le [OF that] ram_pages_facts(3) [OF D(5) that] False by simp
    moreover have "loc sz 7 cur m'" using False by (simp add: m' loc_def)
    ultimately have "inv_at ram sz code L k 7 cur m'"
      by (intro inv_move [OF I B]) (simp_all add: m' swept_def page_val_def)
    then show ?thesis by blast
  qed
qed

lemma inv_guest:
  assumes I: "inv_at ram sz code L k i cur m" and s: "arm_step m = Next m'"
  shows "\<exists>i' cur'. inv_at ram sz code L (if pc m = HAMMER_GPA + 28 then Suc k else k) i' cur' m'"
proof -
  note D = inv_atD [OF I]
  note nx = hammer_next [OF D(1,3)]
  have z: "0 \<in> ram_pages sz" using D(5,6) by (intro ram_pages_I) simp_all
  from index_cases [OF D(2)] consider "i = 0" | "i = 1" | "i = 2" | "i = 3" | "i = 4" | "i = 5" | "i = 6" | "i = 7" | "i = 8" | "i = 9"
    by auto
  then show ?thesis
  proof cases
    case 1
    have "inv_at ram sz code L k 1 0 m'"
      by (rule inv_move [OF I]) (use nx(1) [OF 1] s D(1) z 1 in \<open>simp_all add: loc_defs swept_def page_val_def\<close>)
    then show ?thesis using D(8) 1 by auto
  next
    case 2
    have "inv_at ram sz code L k 2 cur m'"
      by (rule inv_move [OF I]) (use nx(2) [OF 2] s D(1,3) 2 in \<open>simp_all add: loc_defs swept_def page_val_def\<close>)
    then show ?thesis using D(8) 2 by auto
  next
    case 3
    have "inv_at ram sz code L k 3 cur m'"
      by (rule inv_move [OF I]) (use nx(3) [OF 3] s D(1,3) 3 in \<open>simp_all add: loc_defs swept_def page_val_def\<close>)
    then show ?thesis using D(8) 3 by auto
  next
    case 4
    then show ?thesis using inv_store [OF I [unfolded 4] s] D(8) by auto
  next
    case 5
    have "inv_at ram sz code L k 5 cur m'"
      by (rule inv_move [OF I]) (use nx(5) [OF 5] s D(1,3) 5 in \<open>simp_all add: loc_defs swept_def page_val_def\<close>)
    then show ?thesis using D(8) 5 by auto
  next
    case 6
    then show ?thesis using inv_compare [OF I [unfolded 6] s] D(8) by auto
  next
    case 7
    then show ?thesis using inv_branch [OF I [unfolded 7] s] D(8) by auto
  next
    case 8
    have "inv_at ram sz code L (Suc k) 8 cur m'"
      by (rule inv_move [OF I]) (use nx(8) [OF 8] s D(1,3) 8 in \<open>simp_all add: loc_defs swept_def page_val_def algebra_simps\<close>)
    then show ?thesis using D(8) 8 by auto
  next
    case 9
    then show ?thesis using nx(9) s by simp
  next
    case 10
    have "inv_at ram sz code L k 0 cur m'"
      by (rule inv_move [OF I]) (use nx(10) [OF 10] s D(1,3) 10 in \<open>simp_all add: loc_defs swept_def page_val_def\<close>)
    then show ?thesis using D(8) 10 by auto
  qed
qed

lemma inv_resume:
  assumes I: "inv_at ram sz code L k i cur m" and s: "arm_step m = DataAbort DOORBELL_GPA"
  shows "inv_at ram sz code L k 9 cur (m\<lparr>pc := pc m + 4\<rparr>)"
proof -
  note D = inv_atD [OF I]
  have "i = 8" using hammer_next [OF D(1,3)] s index_cases [OF D(2)] by auto
  then show ?thesis
    by (intro inv_move [OF I]) (use D(1,3) in \<open>simp_all add: loc_defs swept_def page_val_def\<close>)
qed

section \<open>Discards\<close>

lemma zero_page_read: "read64 (zero_page p mem) p = 0"
  by (rule read64_zero) (simp add: zero_page_def PAGE_def)

lemma zero_page_other:
  "a + 8 \<le> p \<or> p + PAGE \<le> a \<Longrightarrow> read64 (zero_page p mem) a = read64 mem a"
  by (rule read64_cong) (auto simp: zero_page_def)

lemma zero_page_code: "code + PAGE \<le> p \<or> p + PAGE \<le> code \<Longrightarrow> code_loaded code (zero_page p mem) = code_loaded code mem"
proof -
  assume h: "code + PAGE \<le> p \<or> p + PAGE \<le> code"
  have "read32 (zero_page p mem) a = read32 mem a" if "code \<le> a" "a + 4 \<le> code + PAGE" for a
    by (rule read32_cong) (use that h in \<open>auto simp: zero_page_def\<close>)
  then show ?thesis by (simp add: code_loaded_def holds_code_def code_defs)
qed

lemma zero_page_ready:
  assumes "guest_ready ram sz code s2 mem" "PAGE dvd sz" "off \<in> ram_pages sz"
  shows "guest_ready ram sz code s2 (zero_page (ram + off) mem)"
proof -
  have "code + PAGE \<le> ram + off \<or> ram + off + PAGE \<le> code"
    using assms(1) ram_pages_facts(4) [OF assms(2,3)] by (auto simp: guest_window_def)
  then show ?thesis using assms(1) by (simp add: guest_window_def zero_page_code)
qed

lemma in_window_iff:
  assumes "inv_at ram sz code L k i cur m" "off \<in> ram_pages sz"
  shows "in_window m off \<longleftrightarrow> (i = 2 \<or> i = 3) \<and> off = cur"
proof -
  note D = inv_atD [OF assms(1)]
  have pc: "(pc m = HAMMER_GPA + 8 \<or> pc m = HAMMER_GPA + 12) \<longleftrightarrow> i = 2 \<or> i = 3"
    using D(8) index_cases [OF D(2)] by auto
  have "xr m 1 = RAM_GPA + of_nat cur \<and> cur \<in> ram_pages sz" if "i = 2 \<or> i = 3" using D(3) that by (auto simp: loc_def)
  then show ?thesis
    using pc ram_word_inj [OF D(4)] ram_pages_facts(3) [OF D(5)] assms(2) unfolding in_window_def
    by (metis less_imp_le)
qed

lemma inv_discard:
  assumes I: "inv_at ram sz code L k i cur m" and off: "off \<in> ram_pages sz"
  shows "inv_at ram sz code (if in_window m off then L else insert off L) k i cur (m\<lparr>mmem := zero_page (ram + off) (mmem m)\<rparr>)"
    (is "inv_at _ _ _ ?L _ _ _ ?m")
proof -
  note D = inv_atD [OF I]
  have "tracks ?L o1 (k + swept i cur o1) (page_val ram i cur ?m o1)" if o1: "o1 \<in> ram_pages sz" for o1
  proof -
    have t: "tracks L o1 (k + swept i cur o1) (page_val ram i cur m o1)" using I o1 by (simp add: inv_at_def)
    show ?thesis
    proof (cases "o1 = off")
      case True
      then show ?thesis
        using t in_window_iff [OF I off] zero_page_read [of "ram + off" "mmem m"]
        by (auto simp: page_val_def tracks_def)
    next
      case False
      then have "o1 + PAGE \<le> off \<or> off + PAGE \<le> o1"
        using ram_pages_apart [OF D(5) o1 off] ram_pages_apart [OF D(5) off o1] by linarith
      then have "read64 (zero_page (ram + off) (mmem m)) (ram + o1) = read64 (mmem m) (ram + o1)"
        by (intro zero_page_other) (auto simp: PAGE_def)
      then have "page_val ram i cur ?m o1 = page_val ram i cur m o1" by (simp add: page_val_def)
      moreover have "o1 \<in> ?L \<longleftrightarrow> o1 \<in> L" using False by simp
      ultimately show ?thesis using t by (simp only: tracks_def)
    qed
  qed
  then show ?thesis
    using D zero_page_ready [OF D(4,5) off] by (simp add: inv_at_def loc_defs)
qed

section \<open>Reachable states\<close>

lemma race_inv_step:
  assumes "race_inv ram sz code r" "race_step ram sz r r'"
  shows "race_inv ram sz code r'"
proof -
  obtain i cur where I: "inv_at ram sz code (lost r) (sweeps r) i cur (vm r)" using assms(1) race_inv_iff by blast
  from assms(2) show ?thesis
  proof cases
    case (guest m)
    then show ?thesis using inv_guest [OF I guest(2)] by (simp add: race_inv_iff)
  next
    case resume
    then show ?thesis using inv_resume [OF I resume(2)] by (auto simp: race_inv_iff)
  next
    case (discard off)
    have "inv_at ram sz code (lost r') (sweeps r') i cur (vm r')"
      using inv_discard [OF I discard(2)] by (simp add: discard(1) split del: if_split)
    then show ?thesis unfolding race_inv_iff by blast
  qed
qed

lemma race_inv_start: "race_start ram sz code r \<Longrightarrow> race_inv ram sz code r"
  unfolding race_inv_iff
  by (intro exI [of _ 0] exI [of _ 0])
    (auto simp: inv_at_def loc_defs race_start_def swept_def page_val_def tracks_def)

lemma race_inv_reach: "(race_step ram sz)\<^sup>*\<^sup>* r r' \<Longrightarrow> race_inv ram sz code r \<Longrightarrow> race_inv ram sz code r'"
  by (induction rule: rtranclp_induct) (auto intro: race_inv_step)

text \<open>Stopped at the doorbell, every page's count is in memory.\<close>

lemma race_at_bell:
  assumes "race_inv ram sz code r" "arm_step (vm r) = DataAbort DOORBELL_GPA" "off \<in> ram_pages sz"
  shows "tracks (lost r) off (sweeps r) (read64 (mmem (vm r)) (ram + off))" "xr (vm r) 4 = of_nat (sweeps r)"
    and "guest_ready ram sz code (ms2 (vm r)) (mmem (vm r))" "PAGE dvd sz"
proof -
  obtain i cur where I: "inv_at ram sz code (lost r) (sweeps r) i cur (vm r)" using assms(1) race_inv_iff by blast
  note D = inv_atD [OF I]
  have "i = 8" using hammer_next [OF D(1,3)] assms(2) index_cases [OF D(2)] by auto
  then show "tracks (lost r) off (sweeps r) (read64 (mmem (vm r)) (ram + off))"
    using I assms(3) by (auto simp: inv_at_def swept_def page_val_def)
  show "xr (vm r) 4 = of_nat (sweeps r)" "guest_ready ram sz code (ms2 (vm r)) (mmem (vm r))" "PAGE dvd sz"
    using D by (simp_all add: base_ok_def)
qed

text \<open>A count from zero cannot reach an address plus the same count.\<close>

lemma tracks_exact:
  assumes "tracks L off n v" "unat RAM_GPA + off + n < 2 ^ 64"
  shows "v = RAM_GPA + of_nat off + of_nat n \<longleftrightarrow> off \<notin> L"
proof -
  have "RAM_GPA + of_nat off + of_nat n = RAM_GPA + of_nat (off + n)" by simp
  then have e: "unat (RAM_GPA + of_nat off + of_nat n) = unat RAM_GPA + (off + n)"
    using unat_add_bound [of RAM_GPA "off + n"] assms(2) by (metis add.assoc)
  have "of_nat j \<noteq> RAM_GPA + of_nat off + of_nat n" if "j \<le> n" for j
  proof
    assume h: "of_nat j = RAM_GPA + of_nat off + of_nat n"
    have "unat (of_nat j :: u64) = j" using that assms(2) by (intro unat_of_nat64) simp
    then show False using e that unfolding h by (simp add: RAM_GPA_def)
  qed
  then show ?thesis using assms(1) by (auto simp: tracks_def split: if_splits)
qed

end
