(* ===== verification/Calls.thy ===== *)
theory Calls
  imports Pressure
begin

text \<open>
  Effects by the calls they make: what every call of a kind keeps, an effect made of such calls
  keeps however it ends, also when it panics half-way.
\<close>

definition calls_only :: "(call \<Rightarrow> bool) \<Rightarrow> ('x, 'a) io \<Rightarrow> bool" where
  "calls_only P f \<longleftrightarrow> (\<forall>w. \<exists>es. trace (snd (f w)) = trace w @ es \<and> list_all (\<lambda>e. P (fst e)) es)"

named_theorems calls_intros \<open>which calls an effect makes\<close>

lemma calls_local: "(\<And>w. trace (snd (f w)) = trace w) \<Longrightarrow> calls_only P f"
  by (auto simp: calls_only_def intro: exI [of _ "[]"])

lemma calls_ret [calls_intros]: "calls_only P (ret a)" "calls_only P (throw p)" "calls_only P out_of_fuel"
    "calls_only P (println fmt args)" "calls_only P (load64 p1)" "calls_only P (store64 p2 v)" "calls_only P (assert_io b msg)"
    "calls_only P (check r what)" "calls_only P (read_exit K vcpu)"
  by (rule calls_local; simp add: io_defs out_of_fuel_def read_exit_def)+

lemma calls_bind [calls_intros]:
  assumes "calls_only P f" "\<And>a. calls_only P (h a)"
  shows "calls_only P (bind_io f h)"
  unfolding calls_only_def
proof
  fix w :: "'a world"
  obtain r w1 where f: "f w = (r, w1)" by fastforce
  obtain es where es: "trace w1 = trace w @ es" "list_all (\<lambda>e. P (fst e)) es"
    using assms(1) [unfolded calls_only_def, rule_format, of w] f by auto
  have "\<exists>es'. trace (snd (h a w1)) = trace w @ es' \<and> list_all (\<lambda>e. P (fst e)) es'" for a
  proof -
    obtain es' where "trace (snd (h a w1)) = trace w1 @ es'" "list_all (\<lambda>e. P (fst e)) es'"
      using assms(2) [unfolded calls_only_def, rule_format, of a w1] by blast
    then show ?thesis using es by (intro exI [of _ "es @ es'"]) simp
  qed
  then show "\<exists>es. trace (snd (bind_io f h w)) = trace w @ es \<and> list_all (\<lambda>e. P (fst e)) es"
    using es f by (cases r) (auto simp: bind_io_def)
qed

lemma calls_then [calls_intros]: "calls_only P f \<Longrightarrow> calls_only P h \<Longrightarrow> calls_only P (then_io f h)"
  unfolding then_io_def by (rule calls_bind)

lemma calls_sys: "P c \<Longrightarrow> calls_only P (sys K c)"
  unfolding calls_only_def sys_def by (auto split: prod.splits)

lemma calls_check_sys: "P c \<Longrightarrow> calls_only P (check_sys K c what)" "P c \<Longrightarrow> calls_only P (sys_ignore K c)"
  unfolding check_sys_def sys_ignore_def by (intro calls_intros calls_sys; simp)+

lemma calls_when [calls_intros]: "calls_only P f \<Longrightarrow> calls_only P (when_io b f)"
  by (simp add: when_io_def calls_intros)

lemma calls_fold [calls_intros]: "(\<And>i a. calls_only P (f i a)) \<Longrightarrow> calls_only P (fold_io is f a)"
  by (induction "is" arbitrary: a) (auto intro!: calls_intros)

lemma calls_guest [calls_intros]:
  assumes "\<And>c. quiet c \<Longrightarrow> P c"
  shows "calls_only P (write_reg K v r a what)" "calls_only P (read_reg K v r)" "calls_only P (run_to_doorbell K v)"
  unfolding write_reg_def read_reg_def run_to_doorbell_def Let_def
  by (auto intro!: calls_intros calls_sys calls_check_sys assms)

lemma calls_pass_loop: "(\<And>c. quiet c \<Longrightarrow> P c) \<Longrightarrow> calls_only P (pass_loop fuel K v)"
  by (induction fuel) (auto intro!: calls_intros split: guest_exit.splits)

lemma calls_run_pass [calls_intros]: "(\<And>c. quiet c \<Longrightarrow> P c) \<Longrightarrow> calls_only P (run_pass fuel K v e a b)"
  unfolding run_pass_def by (intro calls_then calls_guest calls_pass_loop)

lemma calls_passes [calls_intros]:
  assumes "\<And>c. quiet c \<Longrightarrow> P c"
  shows "calls_only P (run_sweep_range fuel K v a b)" "calls_only P (run_fill_range fuel K v a b u)"
    "calls_only P (run_verify_range fuel K v a b u)"
proof -
  show "calls_only P (run_sweep_range fuel K v a b)" unfolding run_sweep_range_def
    by (intro calls_then calls_guest calls_run_pass assms)
  show "calls_only P (run_fill_range fuel K v a b u)" unfolding run_fill_range_def
    by (intro calls_then calls_guest calls_run_pass assms)
  show "calls_only P (run_verify_range fuel K v a b u)" unfolding run_verify_range_def
    by (intro calls_then calls_guest calls_run_pass assms)
qed

lemma calls_ledger_read [calls_intros]: "(\<And>c. quiet c \<Longrightarrow> P c) \<Longrightarrow> calls_only P (ledger_read K)"
  unfolding ledger_read_def Let_def by (intro calls_bind calls_sys calls_then calls_ret, simp, rule calls_local) simp

text \<open>What every call keeps of the ghost state, an effect keeps however it ends.\<close>

lemma calls_keep:
  assumes "calls_only P f" "R (ghost_of (trace w))" "\<And>c r g. P c \<Longrightarrow> R g \<Longrightarrow> R (g_event (c, r) g)"
  shows "R (ghost_of (trace (snd (f w))))"
proof -
  obtain es where es: "trace (snd (f w)) = trace w @ es" "list_all (\<lambda>e. P (fst e)) es"
    using assms(1) by (auto simp: calls_only_def)
  have "list_all (\<lambda>e. P (fst e)) es \<Longrightarrow> R (fold g_event es g)" if "R g" for g
    using that by (induction es arbitrary: g) (auto simp: assms(3))
  then show ?thesis using assms(2) es by (simp add: ghost_of_def)
qed

lemma calls_onlyD: "calls_only P f \<Longrightarrow> f w = (r, w') \<Longrightarrow> \<exists>es. trace w' = trace w @ es \<and> list_all (\<lambda>e. P (fst e)) es"
  unfolding calls_only_def by (metis snd_conv)

end
