(* ===== verification/Threads.thy ===== *)
theory Threads
  imports Timing Calls
begin

text \<open>
  A second thread beside the main one, as the sampler threads of the fleet runs are: a body that is
  repeated until the main thread says stop. The main thread is a list of operations; between them
  the other thread takes as many rounds as the schedule says, which is a parameter, as the
  operating system's scheduler is. A thread's panic stays in the thread, and the result of its
  \<^verbatim>\<open>join\<close> is discarded.
\<close>

definition in_thread :: "('x, 'a) io \<Rightarrow> ('x, 'a option) io" where
  "in_thread f = (\<lambda>w. case f w of (Ok a, w') \<Rightarrow> (Ok (Some a), w') | (Panic p, w') \<Rightarrow> (Ok None, w') | (OutOfFuel, w') \<Rightarrow> (OutOfFuel, w'))"

primrec rounds_of :: "nat \<Rightarrow> ('x, unit) io \<Rightarrow> bool \<Rightarrow> ('x, bool) io" where
  "rounds_of 0 body up = ret up"
| "rounds_of (Suc n) body up =
     (if up then bind_io (in_thread body) (\<lambda>r. rounds_of n body (r \<noteq> None)) else ret False)"

definition next_rounds :: "nat list \<Rightarrow> nat" where
  "next_rounds pace = (case pace of [] \<Rightarrow> 0 | n # _ \<Rightarrow> n)"

primrec beside :: "('x, unit) io \<Rightarrow> ('x, unit) io list \<Rightarrow> nat list \<Rightarrow> bool \<Rightarrow> ('x, bool) io" where
  "beside body [] pace up = rounds_of (next_rounds pace) body up"
| "beside body (f # fs) pace up =
     bind_io (rounds_of (next_rounds pace) body up) (\<lambda>up'. then_io f (beside body fs (tl pace) up'))"

section \<open>Discipline\<close>

lemma in_thread_world: "snd (in_thread f w) = snd (f w)"
  by (simp add: in_thread_def split: prod.split outcome.split)

text \<open>A thread: what any end of it leaves, and its result on success.\<close>

lemma safe_in_thread:
  assumes "safe K g f Q" "\<And>w. ghost_of (trace w) = g \<Longrightarrow> R (ghost_of (trace (snd (f w))))"
  shows "safe K g (in_thread f) (\<lambda>r g'. R g' \<and> (\<forall>a. r = Some a \<longrightarrow> Q a g'))"
proof -
  have r: "fst (in_thread f w) = Ok x \<Longrightarrow> x = Some a \<Longrightarrow> fst (f w) = Ok a" for w x a
    by (auto simp: in_thread_def split: prod.splits outcome.splits)
  have u: "uses K (in_thread f)" using safe_uses [OF assms(1)] by (simp add: uses_def in_thread_world)
  have "R (ghost_of (trace (snd (f w)))) \<and> (\<forall>a. x = Some a \<longrightarrow> Q a (ghost_of (trace (snd (f w)))))"
    if "honest (trace (snd (f w)))" "disciplined (trace w)" "ghost_of (trace w) = g" "fst (in_thread f w) = Ok x" for w x
    using r [OF that(4)] assms(2) [OF that(3)] assms(1) that(1-3) by (auto simp: safe_def)
  then show ?thesis using assms(1) u unfolding safe_def in_thread_world by blast
qed

lemma quiet_calls_ghost: "calls_only quiet f \<Longrightarrow> ghost_of (trace (snd (f w))) = ghost_of (trace w)"
  by (erule calls_keep [where R = "\<lambda>g. g = ghost_of (trace w)"]) (simp_all add: quiet_event)

lemma safe_rounds:
  assumes "keeps_s2 K g body" "calls_only quiet body"
  shows "keeps_s2 K g (rounds_of n body up)"
proof (induction n arbitrary: up)
  case (Suc n)
  have "keeps_s2 K g (in_thread body)"
    by (rule safe_weaken [OF safe_in_thread [OF assms(1), where R = "\<lambda>g'. g' = g"]]) (auto simp: quiet_calls_ghost [OF assms(2)])
  then show ?case using Suc by (auto intro!: safe_bind_keep safe_ret)
qed (auto intro: safe_ret)

lemma uses_in_thread [uses_intros]: "uses K f \<Longrightarrow> uses K (in_thread f)"
  by (simp add: uses_def in_thread_world)

lemma uses_rounds [uses_intros]: "uses K body \<Longrightarrow> uses K (rounds_of n body up)"
  by (induction n arbitrary: up) (auto intro!: uses_intros)

lemma uses_beside [uses_intros]: "uses K body \<Longrightarrow> (\<And>f. f \<in> set fs \<Longrightarrow> uses K f) \<Longrightarrow> uses K (beside body fs pace up)"
  by (induction fs arbitrary: pace up) (auto intro!: uses_intros)

text \<open>A main thread whose operations lead from one ghost state to the next.\<close>

primrec leads :: "'x kernel \<Rightarrow> ghost \<Rightarrow> ('x, unit) io list \<Rightarrow> (ghost \<Rightarrow> bool) \<Rightarrow> bool" where
  "leads K g [] P = P g"
| "leads K g (f # fs) P = (\<exists>R. safe K g f (\<lambda>_. R) \<and> (\<forall>g'. R g' \<longrightarrow> leads K g' fs P))"

lemma leads_append: "leads K g fs R \<Longrightarrow> (\<And>g'. R g' \<Longrightarrow> leads K g' fs' P) \<Longrightarrow> leads K g (fs @ fs') P"
  by (induction fs arbitrary: g) (simp, metis append_Cons leads.simps(2))

lemma leads_step: "safe K g f (\<lambda>_. R) \<Longrightarrow> (\<And>g'. R g' \<Longrightarrow> leads K g' fs P) \<Longrightarrow> leads K g (f # fs) P"
  by auto

lemma leads_keep: "keeps_s2 K g f \<Longrightarrow> leads K g fs P \<Longrightarrow> leads K g (f # fs) P"
  by (auto intro!: exI [of _ "\<lambda>g'. g' = g"])

lemma leads_concat:
  "(\<And>i. i \<in> set is \<Longrightarrow> leads K g (h i) (\<lambda>g'. g' = g)) \<Longrightarrow> leads K g (concat (map h is)) (\<lambda>g'. g' = g)"
  by (induction "is") (auto intro!: leads_append)

lemma safe_beside:
  assumes "\<And>g. keeps_s2 K g body" "calls_only quiet body" "\<And>f. f \<in> set fs \<Longrightarrow> uses K f" "leads K g fs P"
  shows "safe K g (beside body fs pace up) (\<lambda>_. P)"
  using assms(3,4)
proof (induction fs arbitrary: g pace up)
  case Nil
  then show ?case using safe_rounds [OF assms(1,2)] by (auto intro: safe_weaken)
next
  case (Cons f fs)
  obtain R where R: "safe K g f (\<lambda>_. R)" "\<forall>g'. R g' \<longrightarrow> leads K g' fs P" using Cons.prems(2) by auto
  have u: "uses K (beside body fs p a)" for p a using Cons.prems(1) assms(1) [THEN safe_uses] by (auto intro!: uses_beside)
  show ?case
    unfolding beside.simps
    by (rule safe_bind_keep [OF safe_rounds [OF assms(1,2)]], rule safe_then [OF R(1)]) (use Cons.IH Cons.prems(1) R(2) u in auto)
qed

end
