(* ===== verification/Fleet_Sim.thy ===== *)
theory Fleet_Sim
  imports Threads
begin

text \<open>
  \<^verbatim>\<open>hv-reclaim/src/fleet_sim.rs\<close>: guest RAM divided into one region per service, each dirtied
  when its service starts and reclaimed when it stops. The main thread is the list of its
  operations, in order, with the sampler thread beside it: one round of the sampler is
  \<open>sample\<close>, and how many rounds it takes between two operations is the parameter \<open>pace\<close>.
\<close>

unbundle bit_operations_syntax

definition mark :: "'x kernel \<Rightarrow> nat \<Rightarrow> string \<Rightarrow> ('x, unit) io" where
  "mark K t0 event = bind_io (now K) (\<lambda>t. println ''MARK,{:.1},{event}'' [ArgF64 (as_secs (t - t0)), ArgStr event])"

definition sample :: "'x kernel \<Rightarrow> nat \<Rightarrow> ('x, unit) io" where
  "sample K t0 = bind_io (ledger_read K) (\<lambda>l. bind_io (now K) (\<lambda>t.
     then_io (println ''SAMPLE,{:.1},{:.1},{:.1}'' [ArgF64 (as_secs (t - t0)), ArgF64 (mib (phys_footprint l)), ArgF64 (mib (resident l))])
             (sys_ignore K (Sleep 1000))))"

definition service_start :: "nat \<Rightarrow> 'x kernel \<Rightarrow> u64 \<Rightarrow> nat \<Rightarrow> usize \<Rightarrow> usize \<Rightarrow> ('x, unit) io list" where
  "service_start fuel K vcpu t0 region i =
    [run_touch_range fuel K vcpu (i * region) ((i + 1) * region),
     mark K t0 (''service-start-'' @ show_nat (unat (i + 1))),
     sys_ignore K (Sleep 2000)]"

definition service_stop :: "'x kernel \<Rightarrow> nat \<Rightarrow> nat \<Rightarrow> usize \<Rightarrow> usize \<Rightarrow> ('x, unit) io list" where
  "service_stop K t0 ram region i =
    (let off = i * region; host = ram + unat off; gpa = RAM_GPA + off in
    [unmap_range K gpa region ''hv_vm_unmap(service)'',
     advise K host region MADV_FREE_REUSABLE ''madvise'',
     map_rw K host gpa region ''hv_vm_map(service)'',
     mark K t0 (''service-stop-'' @ show_nat (unat (i + 1))),
     sys_ignore K (Sleep 2000)])"

text \<open>The guard of \<^verbatim>\<open>run\<close>, at the width of \<^verbatim>\<open>usize\<close>.\<close>

definition fleet_fits :: "options \<Rightarrow> bool" where
  "fleet_fits opts \<longleftrightarrow> push_bit 20 (service_mib opts) * services opts \<le> push_bit 30 (size_gb opts)"

definition fleet_ops :: "nat \<Rightarrow> 'x kernel \<Rightarrow> u64 \<Rightarrow> nat \<Rightarrow> options \<Rightarrow> nat \<Rightarrow> ('x, unit) io list" where
  "fleet_ops fuel K vcpu ram opts t0 =
    (let region = push_bit 20 (service_mib opts); is = map of_nat [0..<unat (services opts)] in
     [mark K t0 ''boot'', sys_ignore K (Sleep 10000)]
     @ concat (map (service_start fuel K vcpu t0 region) is)
     @ [mark K t0 ''hold'', sys_ignore K (Sleep 30000)]
     @ concat (map (service_stop K t0 ram region) is)
     @ [mark K t0 ''tail'', sys_ignore K (Sleep 30000), mark K t0 ''end''])"

definition fleet_run :: "nat \<Rightarrow> 'x kernel \<Rightarrow> nat list \<Rightarrow> u64 \<Rightarrow> nat \<Rightarrow> options \<Rightarrow> ('x, unit) io" where
  "fleet_run fuel K pace vcpu ram opts =
     then_io (assert_io (fleet_fits opts) ''fleet must fit in guest RAM (raise --size-gb)'')
    (bind_io (now K) (\<lambda>t0.
     bind_io (beside (sample K t0) (fleet_ops fuel K vcpu ram opts t0) pace True) (\<lambda>_. ret ())))"

section \<open>Discipline\<close>

lemma safe_mark [safe_intros]: "keeps_s2 K g (mark K t0 event)"
  unfolding mark_def by (intro safe_bind_keep safe_intros) auto

lemma safe_sample: "keeps_s2 K g (sample K t0)"
  unfolding sample_def by (intro safe_bind_keep safe_then_keep safe_intros) auto

lemmas uses_mark [uses_intros] = safe_mark [THEN safe_uses] safe_sample [THEN safe_uses]

lemma calls_sample: "calls_only quiet (sample K t0)"
  unfolding sample_def now_def
  by (intro calls_bind calls_then calls_ledger_read calls_sys calls_check_sys calls_ret) simp_all

lemma leads_service_start: "leads K g (service_start fuel K vcpu t0 region i) (\<lambda>g'. g' = g)"
  unfolding service_start_def by (intro leads_keep safe_touch safe_intros) auto

lemma leads_service_stop:
  assumes "owned (s2 g) (RAM_GPA + i * region) region (ram + unat (i * region))"
    and "mapped_at (s2 g) (RAM_GPA + i * region) region (ram + unat (i * region))" "alive g (ram + unat (i * region)) region"
  shows "leads K g (service_stop K t0 ram region i) (\<lambda>g'. g' = g)"
proof -
  let ?gpa = "RAM_GPA + i * region" and ?h = "ram + unat (i * region)"
  let ?g = "g\<lparr>s2 := s2_unmap ?gpa region (s2 g)\<rparr>"
  have rest: "leads K g [mark K t0 e, sys_ignore K (Sleep 2000)] (\<lambda>g'. g' = g)" for e
    by (intro leads_keep safe_intros) auto
  have un: "safe K g (unmap_range K ?gpa region a) (\<lambda>_ g'. g' = ?g)" for a by (rule safe_unmap_range)
  have ad: "keeps_s2 K ?g (advise K ?h region adv a)" for adv a
    by (rule safe_advise) (use unmap_clears [OF assms(1)] in simp)
  have re: "safe K ?g (map_rw K ?h ?gpa region b) (\<lambda>_ g'. g' = g)" for b
    by (rule safe_map_rw) (use assms(3) in \<open>simp_all add: remap_restores [OF assms(2)] alive_def\<close>)
  have "leads K ?g (advise K ?h region adv a # map_rw K ?h ?gpa region b # fs) P" if "leads K g fs P" for adv a b fs P
    by (rule leads_keep [OF ad], rule leads_step [OF re]) (simp only: that)
  then show ?thesis
    unfolding service_stop_def Let_def by (intro leads_step [OF un]) (simp only: rest)
qed

text \<open>A fleet whose regions do not wrap around the address width lies inside guest RAM.\<close>

lemma region_inside:
  fixes region n ram_size :: usize
  assumes "unat region * unat n < 2 ^ 64" "region * n \<le> ram_size" "i < unat n"
  shows "unat (of_nat i * region) = i * unat region" "i * unat region + unat region \<le> unat ram_size"
proof -
  have p: "unat (region * n) = unat region * unat n" using assms(1) by (simp add: unat_word_ariths)
  have "Suc i * unat region \<le> unat n * unat region" using assms(3) by (intro mult_le_mono1) simp
  then have le: "i * unat region + unat region \<le> unat region * unat n" by (simp add: mult.commute)
  then show "i * unat region + unat region \<le> unat ram_size" using assms(2) p by (simp add: word_le_nat_alt)
  have "i < 2 ^ 64" using assms(3) unat_lt64 [of n] by simp
  then have "unat (of_nat i :: usize) = i" by (rule unat_of_nat64)
  moreover have "i * unat region < 2 ^ 64" using le assms(1) by simp
  ultimately show "unat (of_nat i * region) = i * unat region" by (simp add: unat_word_ariths)
qed

lemma uses_fleet_ops: "f \<in> set (fleet_ops fuel K vcpu ram opts t0) \<Longrightarrow> uses K f"
  unfolding fleet_ops_def service_start_def service_stop_def Let_def by (auto intro: uses_intros)

lemma uses_fleet [uses_intros]: "uses K (beside (sample K t0) (fleet_ops fuel K vcpu ram opts t0) pace up)"
  by (intro uses_beside uses_intros) (rule uses_fleet_ops)

lemma safe_fleet_run:
  assumes vm: "vm_state code ram (push_bit 30 (size_gb opts)) g"
    and fit: "unat (push_bit 20 (service_mib opts)) * unat (services opts) < 2 ^ 64"
  shows "keeps_s2 K g (fleet_run fuel K pace vcpu ram opts)"
proof -
  let ?r = "push_bit 20 (service_mib opts) :: usize" and ?n = "push_bit 30 (size_gb opts) :: usize"
  let ?is = "map of_nat [0..<unat (services opts)] :: usize list"
  have stops: "leads K g (concat (map (service_stop K t0 ram ?r) ?is)) (\<lambda>g'. g' = g)" if "?r * services opts \<le> ?n" for t0
  proof (rule leads_concat)
    fix i assume "i \<in> set ?is"
    then obtain j where j: "i = of_nat j" "j < unat (services opts)" by auto
    note R = region_inside [OF fit that j(2)]
    have lt: "j * unat ?r < 2 ^ 64" using R(1) unat_lt64 by metis
    have ej: "(of_nat (j * unat ?r) :: usize) = of_nat j * ?r" by simp
    note P = ram_part [OF vm_stateD [OF vm] R(2) lt, unfolded ej]
    show "leads K g (service_stop K t0 ram ?r i) (\<lambda>g'. g' = g)"
      unfolding j(1) by (rule leads_service_stop) (simp_all only: R(1) P)
  qed
  have ops: "leads K g (fleet_ops fuel K vcpu ram opts t0) (\<lambda>g'. g' = g)" if "?r * services opts \<le> ?n" for t0
  proof -
    have pause: "leads K g [mark K t0 e, sys_ignore K (Sleep ms)] (\<lambda>g'. g' = g)" for e ms by (intro leads_keep safe_intros) auto
    have final: "leads K g [mark K t0 ''tail'', sys_ignore K (Sleep 30000), mark K t0 ''end''] (\<lambda>g'. g' = g)" by (intro leads_keep safe_intros) auto
    have starts: "leads K g (concat (map (service_start fuel K vcpu t0 ?r) ?is)) (\<lambda>g'. g' = g)" by (intro leads_concat leads_service_start)
    show ?thesis
      unfolding fleet_ops_def Let_def
      by (rule leads_append [OF pause], hypsubst, rule leads_append [OF starts], hypsubst, rule leads_append [OF pause], hypsubst,
          rule leads_append [OF stops [OF that]], hypsubst, rule final)
  qed
  have th: "keeps_s2 K g (beside (sample K t0) (fleet_ops fuel K vcpu ram opts t0) pace True)" if "?r * services opts \<le> ?n" for t0
    by (rule safe_beside [OF safe_sample calls_sample uses_fleet_ops ops [OF that]])
  show ?thesis
    unfolding fleet_run_def fleet_fits_def
    by (rule safe_then [OF safe_assert [where Q = "\<lambda>_ g'. g' = g \<and> ?r * services opts \<le> ?n"]])
      (auto intro!: safe_bind_keep safe_intros th uses_intros uses_fleet)
qed

lemma uses_fleet_run [uses_intros]: "uses K (fleet_run fuel K pace vcpu ram opts)"
  unfolding fleet_run_def by (intro uses_intros)

end
