(* ===== verification/Soak.thy ===== *)
theory Soak
  imports Threads
begin

text \<open>
  \<^verbatim>\<open>hv-reclaim/src/soak.rs\<close>: the multi-vCPU integrity test. Guest RAM is split into one slot
  per vCPU, each half hot and half cold. A worker is a sequence of turns: its set-up, then one
  operation of its loop at a time (a guest pass, a ledger reading, and each of unmap, release and
  remap by itself), so that the other workers run while its cold range is unmapped. The run
  interleaves the workers' turns, the progress line and the pressure bursts by a schedule, which
  is a parameter, as the operating system's scheduler is. The counters are updated by the turn
  that earns them and survive the worker. A panic inside a worker ends that worker only, since
  the result of its \<^verbatim>\<open>join\<close> is discarded. A schedule too short for every worker to end is
  \<open>OutOfFuel\<close>.
\<close>

unbundle bit_operations_syntax

definition HOT_SWEEPS_PER_CYCLE :: nat where "HOT_SWEEPS_PER_CYCLE = 4"

record stats =
  st_sweeps :: u64
  page_checks :: u64
  mismatches :: u64
  reclaims :: u64
  reclaimed_mib :: "rat list"

definition no_stats :: stats where
  "no_stats = \<lparr>st_sweeps = 0, page_checks = 0, mismatches = 0, reclaims = 0, reclaimed_mib = []\<rparr>"

section \<open>Geometry\<close>

definition soak_vcpus :: "options \<Rightarrow> usize" where
  "soak_vcpus opts = max (vcpus opts) 1"

definition slot_size :: "options \<Rightarrow> usize" where
  "slot_size opts = push_bit 30 (size_gb opts) div soak_vcpus opts"

definition half_size :: "usize \<Rightarrow> usize" where
  "half_size slot = slot div 2 AND NOT (of_nat PAGE - 1)"

definition hot_range :: "usize \<Rightarrow> usize \<Rightarrow> usize \<Rightarrow> usize \<times> usize" where
  "hot_range slot half k = (k * slot, k * slot + half)"

definition cold_range :: "usize \<Rightarrow> usize \<Rightarrow> usize \<Rightarrow> usize \<times> usize" where
  "cold_range slot half k = (k * slot + half, k * slot + 2 * half)"

section \<open>A worker\<close>

text \<open>The three steps of \<^verbatim>\<open>reclaim\<close>, on the range of a worker.\<close>

definition cold_unmap :: "'x kernel \<Rightarrow> usize \<times> usize \<Rightarrow> ('x, unit) io" where
  "cold_unmap K rng = unmap_range K (RAM_GPA + fst rng) (snd rng - fst rng) ''hv_vm_unmap(soak)''"

definition cold_release :: "'x kernel \<Rightarrow> nat \<Rightarrow> usize \<times> usize \<Rightarrow> reclaim_mode \<Rightarrow> madvice \<Rightarrow> ('x, unit) io" where
  "cold_release K ram rng mode adv = release mode adv K (ram + unat (fst rng)) (snd rng - fst rng)"

definition cold_remap :: "'x kernel \<Rightarrow> nat \<Rightarrow> usize \<times> usize \<Rightarrow> ('x, unit) io" where
  "cold_remap K ram rng = map_rw K (ram + unat (fst rng)) (RAM_GPA + fst rng) (snd rng - fst rng) ''hv_vm_map(soak)''"

definition detector_self_test :: "nat \<Rightarrow> 'x kernel \<Rightarrow> u64 \<Rightarrow> nat \<Rightarrow> usize \<times> usize \<Rightarrow> u64 \<Rightarrow> ('x, unit) io" where
  "detector_self_test fuel K vcpu ram hot expected =
    (let victim = ram + unat (fst hot + of_nat PAGE) in
     bind_io (load64 victim) (\<lambda>saved.
     then_io (store64 victim (saved XOR 0xDEADBEEF))
    (bind_io (run_verify_range fuel K vcpu (fst hot) (snd hot) expected) (\<lambda>found.
     then_io (store64 victim saved)
    (then_io (assert_io (found = 1) ''integrity detector self-test failed'')
    (bind_io (run_verify_range fuel K vcpu (fst hot) (snd hot) expected) (\<lambda>clean.
     then_io (assert_io (clean = 0) ''detector reports mismatches on clean memory'')
             (println ''detector self-test: planted corruption found, clean memory clean\<newline>'' []))))))))"

text \<open>Where a worker is in the body of its loop.\<close>

datatype point = HotSweep nat | HotVerify nat | ColdSweep | ColdBefore | ColdUnmap | ColdRelease | ColdRemap | ColdAfter
  | ColdFill | ColdVerify | ColdSleep | ColdRecheck

fun next_point :: "point \<Rightarrow> point" where
  "next_point (HotSweep n) = HotVerify n"
| "next_point (HotVerify n) = (if Suc n < HOT_SWEEPS_PER_CYCLE then HotSweep (Suc n) else ColdSweep)"
| "next_point ColdSweep = ColdBefore"
| "next_point ColdBefore = ColdUnmap"
| "next_point ColdUnmap = ColdRelease"
| "next_point ColdRelease = ColdRemap"
| "next_point ColdRemap = ColdAfter"
| "next_point ColdAfter = ColdFill"
| "next_point ColdFill = ColdVerify"
| "next_point ColdVerify = ColdSleep"
| "next_point ColdSleep = ColdRecheck"
| "next_point ColdRecheck = HotSweep 0"

text \<open>The variables of a worker: its vCPU, \<^verbatim>\<open>hot_sweeps\<close>, \<^verbatim>\<open>cycle\<close>, the footprint \<^verbatim>\<open>before\<close>.\<close>

record worker =
  w_vcpu :: u64
  hot_sweeps :: u64
  w_cycle :: u64
  w_before :: u64
  w_point :: point

definition count_check :: "usize \<Rightarrow> u64 \<Rightarrow> stats \<Rightarrow> stats" where
  "count_check half bad st = st\<lparr>page_checks := page_checks st + half div of_nat PAGE, mismatches := mismatches st + bad\<rparr>"

definition add_sweep :: "stats \<Rightarrow> stats" where
  "add_sweep st = st\<lparr>st_sweeps := st_sweeps st + 1\<rparr>"

definition worker_setup :: "nat \<Rightarrow> 'x kernel \<Rightarrow> usize \<Rightarrow> usize \<Rightarrow> usize \<Rightarrow> nat \<Rightarrow> ('x, worker) io" where
  "worker_setup fuel K k slot half ram =
    (let hot = hot_range slot half k in
     bind_io (sys K HvVcpuCreate) (\<lambda>p.
     then_io (check (rc p) ''hv_vcpu_create'')
    (then_io (write_reg K (rv p) HV_REG_CPSR PSTATE_EL1H_MASKED ''set CPSR'')
    (then_io (run_sweep_range fuel K (rv p) (fst hot) (snd hot))
    (then_io (when_io (k = 0) (detector_self_test fuel K (rv p) ram hot 1))
             (ret \<lparr>w_vcpu = rv p, hot_sweeps = 1, w_cycle = 0, w_before = 0, w_point = HotSweep 0\<rparr>))))))"

definition stamp :: "usize \<Rightarrow> u64 \<Rightarrow> u64" where
  "stamp k cycle = push_bit 32 k OR cycle"

text \<open>One operation of the loop, and the counters it updates.\<close>

definition worker_op :: "nat \<Rightarrow> 'x kernel \<Rightarrow> usize \<Rightarrow> usize \<Rightarrow> usize \<Rightarrow> nat \<Rightarrow> reclaim_mode \<Rightarrow> madvice
    \<Rightarrow> worker \<Rightarrow> stats \<Rightarrow> ('x, worker \<times> stats) io" where
  "worker_op fuel K k slot half ram mode adv wk st =
    (let hot = hot_range slot half k; cold = cold_range slot half k; v = w_vcpu wk in
     case w_point wk of
       HotSweep _ \<Rightarrow> then_io (run_sweep_range fuel K v (fst hot) (snd hot)) (ret (wk\<lparr>hot_sweeps := hot_sweeps wk + 1\<rparr>, add_sweep st))
     | HotVerify _ \<Rightarrow> bind_io (run_verify_range fuel K v (fst hot) (snd hot) (hot_sweeps wk)) (\<lambda>bad. ret (wk, count_check half bad st))
     | ColdSweep \<Rightarrow> then_io (run_sweep_range fuel K v (fst cold) (snd cold)) (ret (wk\<lparr>w_cycle := w_cycle wk + 1\<rparr>, add_sweep st))
     | ColdBefore \<Rightarrow> bind_io (ledger_read K) (\<lambda>l. ret (wk\<lparr>w_before := phys_footprint l\<rparr>, st))
     | ColdUnmap \<Rightarrow> then_io (cold_unmap K cold) (ret (wk, st))
     | ColdRelease \<Rightarrow> then_io (cold_release K ram cold mode adv) (ret (wk, st))
     | ColdRemap \<Rightarrow> then_io (cold_remap K ram cold) (ret (wk, st))
     | ColdAfter \<Rightarrow> bind_io (ledger_read K) (\<lambda>l. ret (wk, st\<lparr>reclaims := reclaims st + 1,
         reclaimed_mib := reclaimed_mib st @ [delta_mib (w_before wk) (phys_footprint l)]\<rparr>))
     | ColdFill \<Rightarrow> then_io (run_fill_range fuel K v (fst cold) (snd cold) (stamp k (w_cycle wk))) (ret (wk, st))
     | ColdVerify \<Rightarrow> bind_io (run_verify_range fuel K v (fst cold) (snd cold) (stamp k (w_cycle wk))) (\<lambda>bad. ret (wk, count_check half bad st))
     | ColdSleep \<Rightarrow> then_io (sys_ignore K (Sleep 250)) (ret (wk, st))
     | ColdRecheck \<Rightarrow> bind_io (run_verify_range fuel K v (fst cold) (snd cold) (stamp k (w_cycle wk))) (\<lambda>bad. ret (wk, count_check half bad st)))"

section \<open>The run\<close>

datatype phase = Fresh | Running worker | Finished | Died

datatype turn = WorkerTurn nat | ProgressTurn | PressureTurn

record soak_state =
  threads :: "phase list"
  s_stats :: stats
  burst :: "(string + guard) option"

definition worker_turn :: "nat \<Rightarrow> 'x kernel \<Rightarrow> options \<Rightarrow> nat \<Rightarrow> nat \<Rightarrow> nat \<Rightarrow> soak_state \<Rightarrow> ('x, soak_state) io" where
  "worker_turn fuel K opts ram deadline i s =
    (let slot = slot_size opts; half = half_size slot; k = of_nat i in
     if length (threads s) \<le> i then ret s
     else case threads s ! i of
       Fresh \<Rightarrow> bind_io (in_thread (worker_setup fuel K k slot half ram)) (\<lambda>r.
         ret (s\<lparr>threads := (threads s)[i := (case r of None \<Rightarrow> Died | Some wk \<Rightarrow> Running wk)]\<rparr>))
     | Running wk \<Rightarrow>
        (let step = bind_io (in_thread (worker_op fuel K k slot half ram (reclaim_mode opts) (advice opts) wk (s_stats s))) (\<lambda>r.
           ret (case r of None \<Rightarrow> s\<lparr>threads := (threads s)[i := Died]\<rparr>
             | Some (wk', st) \<Rightarrow> s\<lparr>threads := (threads s)[i := Running (wk'\<lparr>w_point := next_point (w_point wk)\<rparr>)], s_stats := st\<rparr>)) in
         if w_point wk = HotSweep 0 then
           bind_io (now K) (\<lambda>t.
             if t < deadline then step
             else bind_io (in_thread (check_sys K (HvVcpuDestroy (w_vcpu wk)) ''hv_vcpu_destroy'')) (\<lambda>r.
               ret (s\<lparr>threads := (threads s)[i := (case r of None \<Rightarrow> Died | Some _ \<Rightarrow> Finished)]\<rparr>)))
         else step)
     | _ \<Rightarrow> ret s)"

definition soak_turn :: "nat \<Rightarrow> 'x kernel \<Rightarrow> options \<Rightarrow> nat \<Rightarrow> nat \<Rightarrow> turn \<Rightarrow> soak_state \<Rightarrow> ('x, soak_state) io" where
  "soak_turn fuel K opts ram deadline t s = (case t of
       WorkerTurn i \<Rightarrow> worker_turn fuel K opts ram deadline i s
     | ProgressTurn \<Rightarrow> bind_io (now K) (\<lambda>t0.
         if t0 < deadline then
           then_io (sys_ignore K (Sleep 30000))
          (bind_io (ledger_read K) (\<lambda>l. bind_io (now K) (\<lambda>t.
           then_io (println ''[{:>5.0}s] sweeps {:>8}  page-checks {:>12}  mismatches {}  reclaims {:>6}  footprint {:>8.1} MiB''
             [ArgF64 (of_int (f64_of_int (uint (soak_minutes opts * 60))) - as_secs (deadline - t)), ArgNat (unat (st_sweeps (s_stats s))),
              ArgNat (unat (page_checks (s_stats s))), ArgNat (unat (mismatches (s_stats s))),
              ArgNat (unat (reclaims (s_stats s))), ArgF64 (mib (phys_footprint l))])
             (ret s))))
         else ret s)
     | PressureTurn \<Rightarrow> (case burst s of
           None \<Rightarrow> bind_io (apply_pressure K (pressure_gb opts)) (\<lambda>g. ret (s\<lparr>burst := Some g\<rparr>))
         | Some g \<Rightarrow> then_io (case g of Inl _ \<Rightarrow> ret () | Inr pid \<Rightarrow> drop_guard K pid) (ret (s\<lparr>burst := None\<rparr>))))"

definition totals_text :: string where
  "totals_text =
     ''\<newline>''
   @ ''soak complete: {} page-checks, {bad} mismatches, {} reclaim cycles ({:.1} GiB released in total)''"

definition clean_text :: string where
  "clean_text =
     ''no corruption in {checks} checked pages. At 95% confidence that\<newline>''
   @ ''bounds the per-page-check defect rate below {:.2e} (rule of three).''"

definition defect_rate :: "u64 \<Rightarrow> arg" where
  "defect_rate checks = f64_quotient 3 (of_int (f64_of_int (uint checks)))"

definition soak_report :: "stats \<Rightarrow> ('x, unit) io" where
  "soak_report st =
     then_io (println totals_text
       [ArgNat (unat (page_checks st)), ArgNat (unat (mismatches st)), ArgNat (unat (reclaims st)),
        ArgF64 (sum_list (reclaimed_mib st) / 1024)])
    (if mismatches st = 0
     then println clean_text [ArgNat (unat (page_checks st)), defect_rate (page_checks st)]
     else println ''CORRUPTION DETECTED -- {bad} page-checks failed. Investigate before trusting this sequence.'' [ArgNat (unat (mismatches st))])"

definition soak_text :: string where
  "soak_text =
     ''soak: {} vCPU(s), {} GiB guest RAM, {} min, release = {}\<newline>''
   @ ''each vCPU owns {:.0} MiB hot (must never change) + {:.0} MiB cold\<newline>''
   @ ''(reclaimed while the other vCPUs run, then re-touched and re-verified)\<newline>''"

text \<open>An \<^verbatim>\<open>Instant\<close> has a signed 64-bit number of seconds: adding a duration past it panics.\<close>

definition soak_run :: "nat \<Rightarrow> 'x kernel \<Rightarrow> turn list \<Rightarrow> nat \<Rightarrow> options \<Rightarrow> ('x, unit) io" where
  "soak_run fuel K sched ram opts =
    (let n = soak_vcpus opts; slot = slot_size opts; half = half_size slot in
     then_io (assert_io (slot \<ge> 2 * of_nat PAGE * 16) ''--size-gb too small to split across vCPUs'')
    (bind_io (now K) (\<lambda>t.
     let deadline = t + unat (soak_minutes opts * 60) * 1000000000 in
     then_io (assert_io (deadline div 1000000000 < 2 ^ 63) ''overflow when adding duration to instant'')
    (then_io (println soak_text
       [ArgNat (unat n), ArgNat (unat (size_gb opts)), ArgNat (unat (soak_minutes opts)),
        ArgStr (reclaim_mode_name (reclaim_mode opts)), ArgF64 (mib half), ArgF64 (mib half)])
    (bind_io (fold_io sched (soak_turn fuel K opts ram deadline)
        \<lparr>threads = replicate (unat n) Fresh, s_stats = no_stats, burst = None\<rparr>) (\<lambda>s.
     if list_all (\<lambda>p. p = Finished \<or> p = Died) (threads s) then
       then_io (case burst s of Some (Inr pid) \<Rightarrow> drop_guard K pid | _ \<Rightarrow> ret ())
               (soak_report (s_stats s))
     else out_of_fuel))))))"

section \<open>Geometry lemmas\<close>

lemma half_eq: "unat (half_size slot) = unat slot div 2 div PAGE * PAGE"
proof -
  have e: "half_size slot = push_bit 14 (drop_bit 14 (slot div 2))"
  proof (rule bit_word_eqI)
    fix n assume "n < LENGTH(64)"
    have "(of_nat PAGE - 1 :: usize) = mask 14" by (simp add: PAGE_def mask_eq_exp_minus_1)
    then show "bit (half_size slot) n = bit (push_bit 14 (drop_bit 14 (slot div 2))) n"
      unfolding half_size_def
      by (auto simp: bit_and_iff bit_not_iff bit_mask_iff bit_push_bit_iff bit_drop_bit_eq)
  qed
  have d: "unat (drop_bit 14 (slot div 2)) = unat slot div 2 div PAGE"
    by (simp add: unsigned_drop_bit_eq unat_div drop_bit_eq_div PAGE_def)
  have "unat slot div 2 div PAGE * PAGE \<le> unat slot" by (meson div_le_dividend div_times_less_eq_dividend le_trans)
  then have "unat slot div 2 div PAGE * PAGE < 2 ^ 64" using unat_lt64 [of slot] by (rule le_less_trans)
  moreover have "push_bit 14 (drop_bit 14 (slot div 2)) = (of_nat (unat slot div 2 div PAGE * PAGE) :: usize)"
    unfolding d [symmetric] by (simp add: push_bit_eq_mult PAGE_def)
  ultimately show ?thesis unfolding e by (metis unat_of_nat64)
qed

lemma half_bound: "unat (half_size slot) \<le> unat slot div 2" "PAGE dvd unat (half_size slot)"
  by (simp_all add: half_eq)

lemma slot_bound: "unat (slot_size opts) * unat (soak_vcpus opts) \<le> unat (push_bit 30 (size_gb opts) :: usize)"
  unfolding slot_size_def unat_div by (rule div_times_less_eq_dividend)

text \<open>The slot of a worker: its hot and its cold range, in order, inside guest RAM.\<close>

lemma slot_ranges:
  assumes "k < unat (soak_vcpus opts)"
  defines "slot \<equiv> slot_size opts" and "half \<equiv> half_size (slot_size opts)"
  shows "unat (fst (hot_range slot half (of_nat k))) = k * unat slot"
    and "unat (snd (hot_range slot half (of_nat k))) = k * unat slot + unat half"
    and "unat (fst (cold_range slot half (of_nat k))) = k * unat slot + unat half"
    and "unat (snd (cold_range slot half (of_nat k))) = k * unat slot + 2 * unat half"
    and "k * unat slot + 2 * unat half \<le> Suc k * unat slot" "Suc k * unat slot \<le> unat (push_bit 30 (size_gb opts) :: usize)"
proof -
  have "Suc k * unat slot \<le> unat (soak_vcpus opts) * unat slot" using assms(1) by (intro mult_le_mono1) simp
  then show b: "Suc k * unat slot \<le> unat (push_bit 30 (size_gb opts) :: usize)"
    using slot_bound [of opts] unfolding slot_def by (simp add: mult.commute)
  have h: "2 * unat half \<le> unat slot" using half_bound(1) [of slot] unfolding half_def slot_def by simp
  then show c: "k * unat slot + 2 * unat half \<le> Suc k * unat slot" by simp
  have top: "k * unat slot + 2 * unat half < 2 ^ 64" using b c unat_lt64 [of "push_bit 30 (size_gb opts)"] by linarith
  have k: "unat (of_nat k :: usize) = k" using assms(1) unat_lt64 [of "soak_vcpus opts"] by (intro unat_of_nat64) simp
  have "of_nat k * slot = of_nat (k * unat slot)" "of_nat k * slot + half = of_nat (k * unat slot + unat half)"
    "of_nat k * slot + 2 * half = of_nat (k * unat slot + 2 * unat half)" by simp_all
  then show "unat (fst (hot_range slot half (of_nat k))) = k * unat slot"
    "unat (snd (hot_range slot half (of_nat k))) = k * unat slot + unat half"
    "unat (fst (cold_range slot half (of_nat k))) = k * unat slot + unat half"
    "unat (snd (cold_range slot half (of_nat k))) = k * unat slot + 2 * unat half"
    using top by (simp_all add: hot_range_def cold_range_def unat_of_nat64 del: of_nat_add of_nat_mult)
qed

section \<open>The detector's self-test\<close>

lemma write64_twice: "write64 (write64 m a u) a v = write64 m a v"
  by (auto simp: write64_def write_le_def fun_eq_iff)

lemma plant_one:
  assumes "distinct offs" "v \<in> set offs" "\<And>off. off \<in> set offs \<Longrightarrow> read64 mem (ram + off) = expected"
    and "\<And>off. off \<in> set offs \<Longrightarrow> off \<noteq> v \<Longrightarrow> off + 8 \<le> v \<or> v + 8 \<le> off" and "d \<noteq> expected"
  shows "filter (\<lambda>off. read64 (write64 mem (ram + v) d) (ram + off) \<noteq> expected) offs = [v]"
proof -
  have "filter (\<lambda>off. read64 (write64 mem (ram + v) d) (ram + off) \<noteq> expected) offs = filter (\<lambda>off. off = v) offs"
  proof (rule filter_cong [OF refl])
    fix off assume o: "off \<in> set offs"
    show "read64 (write64 mem (ram + v) d) (ram + off) \<noteq> expected \<longleftrightarrow> off = v"
      using assms(3) [OF o] assms(4) [OF o] assms(5) by (cases "off = v") (auto simp: read64_write64_other)
  qed
  also have "\<dots> = [v]" using assms(1,2) by (induction offs) (auto simp: filter_empty_conv)
  finally show ?thesis .
qed

lemma store64_ok: "store64 a v w = (Ok (), w\<lparr>wmem := write64 (wmem w) a v\<rparr>)"
  by (simp add: store64_def)

lemma load64_ok: "load64 a w = (Ok (read64 (wmem w) a), w)"
  by (simp add: load64_def)

lemma detector_self_test_ok:
  assumes P: "window_pre K V vcpu lw ram sz code fuel lo hi w" and two: "unat lo + PAGE < unat hi"
    and clean: "\<forall>off\<in>set (pages lo hi). read64 (wmem w) (ram + off) = expected"
  shows "\<exists>w'. detector_self_test fuel K vcpu ram (lo, hi) expected w = (Ok (), w') \<and> wmem w' = wmem w
     \<and> v_s2 V (ext w') = v_s2 V (ext w) \<and> v_cancels V (ext w') \<le> v_cancels V (ext w)
     \<and> stdout w' = stdout w @ [Line ''detector self-test: planted corruption found, clean memory clean\<newline>'' []]"
proof -
  let ?v = "unat lo + PAGE" and ?offs = "pages lo hi"
  have G: "guest_window lw ram sz code (v_s2 V (ext w)) (wmem w)" "good_range lo hi sz" using P by (auto simp: window_pre_def)
  have lt: "unat lo + PAGE < 2 ^ 64" using two unat_lt64 [of hi] by simp
  have v: "unat (lo + of_nat PAGE) = ?v" using unat_add_bound [OF lt] .
  have vin: "?v \<in> set ?offs" using two by (simp add: set_step_by)
  have sp: "spaced ?offs" by (simp add: spaced_step_by PAGE_def)
  have v8: "?v + 8 \<le> sz"
    using ready_room [OF G(1), of ?v] G(2) two by (auto simp: good_range_def PAGE_def intro: dvd_trans [of 8 16384])
  let ?s = "read64 (wmem w) (ram + ?v)" and ?d = "read64 (wmem w) (ram + ?v) XOR 0xDEADBEEF"
  let ?w1 = "w\<lparr>wmem := write64 (wmem w) (ram + ?v) ?d\<rparr>"
  have s: "?s = expected" using clean vin by blast
  have d: "?d \<noteq> expected"
  proof
    assume "?d = expected"
    then have "expected XOR 0xDEADBEEF = expected" unfolding s .
    then have "expected XOR (expected XOR 0xDEADBEEF) = expected XOR expected" by simp
    then show False by simp
  qed
  have P1: "window_pre K V vcpu lw ram sz code fuel lo hi ?w1"
    using P guest_window_write64 [OF G(1) v8] by (simp add: window_pre_def)
  have apart: "off + 8 \<le> ?v \<or> ?v + 8 \<le> off" if "off \<in> set ?offs" "off \<noteq> ?v" for off
    using sp vin that unfolding spaced_def by (cases "off < ?v") auto
  have "filter (\<lambda>off. read64 (write64 (wmem w) (ram + ?v) ?d) (ram + off) \<noteq> expected) ?offs = [?v]"
    by (rule plant_one [OF _ vin _ apart d]) (use sp clean in \<open>auto simp: spaced_def\<close>)
  then have one: "filter (\<lambda>off. read64 (wmem ?w1) (ram + off) \<noteq> expected) ?offs = [?v]" by simp
  obtain w2 where w2: "run_verify_range fuel K vcpu lo hi expected ?w1 = (Ok 1, w2)" "kept_in V lw ram sz code ?w1 w2" "wmem w2 = wmem ?w1"
    using run_verify_range_result [OF P1, of expected] one by auto
  let ?w3 = "w2\<lparr>wmem := write64 (wmem w2) (ram + ?v) ?s\<rparr>"
  have m3: "wmem ?w3 = wmem w" using w2(3) by (simp add: write64_twice write64_read64)
  have P3: "window_pre K V vcpu lw ram sz code fuel lo hi ?w3"
    using P P1 w2(2) m3 G by (auto simp: window_pre_def kept_in_def)
  have none: "filter (\<lambda>off. read64 (wmem ?w3) (ram + off) \<noteq> expected) ?offs = []"
    unfolding m3 using clean by (simp add: filter_empty_conv)
  obtain w4 where w4: "run_verify_range fuel K vcpu lo hi expected ?w3 = (Ok 0, w4)" "kept_in V lw ram sz code ?w3 w4" "wmem w4 = wmem ?w3"
    using run_verify_range_result [OF P3, of expected] none by auto
  show ?thesis
    using w2 w4 m3
    by (simp add: detector_self_test_def Let_def bind_io_def then_io_def v load64_ok store64_ok assert_io_def ret_def println_def kept_in_def)
qed

end
