(* ===== verification/Alloc_Shape.thy ===== *)
theory Alloc_Shape
  imports Timing
begin

text \<open>
  \<^verbatim>\<open>hv-reclaim/src/alloc_shape.rs\<close>, the child's side: the three enumerations of the matrix
  with their names and tags, the cell specification that travels through the environment, and
  one cell of the matrix. The tag of an enumeration value and the parser that reads it back are
  an interface: a codec.
\<close>

unbundle bit_operations_syntax

datatype shape = MmapPrivate | MmapShared | HvAllocate
datatype toucher = HostToucher | GuestToucher
datatype sequence = InPlace | UnmapFirst | UnmapOnly

definition shape_name :: "shape \<Rightarrow> string" where
  "shape_name s = (case s of MmapPrivate \<Rightarrow> ''mmap(PRIVATE)'' | MmapShared \<Rightarrow> ''mmap(SHARED)'' | HvAllocate \<Rightarrow> ''hv_vm_allocate'')"

definition shape_parse :: "string \<Rightarrow> shape outcome" where
  "shape_parse s = (if s = ''private'' then Ok MmapPrivate else if s = ''shared'' then Ok MmapShared
     else if s = ''hvalloc'' then Ok HvAllocate else Panic (Explicit ''unknown shape''))"

definition shape_tag :: "shape \<Rightarrow> string" where
  "shape_tag s = (case s of MmapPrivate \<Rightarrow> ''private'' | MmapShared \<Rightarrow> ''shared'' | HvAllocate \<Rightarrow> ''hvalloc'')"

definition toucher_name :: "toucher \<Rightarrow> string" where
  "toucher_name t = (case t of HostToucher \<Rightarrow> ''host'' | GuestToucher \<Rightarrow> ''guest'')"

definition toucher_parse :: "string \<Rightarrow> toucher outcome" where
  "toucher_parse s = (if s = ''host'' then Ok HostToucher else if s = ''guest'' then Ok GuestToucher
     else Panic (Explicit ''unknown toucher''))"

definition sequence_name :: "sequence \<Rightarrow> string" where
  "sequence_name q = (case q of InPlace \<Rightarrow> ''in-place'' | UnmapFirst \<Rightarrow> ''unmap-first'' | UnmapOnly \<Rightarrow> ''unmap-only'')"

definition sequence_parse :: "string \<Rightarrow> sequence outcome" where
  "sequence_parse s = (if s = ''inplace'' then Ok InPlace else if s = ''unmap'' then Ok UnmapFirst
     else if s = ''unmaponly'' then Ok UnmapOnly else Panic (Explicit ''unknown sequence''))"

definition sequence_tag :: "sequence \<Rightarrow> string" where
  "sequence_tag q = (case q of InPlace \<Rightarrow> ''inplace'' | UnmapFirst \<Rightarrow> ''unmap'' | UnmapOnly \<Rightarrow> ''unmaponly'')"

section \<open>Allocation\<close>

text \<open>A failed allocation is the null pointer.\<close>

definition mmap_flags :: "'x kernel \<Rightarrow> usize \<Rightarrow> map_flag list \<Rightarrow> ('x, nat) io" where
  "mmap_flags K len flags = bind_io (sys K (Mmap 0 len flags)) (\<lambda>p.
     ret (if rv p = MAP_FAILED then 0 else unat (rv p)))"

definition allocate :: "'x kernel \<Rightarrow> shape \<Rightarrow> usize \<Rightarrow> ('x, nat) io" where
  "allocate K s len = (case s of
       MmapPrivate \<Rightarrow> mmap_flags K len [MAP_ANON, MAP_PRIVATE]
     | MmapShared \<Rightarrow> mmap_flags K len [MAP_ANON, MAP_SHARED]
     | HvAllocate \<Rightarrow> bind_io (sys K (HvVmAllocate len HV_ALLOCATE_DEFAULT)) (\<lambda>p.
         ret (if rc p = 0 then unat (rv p) else 0)))"

definition release_shape :: "'x kernel \<Rightarrow> shape \<Rightarrow> nat \<Rightarrow> usize \<Rightarrow> ('x, unit) io" where
  "release_shape K s p len = (case s of
       HvAllocate \<Rightarrow> sys_ignore K (HvVmDeallocate p len)
     | _ \<Rightarrow> sys_ignore K (Munmap p len))"

section \<open>One cell\<close>

definition touch_cell :: "nat \<Rightarrow> 'x kernel \<Rightarrow> toucher \<Rightarrow> nat \<Rightarrow> usize \<Rightarrow> ('x, unit) io" where
  "touch_cell fuel K t ram len = (case t of
       HostToucher \<Rightarrow> mark_pages ram len (\<lambda>off. 0xA5A50000 + of_nat off)
     | GuestToucher \<Rightarrow> bind_io (sys K HvVcpuCreate) (\<lambda>p.
         then_io (check (rc p) ''hv_vcpu_create'')
        (then_io (write_reg K (rv p) HV_REG_CPSR PSTATE_EL1H_MASKED ''set CPSR'')
        (then_io (run_touch_pass fuel K (rv p) len)
                 (check_sys K (HvVcpuDestroy (rv p)) ''hv_vcpu_destroy'')))))"

text \<open>The measured step: the return code and error number of the advice, or \<open>None\<close> when skipped.\<close>

definition cell_sequence :: "'x kernel \<Rightarrow> sequence \<Rightarrow> nat \<Rightarrow> usize \<Rightarrow> ('x, resp option) io" where
  "cell_sequence K q ram len =
     then_io (when_io (q \<noteq> InPlace) (unmap_range K RAM_GPA len ''hv_vm_unmap''))
    (bind_io (if q = UnmapOnly then ret None
              else bind_io (sys K (Madvise ram len MADV_FREE_REUSABLE)) (\<lambda>p. ret (Some p))) (\<lambda>r.
     then_io (when_io (q \<noteq> InPlace) (map_rw K ram RAM_GPA len ''hv_vm_map remap''))
             (ret r)))"

definition cell_status :: "resp option \<Rightarrow> string" where
  "cell_status r = (case r of None \<Rightarrow> ''none''
     | Some p \<Rightarrow> if rc p = 0 then ''ok'' else ''errno'' @ show_nat (unat (rv p)))"

text \<open>The VM of a cell: its code page, mapped beside the memory under test.\<close>

definition cell_vm :: "'x kernel \<Rightarrow> nat \<Rightarrow> usize \<Rightarrow> ('x, nat) io" where
  "cell_vm K ram len =
     bind_io (mmap_flags K (of_nat PAGE) [MAP_ANON, MAP_PRIVATE]) (\<lambda>code.
     then_io (assert_io (code \<noteq> 0) ''code page mmap failed'')
    (then_io (write_code_page K code)
    (then_io (check_sys K HvVmCreate ''hv_vm_create'')
    (then_io (check_sys K (HvVmMap code CODE_GPA (of_nat PAGE) (HV_MEMORY_READ OR HV_MEMORY_EXEC)) ''hv_vm_map(code)'')
    (then_io (map_rw K ram RAM_GPA len ''hv_vm_map(ram)'')
             (ret code))))))"

definition run_cell :: "nat \<Rightarrow> 'x kernel \<Rightarrow> shape \<Rightarrow> toucher \<Rightarrow> sequence \<Rightarrow> usize \<Rightarrow> ('x, unit) io" where
  "run_cell fuel K s t q len =
     bind_io (ledger_read K) (\<lambda>idle.
     bind_io (allocate K s len) (\<lambda>ram.
     if ram = 0 then
       println ''CELL {} {} {} alloc-failed 0 0 0 0''
         [ArgStr (shape_tag s), ArgStr (toucher_name t), ArgStr (sequence_tag q)]
     else
       bind_io (cell_vm K ram len) (\<lambda>code.
       then_io (touch_cell fuel K t ram len)
      (bind_io (ledger_read K) (\<lambda>before.
       bind_io (cell_sequence K q ram len) (\<lambda>r.
       bind_io (ledger_read K) (\<lambda>after.
       then_io (println ''CELL {} {} {} {} {:.1} {:.1} {:.1} {:.1}''
         [ArgStr (shape_tag s), ArgStr (toucher_name t), ArgStr (sequence_tag q), ArgStr (cell_status r),
          ArgF64 (delta_mib (phys_footprint after) (phys_footprint before)), ArgF64 (mib (phys_footprint before)),
          ArgF64 (mib (phys_footprint idle)), ArgF64 (delta_mib (reusable after) (reusable before))])
      (then_io (check_sys K HvVmDestroy ''hv_vm_destroy'')
      (then_io (release_shape K s ram len)
               (sys_ignore K (Munmap code (of_nat PAGE))))))))))))"

section \<open>The cell specification\<close>

text \<open>What the parent puts into the environment, and what the child makes of it.\<close>

definition cell_spec :: "shape \<Rightarrow> toucher \<Rightarrow> sequence \<Rightarrow> usize \<Rightarrow> string" where
  "cell_spec s t q gb = shape_tag s @ '':'' @ toucher_name t @ '':'' @ sequence_tag q @ '':'' @ show_nat (unat gb)"

fun and_then :: "'a outcome \<Rightarrow> ('a \<Rightarrow> 'b outcome) \<Rightarrow> 'b outcome" where
  "and_then (Ok a) f = f a"
| "and_then (Panic p) f = Panic p"
| "and_then OutOfFuel f = OutOfFuel"

definition parse_cell :: "string \<Rightarrow> (shape \<times> toucher \<times> sequence \<times> usize) outcome" where
  "parse_cell spec = (case split_on CHR '':'' spec of
       [a, b, c, d] \<Rightarrow> and_then (shape_parse a) (\<lambda>s. and_then (toucher_parse b) (\<lambda>t. and_then (sequence_parse c) (\<lambda>q.
         case parse_u64 d of None \<Rightarrow> Panic (Expect ''cell size'') | Some gb \<Rightarrow> Ok (s, t, q, gb))))
     | _ \<Rightarrow> Panic (AssertFailed ''cell spec is shape:toucher:sequence:size_gb''))"

text \<open>\<^verbatim>\<open>maybe_run_cell\<close>: \<open>True\<close> when the process was a cell and is about to exit.\<close>

definition maybe_run_cell :: "nat \<Rightarrow> 'x kernel \<Rightarrow> string option \<Rightarrow> ('x, bool) io" where
  "maybe_run_cell fuel K env = (case env of
       None \<Rightarrow> ret False
     | Some spec \<Rightarrow> (case parse_cell spec of
           Ok (s, t, q, gb) \<Rightarrow> then_io (run_cell fuel K s t q (push_bit 30 gb)) (ret True)
         | Panic p \<Rightarrow> throw p
         | OutOfFuel \<Rightarrow> out_of_fuel))"

section \<open>Codecs\<close>

locale codec =
  fixes tag :: "'a \<Rightarrow> string" and parse :: "string \<Rightarrow> 'a outcome"
  assumes parse_tag: "parse (tag a) = Ok a"
    and tag_only: "parse s = Ok a \<Longrightarrow> s = tag a"
    and no_colon: "CHR '':'' \<notin> set (tag a)"
begin

lemma tag_inj: "tag a = tag b \<Longrightarrow> a = b"
  by (metis outcome.inject(1) parse_tag)

lemma parse_iff: "parse s = Ok a \<longleftrightarrow> s = tag a"
  using parse_tag tag_only by blast

text \<open>A tag is the first field of whatever follows it after a colon.\<close>

lemma split_tag: "split_on CHR '':'' (tag a @ '':'' @ rest) = tag a # split_on CHR '':'' rest"
  using split_on_append [OF no_colon] by simp

end

lemma shape_parse_tag: "shape_parse (shape_tag a) = Ok a" "CHR '':'' \<notin> set (shape_tag a)"
  by (cases a; simp add: shape_tag_def shape_parse_def)+

lemma toucher_parse_name: "toucher_parse (toucher_name a) = Ok a" "CHR '':'' \<notin> set (toucher_name a)"
  by (cases a; simp add: toucher_name_def toucher_parse_def)+

lemma sequence_parse_tag: "sequence_parse (sequence_tag a) = Ok a" "CHR '':'' \<notin> set (sequence_tag a)"
  by (cases a; simp add: sequence_tag_def sequence_parse_def)+

lemma if_Ok: "(if b then Ok x else r) = Ok a \<longleftrightarrow> b \<and> x = a \<or> \<not> b \<and> r = Ok a"
  by simp

interpretation shape_codec: codec shape_tag shape_parse
proof (unfold_locales, goal_cases)
  case (2 s a)
  then show ?case unfolding shape_parse_def if_Ok by (elim disjE conjE) (simp_all add: shape_tag_def)
qed (rule shape_parse_tag)+

interpretation toucher_codec: codec toucher_name toucher_parse
proof (unfold_locales, goal_cases)
  case (2 s a)
  then show ?case unfolding toucher_parse_def if_Ok by (elim disjE conjE) (simp_all add: toucher_name_def)
qed (rule toucher_parse_name)+

interpretation sequence_codec: codec sequence_tag sequence_parse
proof (unfold_locales, goal_cases)
  case (2 s a)
  then show ?case unfolding sequence_parse_def if_Ok by (elim disjE conjE) (simp_all add: sequence_tag_def)
qed (rule sequence_parse_tag)+

lemma parse_cell_spec: "parse_cell (cell_spec s t q gb) = Ok (s, t, q, gb)"
proof -
  have "split_on CHR '':'' (show_nat (unat gb)) = [show_nat (unat gb)]"
    using split_on_none show_nat_no_colon by blast
  then have "split_on CHR '':'' (cell_spec s t q gb) = [shape_tag s, toucher_name t, sequence_tag q, show_nat (unat gb)]"
    unfolding cell_spec_def shape_codec.split_tag toucher_codec.split_tag sequence_codec.split_tag by simp
  then show ?thesis
    by (simp add: parse_cell_def shape_codec.parse_tag toucher_codec.parse_tag sequence_codec.parse_tag parse_u64_show_unat)
qed

end
