(* ===== verification/Hv_Main.thy ===== *)
theory Hv_Main
  imports Fleet_Sim Soak Alloc_Shape
begin

text \<open>
  \<^verbatim>\<open>hv-reclaim/src/main.rs\<close>: the two pressure probes and \<^verbatim>\<open>main\<close> from the point
  where the command line is parsed; the schedule of a soak is an argument of the model. What
  destructors do while a panic unwinds is left out: a panic ends the run. The aggregates that
  are only printed are computed in the rationals.
\<close>

unbundle bit_operations_syntax

definition HOLD :: nat where "HOLD = 8 * 1000000000"
definition TAIL :: nat where "TAIL = 2 * 1000000000"

definition print_canary :: "verdict \<Rightarrow> ('x, unit) io" where
  "print_canary v = println ''canary (1 GiB MADV_FREE control): {}/{} pages discarded -- {}''
     [ArgNat (unat (discarded v)), ArgNat (unat (total v)),
      ArgStr (if conclusive v then ''pressure reached anonymous memory; the run is conclusive''
        else ''pressure NEVER reached anonymous memory; the run is INCONCLUSIVE (raise --pressure-gb)'')]"

text \<open>The survey loops of both probes: how many pages hold, and do not hold, the expected word.\<close>

definition survey_ram :: "nat \<Rightarrow> usize \<Rightarrow> (nat \<Rightarrow> u64) \<Rightarrow> ('x, usize \<times> usize) io" where
  "survey_ram ram ram_size expected = fold_io (step_by 0 (unat ram_size) PAGE)
     (\<lambda>off (intact, lost). bind_io (load64 (ram + off)) (\<lambda>v.
        ret (if v = expected off then (intact + 1, lost) else (intact, lost + 1)))) (0, 0)"

definition parked_pressure_check :: "'x kernel \<Rightarrow> nat \<Rightarrow> usize \<Rightarrow> options \<Rightarrow> ('x, unit) io" where
  "parked_pressure_check K ram ram_size opts =
     bind_io (arm K 1) (\<lambda>c.
     then_io (println ''\<newline>generating pressure: dirtying {} GiB in a child, holding {}s ...'' [ArgNat (unat (pressure_gb opts)), ArgNat 8])
    (bind_io (apply_pressure K (pressure_gb opts)) (\<lambda>r. case r of
       Inl e \<Rightarrow> throw (Expect ''pressure generator'')
     | Inr guard \<Rightarrow>
         then_io (sys_ignore K (Sleep 8000))
        (then_io (drop_guard K guard)
        (then_io (sys_ignore K (Sleep 2000))
        (bind_io (ledger_read K) (\<lambda>after_pressure.
         then_io (println '''' [])
        (then_io (row ''after real memory pressure'' after_pressure)
        (bind_io (survey c) (\<lambda>v.
         then_io (print_canary v)
        (bind_io (survey_ram ram ram_size (\<lambda>off. RAM_GPA + of_nat off)) (\<lambda>(intact, lost).
         then_io (println ''guest data: {intact}/{} pages intact, {lost} lost''
           [ArgNat (unat intact), ArgNat (unat (ram_size div of_nat PAGE)), ArgNat (unat lost)])
                 (drop_canary K c)))))))))))))"

section \<open>The hammer probe\<close>

text \<open>What the closure captures. The spawned thread delivers its result through the channel.\<close>

record ham =
  h_guard :: "guard option"
  hold_since :: "nat option"
  released_at :: "nat option"

text \<open>
  \<^verbatim>\<open>rx.try_recv()\<close>: response code 0 is a guard, 1 an error of \<^verbatim>\<open>apply\<close>, 2 an empty channel,
  anything else a disconnected one.
\<close>

definition ham_receive :: "'x kernel \<Rightarrow> ham \<Rightarrow> ('x, ham) io" where
  "ham_receive K s =
    (if h_guard s = None \<and> released_at s = None then
       bind_io (sys K TryRecv) (\<lambda>p.
         if rc p = 0 then bind_io (now K) (\<lambda>t. ret (s\<lparr>h_guard := Some (rv p), hold_since := Some t\<rparr>))
         else if rc p = 1 then throw (Explicit ''pressure generator'')
         else if rc p = 2 then ret s
         else throw (Explicit ''pressure thread died''))
     else ret s)"

definition ham_release :: "'x kernel \<Rightarrow> ham \<Rightarrow> ('x, ham) io" where
  "ham_release K s = (case (released_at s, hold_since s) of
       (None, Some t0) \<Rightarrow> bind_io (now K) (\<lambda>t.
         if HOLD \<le> t - t0 then
           then_io (case h_guard s of None \<Rightarrow> ret () | Some pid \<Rightarrow> drop_guard K pid)
          (bind_io (now K) (\<lambda>t'. ret (s\<lparr>h_guard := None, released_at := Some t'\<rparr>)))
         else ret s)
     | _ \<Rightarrow> ret s)"

definition keep_going :: "'x kernel \<Rightarrow> u64 \<Rightarrow> ham \<Rightarrow> ('x, bool \<times> ham) io" where
  "keep_going K sw s0 =
     bind_io (ham_receive K s0) (\<lambda>s1.
     bind_io (ham_release K s1) (\<lambda>s2.
     case released_at s2 of
       None \<Rightarrow> ret (True, s2)
     | Some t0 \<Rightarrow> bind_io (now K) (\<lambda>t. ret (t - t0 < TAIL, s2))))"

text \<open>The probe's loop over guest RAM, with up to three examples of lost pages.\<close>

definition survey_hammer :: "nat \<Rightarrow> usize \<Rightarrow> (nat \<Rightarrow> u64) \<Rightarrow> ('x, usize \<times> usize \<times> (nat \<times> u64) list) io" where
  "survey_hammer ram ram_size expected = fold_io (step_by 0 (unat ram_size) PAGE)
     (\<lambda>off (intact, lost, ex). bind_io (load64 (ram + off)) (\<lambda>v.
        ret (if v = expected off then (intact + 1, lost, ex)
             else (intact, lost + 1, if length ex < 3 then ex @ [(off, v)] else ex)))) (0, 0, [])"

definition hammer_text :: string where
  "hammer_text =
     ''\<newline>''
   @ ''hammer: guest RMW-increments every page continuously while {} GiB\<newline>''
   @ ''of pressure builds, holds {}s, and releases (+{}s tail) ...''"

definition hammer_survey_text :: string where
  "hammer_survey_text =
     ''guest data under concurrent writes: {intact}/{} pages at the expected\<newline>''
   @ ''counter (base+offset+{sweeps}), {lost} lost -- {sweeps} full sweeps in {elapsed:.1}s''"

definition hammer_check :: "nat \<Rightarrow> 'x kernel \<Rightarrow> u64 \<Rightarrow> nat \<Rightarrow> usize \<Rightarrow> options \<Rightarrow> ('x, unit) io" where
  "hammer_check fuel K vcpu ram ram_size opts =
     then_io (println hammer_text
       [ArgNat (unat (pressure_gb opts)), ArgNat 8, ArgNat 2])
    (bind_io (arm K 1) (\<lambda>c.
     bind_io (now K) (\<lambda>t0.
     bind_io (run_hammer fuel K vcpu ram_size (keep_going K) \<lparr>h_guard = None, hold_since = None, released_at = None\<rparr>) (\<lambda>(sw, s).
     bind_io (now K) (\<lambda>t1.
     bind_io (ledger_read K) (\<lambda>after.
     then_io (println '''' [])
    (then_io (row ''after pressure under hammer'' after)
    (bind_io (survey c) (\<lambda>v.
     then_io (print_canary v)
    (bind_io (survey_hammer ram ram_size (\<lambda>off. RAM_GPA + of_nat off + sw)) (\<lambda>(intact, lost, examples).
     then_io (println hammer_survey_text
       [ArgNat (unat intact), ArgNat (unat (ram_size div of_nat PAGE)), ArgNat (unat sw), ArgNat (unat lost), ArgNat (unat sw), ArgF64 (as_secs (t1 - t0))])
    (then_io (for_io examples (\<lambda>(off, v). println ''  lost page example: offset {off:#x} reads {v:#x}'' [ArgNat off, ArgNat (unat v)]))
    (then_io (case h_guard s of None \<Rightarrow> ret () | Some pid \<Rightarrow> drop_guard K pid)
             (drop_canary K c))))))))))))))"

section \<open>Setting up and tearing down the VM\<close>

definition vm_setup :: "'x kernel \<Rightarrow> usize \<Rightarrow> ('x, nat \<times> nat) io" where
  "vm_setup K ram_size =
     bind_io (mmap_anon K ram_size) (\<lambda>ram.
     bind_io (mmap_anon K (of_nat PAGE)) (\<lambda>code.
     then_io (write_code_page K code)
    (then_io (check_sys K HvVmCreate ''hv_vm_create'')
    (then_io (check_sys K (HvVmMap code CODE_GPA (of_nat PAGE) (HV_MEMORY_READ OR HV_MEMORY_EXEC)) ''hv_vm_map(code)'')
    (then_io (map_rw K ram RAM_GPA ram_size ''hv_vm_map(ram)'')
             (ret (ram, code)))))))"

definition vcpu_setup :: "'x kernel \<Rightarrow> ('x, u64) io" where
  "vcpu_setup K = bind_io (sys K HvVcpuCreate) (\<lambda>p.
     then_io (check (rc p) ''hv_vcpu_create'')
    (then_io (write_reg K (rv p) HV_REG_CPSR PSTATE_EL1H_MASKED ''set CPSR'')
             (ret (rv p))))"

definition vm_teardown :: "'x kernel \<Rightarrow> nat \<Rightarrow> usize \<Rightarrow> nat \<Rightarrow> ('x, unit) io" where
  "vm_teardown K ram ram_size code =
     then_io (check_sys K HvVmDestroy ''hv_vm_destroy'')
    (then_io (sys_ignore K (Munmap ram ram_size))
             (sys_ignore K (Munmap code (of_nat PAGE))))"

section \<open>The reclaim experiment\<close>

definition dirty_ram :: "nat \<Rightarrow> 'x kernel \<Rightarrow> u64 \<Rightarrow> nat \<Rightarrow> usize \<Rightarrow> options \<Rightarrow> ('x, unit) io" where
  "dirty_ram fuel K vcpu ram ram_size opts =
    (if host_touch opts then mark_pages ram ram_size of_nat
     else if guest_read opts then run_read_pass fuel K vcpu ram_size
     else run_touch_pass fuel K vcpu ram_size)"

definition dirtied_text :: string where
  "dirtied_text =
     ''\<newline>''
   @ ''dirtied {} GiB in {touch_secs:.2}s -- {:.0}k page faults/s (one 8-byte store per 16 KiB page; a fault-rate figure, not bandwidth)\<newline>''"

text \<open>One turn of \<^verbatim>\<open>for cycle in 1..=opts.repeat\<close>: guest RAM, the last ledger and the deltas so far.\<close>

definition main_cycle :: "nat \<Rightarrow> 'x kernel \<Rightarrow> u64 \<Rightarrow> usize \<Rightarrow> options \<Rightarrow> nat \<Rightarrow> nat \<times> ledger \<times> rat list
    \<Rightarrow> ('x, nat \<times> ledger \<times> rat list) io" where
  "main_cycle fuel K vcpu ram_size opts cycle = (\<lambda>(ram0, last0, deltas).
     bind_io (if cycle > 1 then bind_io (reset_ram K ram0 ram_size) (\<lambda>ram. bind_io (ledger_read K) (\<lambda>l. ret (ram, l)))
              else ret (ram0, last0)) (\<lambda>(ram, before).
     bind_io (timed K (dirty_ram fuel K vcpu ram ram_size opts)) (\<lambda>touch_ns.
     bind_io (ledger_read K) (\<lambda>dirtied.
     then_io (reclaim K ram ram_size opts)
    (then_io (sys_ignore K (Sleep 200))
    (bind_io (ledger_read K) (\<lambda>reclaimed.
     let dt = delta_mib (phys_footprint dirtied) (phys_footprint before);
         dr = delta_mib (phys_footprint reclaimed) (phys_footprint dirtied) in
     then_io (if repeat opts = 1 then
         then_io (println dirtied_text
           [ArgNat (unat (size_gb opts)), ArgF64 (as_secs touch_ns), f64_quotient (of_nat (unat (ram_size div of_nat PAGE))) (as_secs touch_ns * 1000)])
        (then_io (row ''after RAM dirtied'' dirtied)
        (then_io (row ''after reclaim'' reclaimed)
                 (println ''\<newline>Deltafootprint touch: {dt:+.1} MiB, reclaim: {dr:+.1} MiB'' [ArgF64 dt, ArgF64 dr])))
       else println ''cycle {cycle:>2}: touch {dt:+8.1} MiB, reclaim {dr:+8.1} MiB'' [ArgNat cycle, ArgF64 dt, ArgF64 dr])
     (ret (ram, reclaimed, deltas @ [dr])))))))))"

definition print_deltas :: "options \<Rightarrow> rat list \<Rightarrow> ('x, unit) io" where
  "print_deltas opts ds = println ''\<newline>reclaim Deltafootprint over {} cycles: mean {mean:+.1} MiB, min {min:+.1} MiB, max {max:+.1} MiB''
     [ArgNat (unat (repeat opts)), ArgF64 (sum_list ds / of_nat (length ds)),
      ArgF64 (fold min ds (hd ds)), ArgF64 (fold max ds (hd ds))]"

text \<open>The pass that proves the VM alive, and the probes.\<close>

definition retouch :: "nat \<Rightarrow> 'x kernel \<Rightarrow> u64 \<Rightarrow> nat \<Rightarrow> usize \<Rightarrow> options \<Rightarrow> ledger \<Rightarrow> ('x, unit) io" where
  "retouch fuel K vcpu ram ram_size opts reclaimed =
     then_io (run_touch_pass fuel K vcpu ram_size)
    (bind_io (ledger_read K) (\<lambda>retouched.
     then_io (println '''' [])
    (then_io (row ''after guest re-touches its RAM'' retouched)
    (then_io (println ''Deltafootprint re-touch: {:+.1} MiB (paid again only when actually used)''
        [ArgF64 (delta_mib (phys_footprint retouched) (phys_footprint reclaimed))])
    (then_io (when_io (pressure_check opts) (parked_pressure_check K ram ram_size opts))
             (when_io (hammer opts) (hammer_check fuel K vcpu ram ram_size opts)))))))"

definition closing_text :: string where
  "closing_text =
     ''\<newline>''
   @ ''Guest RAM here is ordinary memory of this process; the stage-2 mapping\<newline>''
   @ ''is torn down and rebuilt around the madvise. Nothing about running a VM\<newline>''
   @ ''prevents giving memory back -- only which process owns the pages, and\<newline>''
   @ ''whether the reclaim sequence is the correct one.''"

definition main_reclaim :: "nat \<Rightarrow> 'x kernel \<Rightarrow> u64 \<Rightarrow> nat \<Rightarrow> nat \<Rightarrow> usize \<Rightarrow> options \<Rightarrow> ('x, unit) io" where
  "main_reclaim fuel K vcpu ram0 code ram_size opts =
     bind_io (ledger_read K) (\<lambda>last0.
     bind_io (fold_io [1..<Suc (unat (repeat opts))] (main_cycle fuel K vcpu ram_size opts) (ram0, last0, [])) (\<lambda>(ram, last, deltas).
     then_io (when_io (repeat opts > 1) (print_deltas opts deltas))
    (then_io (when_io (\<not> host_touch opts \<and> repeat opts = 1) (retouch fuel K vcpu ram ram_size opts last))
    (then_io (println closing_text [])
    (then_io (check_sys K (HvVcpuDestroy vcpu) ''hv_vcpu_destroy'')
             (vm_teardown K ram ram_size code))))))"

definition banner :: "'x kernel \<Rightarrow> options \<Rightarrow> ('x, unit) io" where
  "banner K opts = when_io (\<not> time_reclaim opts \<and> \<not> fleet_sim opts)
     (then_io (println ''hv-reclaim: {} GiB guest RAM in-process, dirtied by {},\<newline>reclaimed with {}\<newline>''
        [ArgNat (unat (size_gb opts)), ArgStr (if host_touch opts then ''the HOST (control)'' else ''the guest on a real vCPU''),
         ArgStr (if naive opts then advice_name opts @ '' while still stage-2 mapped (--naive)''
           else ''hv_vm_unmap -> '' @ advice_name opts @ '' -> hv_vm_map'')])
     (bind_io (ledger_read K) (row ''baseline'')))"

text \<open>
  \<^verbatim>\<open>main\<close> from the point where the VM is built. The schedule is that of the threads of the soak
  and that of the sampler of the fleet.
\<close>

type_synonym schedule = "turn list \<times> nat list"

definition hv_vm_main :: "nat \<Rightarrow> 'x kernel \<Rightarrow> schedule \<Rightarrow> options \<Rightarrow> ('x, unit) io" where
  "hv_vm_main fuel K sched opts =
    (let ram_size = push_bit 30 (size_gb opts) in
     then_io (banner K opts)
    (bind_io (vm_setup K ram_size) (\<lambda>(ram, code).
     if soak opts then then_io (soak_run fuel K (fst sched) ram opts) (vm_teardown K ram ram_size code)
     else bind_io (vcpu_setup K) (\<lambda>vcpu.
       if time_reclaim opts \<or> fleet_sim opts then
         bind_io (if time_reclaim opts then timing_run fuel K vcpu ram opts
                  else then_io (fleet_run fuel K (snd sched) vcpu ram opts) (ret ram)) (\<lambda>ram'.
         then_io (check_sys K (HvVcpuDestroy vcpu) ''hv_vcpu_destroy'')
                 (vm_teardown K ram' ram_size code))
       else main_reclaim fuel K vcpu ram code ram_size opts))))"

end
