(* ===== verification/Main_Safe.thy ===== *)
theory Main_Safe
  imports Hv_Main
begin

text \<open>
  The discipline of \<^verbatim>\<open>hv-reclaim\<close>'s \<^verbatim>\<open>main\<close>: the two pressure probes, the reclaim
  experiment, the timing and the fleet runs, from the first allocation to the teardown.
\<close>

section \<open>The probes\<close>

lemma safe_survey_ram [safe_intros]: "keeps_s2 K g (survey_ram ram n e)"
  unfolding survey_ram_def by (rule safe_fold) (auto intro!: safe_bind_keep safe_intros)

lemma safe_survey_hammer [safe_intros]: "keeps_s2 K g (survey_hammer ram n e)"
  unfolding survey_hammer_def by (rule safe_fold) (auto intro!: safe_bind_keep safe_intros)

lemma safe_row [safe_intros]: "keeps_s2 K g (row label l)"
  unfolding row_def by (intro safe_intros) auto

lemma safe_print_canary [safe_intros]: "keeps_s2 K g (print_canary v)"
  unfolding print_canary_def by (intro safe_intros) auto

lemmas uses_probes [uses_intros] =
  safe_survey_ram [THEN safe_uses] safe_survey_hammer [THEN safe_uses] safe_row [THEN safe_uses]
  safe_print_canary [THEN safe_uses]

lemma safe_hammer_loop:
  assumes "\<And>sw s. keeps_s2 K g (keep sw s)"
  shows "keeps_s2 K g (hammer_loop fuel K vcpu keep s)"
proof (induction fuel arbitrary: s)
  case (Suc fuel)
  then show ?case
    by (auto intro!: safe_bind_keep safe_then_keep safe_run_to_doorbell safe_guest safe_ret assms split: guest_exit.splits)
qed (simp add: safe_out_of_fuel)

lemma safe_run_hammer:
  "(\<And>sw s. keeps_s2 K g (keep sw s)) \<Longrightarrow> keeps_s2 K g (run_hammer fuel K vcpu n keep s)"
  unfolding run_hammer_def by (intro safe_then_keep safe_guest safe_hammer_loop)

lemma safe_drop_opt [safe_intros]: "keeps_s2 K g (case gd of None \<Rightarrow> ret () | Some pid \<Rightarrow> drop_guard K pid)"
  by (cases gd) (auto intro!: safe_intros)

lemma safe_keep_going: "keeps_s2 K g (keep_going K sw s)"
proof -
  have "keeps_s2 K g (ham_receive K s)" for s
    unfolding ham_receive_def by (auto intro!: safe_bind_keep safe_intros)
  moreover have "keeps_s2 K g (ham_release K s)" for s
    unfolding ham_release_def
    by (auto intro!: safe_bind_keep safe_then_keep safe_intros split: option.split)
  ultimately show ?thesis
    unfolding keep_going_def by (auto intro!: safe_bind_keep safe_intros split: option.split)
qed

text \<open>A canary lives apart from the VM: arming it leaves a VM state, and so does dropping it.\<close>

definition vm_canary :: "nat \<Rightarrow> nat \<Rightarrow> usize \<Rightarrow> canary \<Rightarrow> ghost \<Rightarrow> bool" where
  "vm_canary code ram n c g \<longleftrightarrow> vm_state code ram n g
     \<and> bytes (canary_ptr c) (canary_size c) \<inter> (bytes code (of_nat PAGE) \<union> bytes ram n) = {}"

lemma safe_arm_vm:
  assumes "vm_state code ram n g"
  shows "safe K g (arm K gib) (\<lambda>c g'. vm_canary code ram n c g')"
proof (rule safe_weaken [OF safe_arm [OF vm_backed [OF assms]]])
  fix c :: canary and g' :: ghost assume h: "s2 g' = s2 g \<and> live g \<subseteq> live g' \<and> bytes (canary_ptr c) (canary_size c) \<inter> live g = {}"
  have l: "bytes code (of_nat PAGE) \<union> bytes ram n \<subseteq> live g" using assms by (simp add: vm_state_def alive_def)
  then have "vm_state code ram n g'" using vm_state_cong [OF assms] h by blast
  then show "vm_canary code ram n c g'" unfolding vm_canary_def using h l by blast
qed

lemma safe_drop_canary_vm:
  assumes "vm_canary code ram n c g"
  shows "safe K g (drop_canary K c) (\<lambda>_ g'. vm_state code ram n g')"
proof -
  have v: "vm_state code ram n g" and
    d: "bytes (canary_ptr c) (canary_size c) \<inter> (bytes code (of_nat PAGE) \<union> bytes ram n) = {}"
    using assms by (auto simp: vm_canary_def)
  have "clear_of (s2 g) (canary_ptr c) (canary_size c)"
    unfolding clear_of_def using v d
    by (auto simp: vm_state_def vm_s2_def s2_map_def split: if_splits dest!: bytes_mem)
  moreover have "vm_state code ram n g'"
    if "s2 g' = s2 g \<and> live g - bytes (canary_ptr c) (canary_size c) \<subseteq> live g'" for g' :: ghost
    by (rule vm_state_cong [OF v]) (use that d v in \<open>auto simp: vm_state_def alive_def\<close>)
  ultimately show ?thesis by (intro safe_weaken [OF safe_drop_canary]) auto
qed

lemma uses_keep_going [uses_intros]: "uses K (keep_going K sw s)"
  using safe_keep_going safe_uses by blast

lemma uses_run_hammer [uses_intros]: "uses K (run_hammer fuel K vcpu n (keep_going K) s)"
  by (rule safe_uses [OF safe_run_hammer]) (rule safe_keep_going)

lemma uses_drop_opt [uses_intros]: "uses K (case gd of None \<Rightarrow> ret () | Some pid \<Rightarrow> drop_guard K pid)"
  using safe_drop_opt safe_uses by blast

lemma uses_sum [uses_intros]:
  "(\<And>e. uses K (f e)) \<Longrightarrow> (\<And>e. uses K (h e)) \<Longrightarrow> uses K (case r of Inl e \<Rightarrow> f e | Inr e \<Rightarrow> h e)"
  by (simp split: sum.split)

lemma uses_prod [uses_intros]: "(\<And>a b. uses K (f a b)) \<Longrightarrow> uses K (case r of (a, b) \<Rightarrow> f a b)"
  by (simp split: prod.split)

lemma uses_checks_main [uses_intros]: "uses K (parked_pressure_check K ram n opts)"
    "uses K (hammer_check fuel K vcpu ram n opts)"
  unfolding parked_pressure_check_def hammer_check_def by (intro uses_intros)+

lemma safe_parked:
  assumes "vm_state code ram n g"
  shows "safe K g (parked_pressure_check K ram n opts) (\<lambda>_ g'. vm_state code ram n g')"
  unfolding parked_pressure_check_def
  by (rule safe_bind [OF safe_arm_vm [OF assms]])
    (auto intro!: safe_bind_keep safe_then_keep safe_intros safe_drop_canary_vm uses_intros split: sum.split)

lemma safe_hammer_check:
  assumes "vm_state code ram n g"
  shows "safe K g (hammer_check fuel K vcpu ram n opts) (\<lambda>_ g'. vm_state code ram n g')"
  unfolding hammer_check_def
  by (rule safe_then_keep [OF safe_println], simp, rule safe_bind [OF safe_arm_vm [OF assms]])
    (auto intro!: safe_bind_keep safe_then_keep safe_for safe_run_hammer safe_keep_going safe_intros
      safe_drop_canary_vm uses_intros)

section \<open>The reclaim experiment\<close>

lemma safe_dirty_ram [safe_intros]: "keeps_s2 K g (dirty_ram fuel K vcpu ram n opts)"
  unfolding dirty_ram_def by (auto intro!: safe_touch safe_intros)

lemmas uses_dirty_ram [uses_intros] = safe_dirty_ram [THEN safe_uses]

lemma uses_main_cycle [uses_intros]: "uses K (main_cycle fuel K vcpu n opts cycle s)"
  unfolding main_cycle_def Let_def by (intro uses_intros)

text \<open>A VM whose RAM is at the first component of the state.\<close>

lemma safe_main_cycle:
  assumes vm: "vm_state code (fst s) n g" and "\<not> naive opts"
  shows "safe K g (main_cycle fuel K vcpu n opts cycle s) (\<lambda>s' g'. vm_state code (fst s') n g')"
proof -
  obtain r l ds where s: "s = (r, l, ds)" by (cases s)
  have first: "safe K g (if cycle > 1 then bind_io (reset_ram K r n) (\<lambda>ram. bind_io (ledger_read K) (\<lambda>l. ret (ram, l)))
      else ret (r, l)) (\<lambda>p g'. vm_state code (fst p) n g')"
    using vm s by (cases "cycle > 1") (simp_all add: safe_ret, rule safe_bind [OF safe_reset_ram],
      auto intro!: safe_bind_keep safe_intros uses_intros)
  show ?thesis
    unfolding s main_cycle_def prod.case
    by (rule safe_bind [OF first])
      (auto simp: Let_def intro!: safe_bind_keep safe_then_keep safe_timed safe_reclaim assms(2) vm_stateD safe_intros uses_intros)
qed

lemma safe_fold_inv:
  assumes "\<And>i s g. P s g \<Longrightarrow> safe K g (f i s) P" and "\<And>i s. uses K (f i s)" and "P s g"
  shows "safe K g (fold_io is f s) P"
  using assms(3)
proof (induction "is" arbitrary: s g)
  case (Cons i "is")
  show ?case using safe_bind [OF assms(1) [OF Cons.prems] Cons.IH] assms(2) by (simp add: uses_fold)
qed (auto intro: safe_ret)

lemma uses_main_tail [uses_intros]: "uses K (print_deltas opts ds)" "uses K (retouch fuel K vcpu ram n opts l)"
    "uses K (vm_teardown K ram n code)"
  unfolding print_deltas_def retouch_def vm_teardown_def by (intro uses_intros)+

lemma safe_retouch:
  assumes "vm_state code ram n g"
  shows "safe K g (retouch fuel K vcpu ram n opts l) (\<lambda>_ g'. vm_state code ram n g')"
proof -
  have a: "safe K g (when_io b (parked_pressure_check K ram n opts)) (\<lambda>_ g'. vm_state code ram n g')" for b
    by (intro safe_intros safe_parked assms)
  have b: "safe K g' (when_io b (hammer_check fuel K vcpu ram n opts)) (\<lambda>_ g'. vm_state code ram n g')"
    if "vm_state code ram n g'" for b g'
    by (intro safe_intros safe_hammer_check that)
  show ?thesis
    unfolding retouch_def
    by (auto intro!: safe_bind_keep safe_then_keep safe_touch safe_intros safe_then [OF a] b uses_intros)
qed

text \<open>After the VM is destroyed nothing is mapped, so the host memory may go.\<close>

lemma safe_teardown: "safe K g (vm_teardown K ram n code) (\<lambda>_ g'. s2 g' = (\<lambda>_. None))"
proof -
  have d: "safe K g (check_sys K HvVmDestroy a) (\<lambda>_ g'. s2 g' = (\<lambda>_. None))" for a
    by (rule safe_check_sys) (auto simp: g_event_def)
  have m: "safe K g' (sys_ignore K (Munmap p len)) (\<lambda>_ g''. s2 g'' = (\<lambda>_. None))" if "s2 g' = (\<lambda>_. None)" for g' p len
    by (rule safe_sys_ignore) (use that in \<open>auto simp: clear_of_def\<close>)
  show ?thesis
    unfolding vm_teardown_def by (rule safe_then [OF d]) (auto intro!: safe_then [OF m] m uses_intros)
qed

lemma safe_main_reclaim:
  assumes "vm_state code ram n g" "\<not> naive opts"
  shows "safe K g (main_reclaim fuel K vcpu ram code n opts) (\<lambda>_ g'. s2 g' = (\<lambda>_. None))"
proof -
  have loop: "safe K g (fold_io is (main_cycle fuel K vcpu n opts) (ram, l, ds)) (\<lambda>s g'. vm_state code (fst s) n g')" for "is" l ds
    by (rule safe_fold_inv [where P = "\<lambda>s g. vm_state code (fst s) n g"]) (use assms in \<open>auto intro: safe_main_cycle uses_intros\<close>)
  have tail: "safe K g' (then_io (when_io b (retouch fuel K vcpu r n opts l))
      (then_io (println x xs) (then_io (check_sys K (HvVcpuDestroy vcpu) y) (vm_teardown K r n code))))
      (\<lambda>_ g'. s2 g' = (\<lambda>_. None))" if "vm_state code r n g'" for r g' b l x xs y
    by (rule safe_then [OF safe_when [where Q = "\<lambda>_ g'. vm_state code r n g'"]])
      (use that in \<open>auto intro!: safe_retouch safe_then_keep safe_teardown safe_intros uses_intros\<close>)
  show ?thesis
    unfolding main_reclaim_def
    by (rule safe_bind_keep [OF safe_ledger_read], rule safe_bind [OF loop])
      (auto simp: print_deltas_def intro!: safe_then_keep tail safe_intros uses_intros split: prod.split)
qed

section \<open>Advice while mapped\<close>

lemma disciplined_prefix: "disciplined (t @ es) \<Longrightarrow> disciplined t"
  by (simp add: disciplined_def disciplined_from_append)

text \<open>Advice given while guest RAM is mapped breaks the discipline for good.\<close>

lemma advice_while_mapped:
  assumes "vm_state code ram n (ghost_of t)" "0 < n"
  shows "\<not> disciplined (t @ (Madvise ram n adv, r) # es)"
proof
  assume "disciplined (t @ (Madvise ram n adv, r) # es)"
  then have "disciplined (t @ [(Madvise ram n adv, r)])" using disciplined_prefix [of "t @ [(Madvise ram n adv, r)]" es] by simp
  then have "clear_of (s2 (ghost_of t)) ram n" by (simp add: disciplined_snoc)
  moreover have "s2 (ghost_of t) RAM_GPA = Some (ram, RW)" using assms by (simp add: vm_state_def vm_s2_def s2_map_def)
  moreover have "ram \<in> bytes ram n" using assms(2) by (simp add: bytes_def unat_gt_0 word_neq_0_conv)
  ultimately show False unfolding clear_of_def by blast
qed

section \<open>Setting up a VM\<close>

text \<open>Memory for a VM that is not mapped yet.\<close>

definition unmapped_vm :: "nat \<Rightarrow> nat \<Rightarrow> usize \<Rightarrow> ghost \<Rightarrow> bool" where
  "unmapped_vm code ram n g \<longleftrightarrow> s2 g = (\<lambda>_. None) \<and> alive g ram n \<and> alive g code (of_nat PAGE)
     \<and> bytes code (of_nat PAGE) \<inter> bytes ram n = {}"

lemma safe_install_vm:
  assumes "unmapped_vm code ram n g"
  shows "safe K g (then_io (write_code_page K code) (then_io (check_sys K HvVmCreate a)
      (then_io (check_sys K (HvVmMap code CODE_GPA (of_nat PAGE) (HV_MEMORY_READ OR HV_MEMORY_EXEC)) b)
      (then_io (map_rw K ram RAM_GPA n c) (ret x))))) (\<lambda>y g'. y = x \<and> vm_state code ram n g')"
proof -
  let ?g = "g\<lparr>s2 := s2_map code CODE_GPA (of_nat PAGE) RX (s2 g)\<rparr>"
  have cm: "safe K g (check_sys K (HvVmMap code CODE_GPA (of_nat PAGE) (HV_MEMORY_READ OR HV_MEMORY_EXEC)) b) (\<lambda>_ g'. g' = ?g)"
    by (rule safe_check_sys) (use assms in \<open>simp_all add: unmapped_vm_def g_event_def RX_def\<close>)
  have rm: "safe K ?g (map_rw K ram RAM_GPA n c) (\<lambda>_ g'. vm_state code ram n g')"
    by (rule safe_map_rw) (use assms in \<open>simp_all add: unmapped_vm_def alive_def vm_state_def vm_s2_def\<close>)
  show ?thesis
    by (rule safe_then_keep [OF safe_write_code_page], rule safe_then_keep [OF safe_quiet_check], simp, simp,
        rule safe_then [OF cm])
      (auto intro!: safe_then [OF rm] safe_ret uses_intros)
qed

end
