(* ===== verification/Soak_Safe.thy ===== *)
theory Soak_Safe
  imports Main_Safe Calls
begin

text \<open>
  The discipline of the soak under every schedule. A worker may panic half-way through its
  reclaim cycle and leave its cold range unmapped, or even without host memory; what the other
  workers rely on is not touched by that. The invariant is therefore per worker: the stage-2
  table is a part of the one \<^verbatim>\<open>main\<close> set up, and every worker that has not died still owns the
  host memory of its cold range.
\<close>

section \<open>A worker's cold range\<close>

definition sub_s2 :: "stage2 \<Rightarrow> stage2 \<Rightarrow> bool" where
  "sub_s2 s t \<longleftrightarrow> (\<forall>a x. s a = Some x \<longrightarrow> t a = Some x)"

lemma sub_s2_clear: "sub_s2 s t \<Longrightarrow> clear_of (s2_unmap a n t) p n \<Longrightarrow> clear_of (s2_unmap a n s) p n"
  unfolding sub_s2_def clear_of_def s2_unmap_def by (metis (no_types, lifting) option.distinct(1))

lemma sub_s2_unmap: "sub_s2 s t \<Longrightarrow> sub_s2 (s2_unmap a n s) t"
  by (simp add: sub_s2_def s2_unmap_def)

lemma sub_s2_map: "sub_s2 s t \<Longrightarrow> mapped_at t a n h \<Longrightarrow> sub_s2 (s2_map h a n RW s) t"
  by (auto simp: sub_s2_def s2_map_def mapped_at_def)

definition cold_off :: "options \<Rightarrow> nat \<Rightarrow> nat" where
  "cold_off opts k = k * unat (slot_size opts) + unat (half_size (slot_size opts))"

text \<open>The cold range of a worker as an extent of guest RAM.\<close>

lemma cold_extent:
  assumes "k < unat (soak_vcpus opts)"
  defines "c \<equiv> cold_range (slot_size opts) (half_size (slot_size opts)) (of_nat k)"
  shows "snd c - fst c = half_size (slot_size opts)" "fst c = of_nat (cold_off opts k)" "unat (fst c) = cold_off opts k"
    and "cold_off opts k + unat (half_size (slot_size opts)) \<le> unat (push_bit 30 (size_gb opts) :: usize)" "cold_off opts k < 2 ^ 64"
proof -
  note R = slot_ranges [OF assms(1)]
  show "snd c - fst c = half_size (slot_size opts)" by (simp add: c_def cold_range_def)
  show "fst c = of_nat (cold_off opts k)" by (simp add: c_def cold_range_def cold_off_def)
  show u: "unat (fst c) = cold_off opts k" unfolding c_def cold_off_def by (rule R(3))
  show "cold_off opts k + unat (half_size (slot_size opts)) \<le> unat (push_bit 30 (size_gb opts) :: usize)"
    using R(5,6) by (simp add: cold_off_def)
  show "cold_off opts k < 2 ^ 64" using u unat_lt64 [of "fst c"] by simp
qed

lemma cold_apart:
  assumes "i \<noteq> j"
  shows "bytes (ram + cold_off opts i) (half_size (slot_size opts)) \<inter> bytes (ram + cold_off opts j) (half_size (slot_size opts)) = {}"
proof -
  let ?s = "unat (slot_size opts)" and ?h = "unat (half_size (slot_size opts))"
  have h: "2 * ?h \<le> ?s" using half_bound(1) [of "slot_size opts"] by simp
  have "cold_off opts i + ?h \<le> cold_off opts j" if "i < j" for i j
  proof -
    have "Suc i * ?s \<le> j * ?s" using that by (intro mult_le_mono1) simp
    then show ?thesis using h by (simp add: cold_off_def)
  qed
  then have "cold_off opts i + ?h \<le> cold_off opts j \<or> cold_off opts j + ?h \<le> cold_off opts i"
    using assms by (cases "i < j") auto
  then show ?thesis by (auto simp: bytes_def)
qed

text \<open>What a worker's reclaim needs of the table and of the host memory.\<close>

lemma vm_part:
  assumes "bytes code (of_nat PAGE) \<inter> bytes ram n = {}" "off + unat len \<le> unat n" "off < 2 ^ 64"
  shows "owned (vm_s2 code ram n) (RAM_GPA + of_nat off) len (ram + off)"
    and "mapped_at (vm_s2 code ram n) (RAM_GPA + of_nat off) len (ram + off)"
proof -
  let ?g = "\<lparr>s2 = vm_s2 code ram n, live = UNIV\<rparr>"
  have "vm_state code ram n ?g" using assms(1) by (simp add: vm_state_def alive_def)
  note P = ram_part [OF vm_stateD [OF this] assms(2,3)]
  show "owned (vm_s2 code ram n) (RAM_GPA + of_nat off) len (ram + off)"
    "mapped_at (vm_s2 code ram n) (RAM_GPA + of_nat off) len (ram + off)" using P by simp_all
qed

section \<open>The invariant\<close>

abbreviation cold_host :: "nat \<Rightarrow> options \<Rightarrow> nat \<Rightarrow> nat" where
  "cold_host ram opts i \<equiv> ram + cold_off opts i"

abbreviation half_of :: "options \<Rightarrow> usize" where
  "half_of opts \<equiv> half_size (slot_size opts)"

abbreviation vm_table :: "nat \<Rightarrow> nat \<Rightarrow> options \<Rightarrow> stage2" where
  "vm_table code ram opts \<equiv> vm_s2 code ram (push_bit 30 (size_gb opts))"

text \<open>A worker that is about to release its cold range has it unmapped.\<close>

definition at_release :: "phase \<Rightarrow> bool" where
  "at_release p \<longleftrightarrow> (case p of Running wk \<Rightarrow> w_point wk = ColdRelease | _ \<Rightarrow> False)"

definition soak_inv :: "nat \<Rightarrow> nat \<Rightarrow> options \<Rightarrow> soak_state \<Rightarrow> ghost \<Rightarrow> bool" where
  "soak_inv code ram opts s g \<longleftrightarrow>
     sub_s2 (s2 g) (vm_table code ram opts) \<and> length (threads s) = unat (soak_vcpus opts)
     \<and> (\<forall>i<length (threads s). threads s ! i \<noteq> Died \<longrightarrow> alive g (cold_host ram opts i) (half_of opts))
     \<and> (\<forall>i<length (threads s). at_release (threads s ! i) \<longrightarrow> clear_of (s2 g) (cold_host ram opts i) (half_of opts))"

lemmas cold_defs = cold_unmap_def cold_release_def cold_remap_def

lemma uses_cold [uses_intros]: "uses K (cold_unmap K rng)" "uses K (cold_release K ram rng mode adv)" "uses K (cold_remap K ram rng)"
    "uses K (detector_self_test fuel K v ram hot e)"
  unfolding cold_defs detector_self_test_def Let_def by (intro uses_intros)+

lemma uses_worker [uses_intros]: "uses K (worker_setup fuel K k slot half ram)"
    "uses K (worker_op fuel K k slot half ram mode adv wk st)"
  unfolding worker_setup_def worker_op_def Let_def by (auto intro!: uses_intros split: point.split)

lemma safe_worker_setup: "safe K g (worker_setup fuel K k slot half ram) (\<lambda>wk g'. g' = g \<and> w_point wk = HotSweep 0)"
proof -
  have "keeps_s2 K g (detector_self_test fuel K v ram hot e)" for v hot e
    unfolding detector_self_test_def Let_def by (intro safe_bind_keep safe_then_keep safe_sweep safe_intros) auto
  then show ?thesis
    unfolding worker_setup_def Let_def
    by (intro safe_bind_keep safe_then_keep safe_sweep safe_guest safe_intros) auto
qed

text \<open>An operation of a worker that succeeds; a schedule may stop it before or after each of its steps.\<close>

lemma safe_worker_op:
  assumes k: "k < unat (soak_vcpus opts)" and ap: "bytes code (of_nat PAGE) \<inter> bytes ram (push_bit 30 (size_gb opts)) = {}"
    and sub: "sub_s2 (s2 g) (vm_table code ram opts)" and al: "alive g (cold_host ram opts k) (half_of opts)"
    and cl: "w_point wk = ColdRelease \<Longrightarrow> clear_of (s2 g) (cold_host ram opts k) (half_of opts)"
  shows "safe K g (worker_op fuel K (of_nat k) (slot_size opts) (half_of opts) ram mode adv wk st)
     (\<lambda>_ g'. sub_s2 (s2 g') (vm_table code ram opts) \<and> live g' = live g
        \<and> (w_point wk = ColdUnmap \<longrightarrow> clear_of (s2 g') (cold_host ram opts k) (half_of opts)))" (is "safe K g _ ?Q")
proof -
  note C = cold_extent [OF k]
  let ?gpa = "RAM_GPA + of_nat (cold_off opts k)" and ?c = "cold_range (slot_size opts) (half_of opts) (of_nat k)"
  have P: "owned (vm_table code ram opts) ?gpa (half_of opts) (cold_host ram opts k)" "mapped_at (vm_table code ram opts) ?gpa (half_of opts) (cold_host ram opts k)"
    using vm_part [OF ap] C(4,5) by blast+
  have un: "safe K g (cold_unmap K ?c) (\<lambda>_ g'. sub_s2 (s2 g') (vm_table code ram opts) \<and> live g' = live g
      \<and> clear_of (s2 g') (cold_host ram opts k) (half_of opts))"
    unfolding cold_defs C(1) unfolding C(2)
    by (rule safe_weaken [OF safe_unmap_range]) (use sub_s2_unmap [OF sub] sub_s2_clear [OF sub unmap_clears [OF P(1)]] in auto)
  have rel: "keeps_s2 K g (cold_release K ram ?c mode adv)" if "w_point wk = ColdRelease"
    unfolding cold_defs C(1,3) by (rule safe_release [OF cl [OF that] al])
  have re: "safe K g (cold_remap K ram ?c) (\<lambda>_ g'. sub_s2 (s2 g') (vm_table code ram opts) \<and> live g' = live g)"
    unfolding cold_defs C(1,3) unfolding C(2) by (rule safe_map_rw) (use al sub_s2_map [OF sub P(2)] in simp_all)
  show ?thesis
  proof (cases "w_point wk")
    case ColdUnmap
    then show ?thesis unfolding worker_op_def Let_def ColdUnmap point.case
      by (intro safe_then [OF un]) (auto intro!: safe_ret uses_intros)
  next
    case ColdRelease
    then show ?thesis unfolding worker_op_def Let_def ColdRelease point.case
      using sub by (intro safe_then_keep [OF rel [OF ColdRelease]]) (auto intro!: safe_ret)
  next
    case ColdRemap
    then show ?thesis unfolding worker_op_def Let_def ColdRemap point.case
      by (intro safe_then [OF re]) (auto intro!: safe_ret uses_intros)
  qed (use sub in \<open>auto simp: worker_op_def Let_def intro!: safe_then_keep safe_bind_keep safe_sweep safe_intros\<close>)
qed

section \<open>What a worker leaves to the others, however an operation of it ends\<close>

definition cold_call :: "nat \<Rightarrow> u64 \<Rightarrow> usize \<Rightarrow> call \<Rightarrow> bool" where
  "cold_call host gpa len c \<longleftrightarrow> quiet c \<or> c = HvVmUnmap gpa len \<or> c = HvVmMap host gpa len RW
     \<or> (\<exists>adv. c = Madvise host len adv) \<or> c = Munmap host len \<or> (\<exists>fl. c = Mmap host len fl)"

lemma cold_calls:
  assumes "k < unat (soak_vcpus opts)"
  shows "calls_only (cold_call (cold_host ram opts k) (RAM_GPA + of_nat (cold_off opts k)) (half_of opts))
     (worker_op fuel K (of_nat k) (slot_size opts) (half_of opts) ram mode adv wk st)"
    (is "calls_only ?P _")
proof -
  note C = cold_extent [OF assms]
  let ?c = "cold_range (slot_size opts) (half_of opts) (of_nat k)"
  have q: "?P c" if "quiet c" for c using that by (simp add: cold_call_def)
  have rec: "calls_only ?P (cold_unmap K ?c)" "calls_only ?P (cold_release K ram ?c mode adv)" "calls_only ?P (cold_remap K ram ?c)"
    unfolding cold_defs C(1,3) unfolding C(2) unmap_range_def map_rw_def RW_def [symmetric]
    by (cases mode; auto simp: release_def advise_def cold_call_def intro!: calls_intros calls_sys calls_check_sys)+
  show ?thesis
    unfolding worker_op_def Let_def
    by (cases "w_point wk") (auto intro!: calls_then calls_bind calls_passes calls_ledger_read calls_check_sys rec calls_ret q)
qed

lemma next_release: "next_point p = ColdRelease \<longleftrightarrow> p = ColdUnmap"
  by (cases p) auto

text \<open>The table stays a part of the one that was set up, only the worker's own bytes can be lost, and
  what was clear of another range stays clear of it.\<close>

definition leaves :: "stage2 \<Rightarrow> nat \<Rightarrow> usize \<Rightarrow> ghost \<Rightarrow> ghost \<Rightarrow> bool" where
  "leaves t host len g g' \<longleftrightarrow> sub_s2 (s2 g') t \<and> live g - bytes host len \<subseteq> live g'
     \<and> (\<forall>p n. bytes p n \<inter> bytes host len = {} \<longrightarrow> clear_of (s2 g) p n \<longrightarrow> clear_of (s2 g') p n)"

lemma clear_map: "clear_of s p n \<Longrightarrow> bytes p n \<inter> bytes host len = {} \<Longrightarrow> clear_of (s2_map host gpa len fl s) p n"
  by (auto simp: clear_of_def s2_map_def bytes_def word_less_nat_alt split: if_splits)

lemma clear_unmap: "clear_of s p n \<Longrightarrow> clear_of (s2_unmap gpa len s) p n"
  by (auto simp: clear_of_def s2_unmap_def split: if_splits)

lemma cold_event:
  assumes "cold_call host gpa len c" "mapped_at t gpa len host" "leaves t host len g0 g"
  shows "leaves t host len g0 (g_event (c, r) g)"
proof (cases "quiet c")
  case True
  then show ?thesis using assms(3) by (simp add: quiet_event)
next
  case False
  then show ?thesis
    using assms sub_s2_unmap [of "s2 g" t] sub_s2_map [of "s2 g" t] clear_map [of "s2 g"] clear_unmap [of "s2 g"]
    unfolding cold_call_def leaves_def by (elim disjE exE) (auto simp: g_event_def)
qed

lemma setup_calls: "calls_only quiet (worker_setup fuel K k slot half ram)"
proof -
  have "calls_only quiet (detector_self_test fuel K v ram hot e)" for v hot e
    unfolding detector_self_test_def Let_def by (intro calls_bind calls_then calls_ret calls_passes)
  then show ?thesis
    unfolding worker_setup_def Let_def
    by (intro calls_bind calls_then calls_ret calls_passes calls_when calls_guest calls_sys) simp_all
qed

section \<open>The run\<close>

lemma soak_inv_thread:
  assumes inv: "soak_inv code ram opts s g" and i: "i < length (threads s)"
    and lv: "leaves (vm_table code ram opts) (cold_host ram opts i) (half_of opts) g g'"
    and p: "p = Died \<or> live g \<subseteq> live g' \<and> threads s ! i \<noteq> Died \<and> (at_release p \<longrightarrow> clear_of (s2 g') (cold_host ram opts i) (half_of opts))"
  shows "soak_inv code ram opts (s\<lparr>threads := (threads s)[i := p], s_stats := st\<rparr>) g'"
proof -
  let ?h = "half_of opts" and ?b = "\<lambda>j. bytes (cold_host ram opts j) (half_of opts)"
  have a: "alive g' (cold_host ram opts j) ?h" if "j < length (threads s)" "(threads s)[i := p] ! j \<noteq> Died" for j
  proof (cases "j = i")
    case True
    then have "live g \<subseteq> live g'" "threads s ! i \<noteq> Died" using that i p by auto
    then show ?thesis using inv i True unfolding soak_inv_def alive_def by blast
  next
    case False
    then have "?b j \<subseteq> live g" using that inv by (auto simp: soak_inv_def alive_def)
    then show ?thesis using lv cold_apart [OF False, of ram opts] by (auto simp: leaves_def alive_def)
  qed
  have c: "clear_of (s2 g') (cold_host ram opts j) ?h" if "j < length (threads s)" "at_release ((threads s)[i := p] ! j)" for j
  proof (cases "j = i")
    case True
    then show ?thesis using that i p by (auto simp: at_release_def)
  next
    case False
    then have "clear_of (s2 g) (cold_host ram opts j) ?h" using that inv by (auto simp: soak_inv_def)
    then show ?thesis using lv cold_apart [OF False, of ram opts] by (auto simp: leaves_def)
  qed
  show ?thesis using inv lv a c by (simp add: soak_inv_def leaves_def)
qed

lemma leaves_same: "sub_s2 (s2 g) t \<Longrightarrow> leaves t host len g g"
  by (auto simp: leaves_def)

lemma uses_phase [uses_intros]:
  "uses K a \<Longrightarrow> (\<And>wk. uses K (b wk)) \<Longrightarrow> uses K c \<Longrightarrow> uses K d \<Longrightarrow>
    uses K (case p of Fresh \<Rightarrow> a | Running wk \<Rightarrow> b wk | Finished \<Rightarrow> c | Died \<Rightarrow> d)"
  by (simp split: phase.split)

lemma uses_worker_turn [uses_intros]: "uses K (worker_turn fuel K opts ram dl i s)"
  unfolding worker_turn_def Let_def by (intro uses_intros)

lemma safe_worker_turn:
  assumes inv: "soak_inv code ram opts s g"
    and ap: "bytes code (of_nat PAGE) \<inter> bytes ram (push_bit 30 (size_gb opts)) = {}"
  shows "safe K g (worker_turn fuel K opts ram dl i s) (soak_inv code ram opts)"
proof (cases "i < length (threads s)")
  case False
  then show ?thesis using inv by (simp add: worker_turn_def Let_def safe_ret)
next
  case i: True
  let ?t = "vm_table code ram opts" and ?h = "half_of opts" and ?host = "cold_host ram opts i"
  let ?op = "\<lambda>wk. worker_op fuel K (of_nat i) (slot_size opts) ?h ram (reclaim_mode opts) (advice opts) wk (s_stats s)"
  have k: "i < unat (soak_vcpus opts)" and sub: "sub_s2 (s2 g) ?t" using inv i by (auto simp: soak_inv_def)
  have up: "soak_inv code ram opts (s\<lparr>threads := (threads s)[i := p]\<rparr>) g'" if "soak_inv code ram opts (s\<lparr>threads := (threads s)[i := p], s_stats := s_stats s\<rparr>) g'" for p g'
    using that by (simp add: soak_inv_def)
  have same: "soak_inv code ram opts (s\<lparr>threads := (threads s)[i := p]\<rparr>) g" if "threads s ! i \<noteq> Died" "\<not> at_release p" for p
    by (rule up, rule soak_inv_thread [OF inv i leaves_same [OF sub]]) (use that in auto)
  show ?thesis
  proof (cases "threads s ! i")
    case Fresh
    have w: "safe K g (in_thread (worker_setup fuel K (of_nat i) (slot_size opts) ?h ram)) (\<lambda>r g'. g' = g \<and> (\<forall>wk. r = Some wk \<longrightarrow> w_point wk = HotSweep 0))"
      by (rule safe_weaken [OF safe_in_thread [OF safe_worker_setup, where R = "\<lambda>g'. g' = g"]])
        (auto simp: quiet_calls_ghost [OF setup_calls])
    show ?thesis
      unfolding worker_turn_def Let_def using i Fresh
      by (auto intro!: safe_bind [OF w] safe_ret same uses_intros simp: at_release_def split: option.splits)
  next
    case (Running wk)
    then have al: "alive g ?host ?h" using inv i by (auto simp: soak_inv_def)
    have cl: "clear_of (s2 g) ?host ?h" if "w_point wk = ColdRelease" using inv i Running that by (auto simp: soak_inv_def at_release_def)
    have m: "mapped_at ?t (RAM_GPA + of_nat (cold_off opts i)) ?h ?host" using vm_part [OF ap] cold_extent(4,5) [OF k] by blast
    let ?Q = "\<lambda>g'. leaves ?t ?host ?h g g'"
    have lv: "?Q (ghost_of (trace (snd (?op wk w))))" if "ghost_of (trace w) = g" for w
      by (rule calls_keep [OF cold_calls [OF k]]) (use that leaves_same [OF sub] cold_event [OF _ m] in auto)
    have op: "safe K g (?op wk) (\<lambda>_ g'. sub_s2 (s2 g') ?t \<and> live g' = live g \<and> (w_point wk = ColdUnmap \<longrightarrow> clear_of (s2 g') ?host ?h))"
      by (rule safe_worker_op [OF k ap sub al]) (rule cl)
    have st: "safe K g (bind_io (in_thread (?op wk)) (\<lambda>r. ret (case r of None \<Rightarrow> s\<lparr>threads := (threads s)[i := Died]\<rparr>
        | Some (wk', st) \<Rightarrow> s\<lparr>threads := (threads s)[i := Running (wk'\<lparr>w_point := next_point (w_point wk)\<rparr>)], s_stats := st\<rparr>))) (soak_inv code ram opts)"
      by (rule safe_bind [OF safe_in_thread [OF op, where R = "?Q", OF lv]])
        (auto intro!: safe_ret uses_intros up soak_inv_thread [OF inv i] simp: Running at_release_def next_release split: option.splits)
    have de: "safe K g (in_thread (check_sys K (HvVcpuDestroy v) a)) (\<lambda>_ g'. g' = g)" for v a
      by (rule safe_weaken [OF safe_in_thread [where R = "\<lambda>g'. g' = g" and Q = "\<lambda>_ g'. g' = g"]])
        (auto intro!: safe_intros simp: quiet_calls_ghost [OF calls_check_sys(1)])
    have fin: "safe K g (bind_io (in_thread (check_sys K (HvVcpuDestroy v) a)) (\<lambda>r.
        ret (s\<lparr>threads := (threads s)[i := (case r of None \<Rightarrow> Died | Some _ \<Rightarrow> Finished)]\<rparr>))) (soak_inv code ram opts)" for v a
      by (auto intro!: safe_bind_keep [OF de] safe_ret same simp: Running at_release_def split: option.splits)
    show ?thesis
      unfolding worker_turn_def Let_def Running phase.case
      using i by (auto intro!: safe_bind_keep safe_intros st fin)
  qed (use i inv in \<open>simp_all add: worker_turn_def Let_def safe_ret\<close>)
qed

lemma safe_soak_turn:
  assumes inv: "soak_inv code ram opts s g"
    and ap: "bytes code (of_nat PAGE) \<inter> bytes ram (push_bit 30 (size_gb opts)) = {}"
  shows "safe K g (soak_turn fuel K opts ram dl t s) (soak_inv code ram opts)"
proof -
  have b: "soak_inv code ram opts (s\<lparr>burst := b\<rparr>) g" for b using inv by (simp add: soak_inv_def)
  have d: "keeps_s2 K g (case r of Inl e \<Rightarrow> ret () | Inr pid \<Rightarrow> drop_guard K pid)" for r :: "string + guard"
    by (cases r) (auto intro!: safe_intros)
  show ?thesis
  proof (cases t)
    case (WorkerTurn i)
    then show ?thesis using safe_worker_turn [OF assms] by (simp add: soak_turn_def)
  next
    case ProgressTurn
    then show ?thesis
      using inv by (auto simp: soak_turn_def intro!: safe_then_keep safe_bind_keep safe_intros)
  next
    case PressureTurn
    then show ?thesis
      using b d by (auto simp: soak_turn_def intro!: safe_then_keep safe_bind_keep safe_intros split: option.split)
  qed
qed

lemma uses_soak_turn [uses_intros]: "uses K (soak_turn fuel K opts ram dl t s)"
  unfolding soak_turn_def by (auto intro!: uses_intros split: turn.split option.split sum.split)

lemma uses_soak_run [uses_intros]: "uses K (soak_run fuel K sched ram opts)"
  unfolding soak_run_def soak_report_def Let_def by (auto intro!: uses_intros split: option.split sum.split)

lemma soak_inv_start:
  assumes "vm_state code ram (push_bit 30 (size_gb opts)) g"
  shows "soak_inv code ram opts \<lparr>threads = replicate (unat (soak_vcpus opts)) Fresh, s_stats = st, burst = None\<rparr> g"
proof -
  have "alive g (ram + cold_off opts i) (half_size (slot_size opts))" if "i < unat (soak_vcpus opts)" for i
    using ram_part(3) [OF vm_stateD [OF assms] cold_extent(4,5) [OF that]] .
  then show ?thesis using assms by (simp add: soak_inv_def sub_s2_def vm_state_def at_release_def)
qed

lemma safe_soak_run:
  assumes "vm_state code ram (push_bit 30 (size_gb opts)) g"
  shows "safe K g (soak_run fuel K sched ram opts) (\<lambda>_ _. True)"
proof -
  have ap: "bytes code (of_nat PAGE) \<inter> bytes ram (push_bit 30 (size_gb opts)) = {}" using assms by (simp add: vm_state_def)
  have loop: "safe K g (fold_io sched (soak_turn fuel K opts ram dl)
      \<lparr>threads = replicate (unat (soak_vcpus opts)) Fresh, s_stats = no_stats, burst = None\<rparr>) (soak_inv code ram opts)" for dl
    by (rule safe_fold_inv [where P = "soak_inv code ram opts"])
      (use ap soak_inv_start [OF assms] in \<open>auto intro: safe_soak_turn uses_intros\<close>)
  have d: "keeps_s2 K g' (case b of None \<Rightarrow> ret () | Some (Inl e) \<Rightarrow> ret () | Some (Inr pid) \<Rightarrow> drop_guard K pid)"
    for b :: "(string + guard) option" and g'
    by (auto intro!: safe_intros split: option.split sum.split)
  show ?thesis
    unfolding soak_run_def Let_def
    by (intro safe_then_keep safe_bind_keep safe_intros safe_bind [OF loop])
      (auto simp: soak_report_def intro!: safe_then_keep d safe_intros uses_intros split: option.split sum.split)
qed

section \<open>The whole program\<close>

lemma uses_vm_setup [uses_intros]: "uses K (vm_setup K n)" "uses K (vcpu_setup K)" "uses K (banner K opts)"
  unfolding vm_setup_def vcpu_setup_def banner_def by (intro uses_intros)+

lemma safe_vm_setup:
  assumes "s2 g = (\<lambda>_. None)"
  shows "safe K g (vm_setup K n) (\<lambda>(ram, code) g'. vm_state code ram n g')"
  unfolding vm_setup_def
  by (rule safe_bind [OF safe_mmap_anon safe_bind [OF safe_mmap_anon safe_weaken [OF safe_install_vm]]])
    (use assms in \<open>auto simp: unmapped_vm_def alive_def intro!: uses_intros\<close>)

lemma safe_hv_vm_main:
  assumes "s2 g = (\<lambda>_. None)" "\<not> naive opts"
    and "fleet_sim opts \<longrightarrow> unat (push_bit 20 (service_mib opts) :: usize) * unat (services opts) < 2 ^ 64"
  shows "safe K g (hv_vm_main fuel K sched opts) (\<lambda>_ g'. s2 g' = (\<lambda>_. None))"
proof -
  let ?n = "push_bit 30 (size_gb opts) :: usize"
  have so: "safe K g' (then_io (soak_run fuel K (fst sched) ram opts) (vm_teardown K ram ?n code)) (\<lambda>_ g'. s2 g' = (\<lambda>_. None))"
    if "vm_state code ram ?n g'" for g' ram code
    by (rule safe_then [OF safe_soak_run [OF that]]) (auto intro: safe_teardown uses_intros)
  have fl: "safe K g' (then_io (fleet_run fuel K (snd sched) v ram opts) (ret ram)) (\<lambda>r g'. vm_state code r ?n g')"
    if "vm_state code ram ?n g'" "fleet_sim opts" for g' ram code v
    by (rule safe_then_keep [OF safe_fleet_run [OF that(1)]]) (use assms(3) that in \<open>auto intro: safe_ret\<close>)
  have ti: "safe K g' (if time_reclaim opts then timing_run fuel K v ram opts else then_io (fleet_run fuel K (snd sched) v ram opts) (ret ram))
      (\<lambda>r g'. vm_state code r ?n g')" if "vm_state code ram ?n g'" "time_reclaim opts \<or> fleet_sim opts" for g' ram code v
    using that fl safe_timing_run [OF that(1)] by auto
  have vs: "keeps_s2 K g' (vcpu_setup K)" for g'
    unfolding vcpu_setup_def by (intro safe_bind_keep safe_then_keep safe_guest safe_intros) auto
  have uses_rest: "uses K (main_reclaim fuel K v ram code ?n opts)" for v ram code
    unfolding main_reclaim_def by (intro uses_intros)
  have en: "safe K g' (bind_io (if time_reclaim opts then timing_run fuel K v ram opts else then_io (fleet_run fuel K (snd sched) v ram opts) (ret ram)) (\<lambda>r.
         then_io (check_sys K (HvVcpuDestroy v) a) (vm_teardown K r ?n code))) (\<lambda>_ g'. s2 g' = (\<lambda>_. None))"
    if "vm_state code ram ?n g'" "time_reclaim opts \<or> fleet_sim opts" for g' ram code v a
    by (rule safe_bind [OF ti [OF that]]) (auto intro!: safe_then_keep safe_teardown safe_intros uses_intros)
  have tail: "safe K g' (bind_io (vcpu_setup K) (\<lambda>v. if time_reclaim opts \<or> fleet_sim opts then
         bind_io (if time_reclaim opts then timing_run fuel K v ram opts else then_io (fleet_run fuel K (snd sched) v ram opts) (ret ram)) (\<lambda>r.
         then_io (check_sys K (HvVcpuDestroy v) a) (vm_teardown K r ?n code))
       else main_reclaim fuel K v ram code ?n opts)) (\<lambda>_ g'. s2 g' = (\<lambda>_. None))"
    if "vm_state code ram ?n g'" for g' ram code a
  proof (rule safe_bind_keep [OF vs])
    fix v
    show "safe K g' (if time_reclaim opts \<or> fleet_sim opts then
         bind_io (if time_reclaim opts then timing_run fuel K v ram opts else then_io (fleet_run fuel K (snd sched) v ram opts) (ret ram)) (\<lambda>r.
         then_io (check_sys K (HvVcpuDestroy v) a) (vm_teardown K r ?n code))
       else main_reclaim fuel K v ram code ?n opts) (\<lambda>_ g'. s2 g' = (\<lambda>_. None))"
      using en [OF that] safe_main_reclaim [OF that assms(2)] by (cases "time_reclaim opts \<or> fleet_sim opts") simp_all
  qed
  show ?thesis
    unfolding hv_vm_main_def Let_def
    by (rule safe_then_keep [OF _ safe_bind [OF safe_vm_setup [OF assms(1)]]])
      (auto simp: banner_def intro!: safe_then_keep safe_bind_keep safe_intros so tail uses_intros uses_rest split: prod.split)
qed

end
