(* ===== verification/Discipline.thy ===== *)
theory Discipline
  imports Soak_Safe Platform
begin

text \<open>
  The properties of the reclaim discipline: of the reclaim sequence itself and of its naive
  variant, of every experiment built on it, and of a whole run of \<^verbatim>\<open>hv-reclaim\<close>.
\<close>

section \<open>Concrete worlds\<close>

text \<open>The reference platform before the program has made any call, and after it has set up a small VM.\<close>

definition fresh_world :: "plat world" where
  "fresh_world = (boot 0x4000 0x8000 0x8000 0 (\<lambda>_. 0))\<lparr>trace := []\<rparr>"

lemma fresh_below: "below_brk fresh_world" and fresh_trace: "trace fresh_world = []"
  by (simp_all add: below_brk_def fresh_world_def honest_def ghost_of_def no_ghost_def)

lemma fresh_honest: "uses plat_kernel f \<Longrightarrow> honest (trace (snd (f fresh_world)))"
  by (rule plat_honest [OF _ fresh_below])

lemma boot_small:
  "vm_state 0x4000 0x8000 0x8000 (ghost_of (trace (boot 0x4000 0x8000 0x8000 0 (\<lambda>_. 0))))"
  "disciplined (trace (boot 0x4000 0x8000 0x8000 0 (\<lambda>_. 0)))" "below_brk (boot 0x4000 0x8000 0x8000 0 (\<lambda>_. 0))"
  using boot_vm [of "0x4000" "0x8000" "0x8000" 0 "\<lambda>_. 0"] by (simp_all add: PAGE_def)

lemma boot_gib:
  "vm_state 0x4000 0x8000 (push_bit 30 3) (ghost_of (trace (boot 0x4000 0x8000 (push_bit 30 3) 0 (\<lambda>_. 0))))"
  "disciplined (trace (boot 0x4000 0x8000 (push_bit 30 3) 0 (\<lambda>_. 0)))" "below_brk (boot 0x4000 0x8000 (push_bit 30 3) 0 (\<lambda>_. 0))"
  using boot_vm [of "0x4000" "0x8000" "push_bit 30 3" 0 "\<lambda>_. 0"] by (simp_all add: PAGE_def)

section \<open>The whole program\<close>

text \<open>
  A run of \<^verbatim>\<open>hv-reclaim\<close> that is not asked for the naive trap never releases host memory
  that is still stage-2 mapped and never maps memory the process does not own: not in the
  reclaim experiment with its probes, not in the timed cycles, not in the fleet simulation, and
  not in the soak under any schedule of its threads, however the run ends and whatever the
  kernel answers. When it returns, no stage-2 mapping is left. The fleet simulation is only
  covered when its guard does not wrap around.
\<close>

theorem main_disciplined:
  assumes "\<not> naive opts"
    and "fleet_sim opts \<longrightarrow> unat (push_bit 20 (service_mib opts) :: usize) * unat (services opts) < 2 ^ 64"
    and "trace w = []" "hv_vm_main fuel K sched opts w = (r, w')" "honest (trace w')"
  shows "disciplined (trace w') \<and> (r = Ok () \<longrightarrow> s2 (ghost_of (trace w')) = (\<lambda>_. None))"
proof -
  have S: "safe K (ghost_of (trace w)) (hv_vm_main fuel K sched opts) (\<lambda>_ g'. s2 g' = (\<lambda>_. None))"
    by (rule safe_hv_vm_main) (use assms(1-3) in \<open>simp_all add: ghost_of_def no_ghost_def\<close>)
  have D: "disciplined (trace w)" using assms(3) by (simp add: disciplined_def)
  show ?thesis
    using safeD [OF S D refl assms(4,5)] safe_OkD [OF S D refl _ assms(5)] assms(4) by blast
qed

lemma uses_hv_vm_main [uses_intros]: "uses K (hv_vm_main fuel K sched opts)"
  unfolding hv_vm_main_def main_reclaim_def Let_def by (intro uses_intros)

theorem main_disciplined_witness:
  "disciplined (trace (snd (hv_vm_main 9 plat_kernel ([], []) default_options fresh_world)))"
proof -
  obtain r w' where w': "hv_vm_main 9 plat_kernel ([], []) default_options fresh_world = (r, w')" by fastforce
  have "honest (trace w')" using fresh_honest [of "hv_vm_main 9 plat_kernel ([], []) default_options"] w' by (simp add: uses_intros)
  then show ?thesis
    using main_disciplined [OF _ _ fresh_trace w'] w' by (simp add: default_options_def)
qed

section \<open>The reclaim sequence\<close>

text \<open>
  C2. The reclaim sequence is disciplined on a VM that is set up, whichever call fails, and
  when it returns every mapping is back where it was.
\<close>

theorem reclaim_disciplined:
  assumes "vm_state code ram n (ghost_of (trace w))" "disciplined (trace w)" "\<not> naive opts"
    and "reclaim K ram n opts w = (r, w')" "honest (trace w')"
  shows "disciplined (trace w') \<and> (r = Ok () \<longrightarrow> ghost_of (trace w') = ghost_of (trace w))"
proof -
  have S: "keeps_s2 K (ghost_of (trace w)) (reclaim K ram n opts)" by (rule safe_reclaim [OF assms(3) vm_stateD [OF assms(1)]])
  show ?thesis using safeD [OF S assms(2) refl assms(4,5)] safe_OkD [OF S assms(2) refl _ assms(5)] assms(4) by blast
qed

theorem reclaim_disciplined_witness:
  "disciplined (trace (snd (reclaim plat_kernel 0x8000 0x8000 default_options (boot 0x4000 0x8000 0x8000 0 (\<lambda>_. 0)))))"
proof -
  obtain r w' where w': "reclaim plat_kernel 0x8000 0x8000 default_options (boot 0x4000 0x8000 0x8000 0 (\<lambda>_. 0)) = (r, w')" by fastforce
  have "honest (trace w')"
    using plat_honest [OF _ boot_small(3), of "reclaim plat_kernel 0x8000 0x8000 default_options"] w' by (simp add: uses_intros)
  then show ?thesis
    using reclaim_disciplined [OF boot_small(1,2) _ w'] w' by (simp add: default_options_def)
qed

text \<open>
  C3. The naive trap: with \<^verbatim>\<open>--naive\<close> the advice is given while guest RAM is still mapped, so
  the run is never disciplined, whatever the kernel answers.
\<close>

theorem naive_trap:
  assumes "vm_state code ram n (ghost_of (trace w))" "naive opts" "0 < n"
  shows "\<not> disciplined (trace (snd (reclaim K ram n opts w)))"
proof -
  obtain r w1 where m: "sys K (Madvise ram n (advice opts)) w = (Ok r, w1)" using sys_total by blast
  have "snd (reclaim K ram n opts w) = w1"
    using assms(2) m by (simp add: reclaim_def advise_def io_defs)
  then have t: "trace (snd (reclaim K ram n opts w)) = trace w @ [(Madvise ram n (advice opts), r)]"
    using sys_trace [OF m] by simp
  show ?thesis unfolding t using advice_while_mapped [OF assms(1,3)] by blast
qed

theorem naive_trap_witness:
  "\<not> disciplined (trace (snd (reclaim plat_kernel 0x8000 0x8000 (default_options\<lparr>naive := True\<rparr>) (boot 0x4000 0x8000 0x8000 0 (\<lambda>_. 0)))))"
  using naive_trap [OF boot_small(1), of "default_options\<lparr>naive := True\<rparr>" plat_kernel] by simp

section \<open>The experiments\<close>

text \<open>
  C15. Every timed cycle leaves a VM whose RAM is mapped at the address the run returns, and the
  run is disciplined whatever the extent size, mode and number of cycles.
\<close>

theorem timing_disciplined:
  assumes "vm_state code ram (push_bit 30 (size_gb opts)) (ghost_of (trace w))" "disciplined (trace w)"
    and "timing_run fuel K vcpu ram opts w = (r, w')" "honest (trace w')"
  shows "disciplined (trace w') \<and> (\<forall>ram'. r = Ok ram' \<longrightarrow> vm_state code ram' (push_bit 30 (size_gb opts)) (ghost_of (trace w')))"
proof -
  note S = safe_timing_run [OF assms(1)]
  show ?thesis using safeD [OF S assms(2) refl assms(3,4)] safe_OkD [OF S assms(2) refl _ assms(4)] assms(3) by blast
qed

theorem timing_disciplined_witness:
  "disciplined (trace (snd (timing_run 9 plat_kernel 0 0x8000 default_options (boot 0x4000 0x8000 (push_bit 30 3) 0 (\<lambda>_. 0)))))"
proof -
  obtain r w' where w': "timing_run 9 plat_kernel 0 0x8000 default_options (boot 0x4000 0x8000 (push_bit 30 3) 0 (\<lambda>_. 0)) = (r, w')" by fastforce
  have "honest (trace w')"
    using plat_honest [OF _ boot_gib(3), of "timing_run 9 plat_kernel 0 0x8000 default_options"] w' by (simp add: uses_intros)
  moreover have "size_gb default_options = 3" by (simp add: default_options_def)
  ultimately show ?thesis
    using timing_disciplined [OF _ boot_gib(2) w'] boot_gib(1) w' by simp
qed

text \<open>
  C14. The soak is disciplined under every schedule of its workers, its progress line and its
  pressure bursts, also when workers die in the middle of a reclaim cycle.
\<close>

theorem soak_disciplined:
  assumes "vm_state code ram (push_bit 30 (size_gb opts)) (ghost_of (trace w))" "disciplined (trace w)"
    and "soak_run fuel K sched ram opts w = (r, w')" "honest (trace w')"
  shows "disciplined (trace w')"
  using safeD [OF safe_soak_run [OF assms(1)] assms(2) refl assms(3,4)] .

theorem soak_disciplined_witness:
  "disciplined (trace (snd (soak_run 9 plat_kernel [WorkerTurn 0, WorkerTurn 1, PressureTurn, WorkerTurn 1] 0x8000 default_options
     (boot 0x4000 0x8000 (push_bit 30 3) 0 (\<lambda>_. 0)))))"
proof -
  let ?s = "[WorkerTurn 0, WorkerTurn 1, PressureTurn, WorkerTurn 1]"
  obtain r w' where w': "soak_run 9 plat_kernel ?s 0x8000 default_options (boot 0x4000 0x8000 (push_bit 30 3) 0 (\<lambda>_. 0)) = (r, w')"
    by fastforce
  have "honest (trace w')"
    using plat_honest [OF _ boot_gib(3), of "soak_run 9 plat_kernel ?s 0x8000 default_options"] w' by (simp add: uses_intros)
  moreover have "size_gb default_options = 3" by (simp add: default_options_def)
  ultimately show ?thesis
    using soak_disciplined [OF _ boot_gib(2) w'] boot_gib(1) w' by simp
qed

end
