(* ===== verification/Probes.thy ===== *)
theory Probes
  imports Hv_Main Discipline
begin

text \<open>
  The two stand-alone probes: \<^verbatim>\<open>pressure-discard\<close>, the control experiment that shows what real
  pressure does to marked and to plain dirty pages, and \<^verbatim>\<open>calibrate-madvise\<close>, the table of what
  each advice does to the ledger. Both use the ledger's library and anonymous memory only.
\<close>

unbundle bit_operations_syntax

section \<open>pressure-discard\<close>

definition PD_SIZE :: usize where "PD_SIZE = push_bit 30 1"
definition PD_PATTERN :: u64 where "PD_PATTERN = 0xC0DED00DFEEDFACE"
definition HOLD_SECS :: nat where "HOLD_SECS = 8"

definition pd_marker :: "nat \<Rightarrow> u64" where
  "pd_marker off = PD_PATTERN XOR of_nat off"

definition pd_fill :: "nat \<Rightarrow> usize \<Rightarrow> ('x, unit) io" where
  "pd_fill ptr len = mark_pages ptr len pd_marker"

definition pd_survey :: "nat \<Rightarrow> usize \<Rightarrow> ('x, usize \<times> usize) io" where
  "pd_survey ptr len = fold_io (step_by 0 (unat len) PAGE)
     (\<lambda>off (intact, zeroed). bind_io (load64 (ptr + off)) (\<lambda>v.
        ret (if v = pd_marker off then (intact + 1, zeroed) else if v = 0 then (intact, zeroed + 1) else (intact, zeroed)))) (0, 0)"

text \<open>\<^verbatim>\<open>args.iter().position(..).and_then(|i| args.get(i + 1)).map(parse).unwrap_or(48)\<close>\<close>

definition pd_pressure_gb :: "string list \<Rightarrow> usize outcome" where
  "pd_pressure_gb args = (case drop 1 (dropWhile (\<lambda>a. a \<noteq> ''--pressure-gb'') args) of
       [] \<Rightarrow> Ok 48
     | v # _ \<Rightarrow> (case parse_u64 v of None \<Rightarrow> Panic (Expect ''--pressure-gb N'') | Some n \<Rightarrow> Ok n))"

definition pd_reading :: string where
  "pd_reading =
     ''\<newline>''
   @ ''Reading: pressure discards correctly-marked pages (A) while dirty\<newline>''
   @ ''pages (B) survive -- compressed, still charged to you. A VM balloon\<newline>''
   @ ''that never marks surrendered pages leaves them all in class B.''"

definition pd_experiment :: "'x kernel \<Rightarrow> usize \<Rightarrow> ('x, unit) io" where
  "pd_experiment K gb =
     then_io (println ''pressure-discard: two 1 GiB dirty buffers; A gets MADV_FREE, B stays dirty\<newline>'' [])
    (bind_io (mmap_anon K PD_SIZE) (\<lambda>a.
     bind_io (mmap_anon K PD_SIZE) (\<lambda>b.
     then_io (pd_fill a PD_SIZE)
    (then_io (pd_fill b PD_SIZE)
    (bind_io (sys K (Madvise a PD_SIZE MADV_FREE)) (\<lambda>p.
     then_io (assert_io (rc p = 0) ''madvise(MADV_FREE) failed'')
    (bind_io (ledger_read K) (\<lambda>l0.
     then_io (row ''before pressure'' l0)
    (then_io (println ''\<newline>generating pressure: dirtying {pressure_gb} GiB in a child, then holding {HOLD_SECS}s ...\<newline>'' [ArgNat (unat gb), ArgNat HOLD_SECS])
    (bind_io (apply_pressure K gb) (\<lambda>r. case r of
       Inl e \<Rightarrow> throw (Expect ''pressure generator'')
     | Inr guard \<Rightarrow>
         then_io (sys_ignore K (Sleep (HOLD_SECS * 1000)))
        (then_io (drop_guard K guard)
        (then_io (sys_ignore K (Sleep 2000))
        (bind_io (ledger_read K) (\<lambda>l1.
         then_io (row ''after pressure'' l1)
        (bind_io (pd_survey a PD_SIZE) (\<lambda>(a_intact, a_zeroed).
         bind_io (pd_survey b PD_SIZE) (\<lambda>(b_intact, b_zeroed).
         then_io (println ''buffer A (MADV_FREE):  {a_intact:>5}/{pages} pages intact, {a_zeroed:>5} discarded to zero''
           [ArgNat (unat a_intact), ArgNat (unat PD_SIZE div PAGE), ArgNat (unat a_zeroed)])
        (then_io (println ''buffer B (plain dirty): {b_intact:>5}/{pages} pages intact, {b_zeroed:>5} discarded to zero''
           [ArgNat (unat b_intact), ArgNat (unat PD_SIZE div PAGE), ArgNat (unat b_zeroed)])
        (then_io (println pd_reading [])
        (then_io (sys_ignore K (Munmap a PD_SIZE)) (sys_ignore K (Munmap b PD_SIZE)))))))))))))))))))))))"

definition pd_main :: "'x kernel \<Rightarrow> string option \<Rightarrow> string list \<Rightarrow> ('x, nat list option) io" where
  "pd_main K gen_env args =
     bind_io (maybe_run_generator K gen_env) (\<lambda>g. case g of
       Some chunks \<Rightarrow> ret (Some chunks)
     | None \<Rightarrow> then_io (assert_host_page_size K)
        (case pd_pressure_gb args of
           Ok gb \<Rightarrow> then_io (pd_experiment K gb) (ret None)
         | Panic p \<Rightarrow> throw p
         | OutOfFuel \<Rightarrow> out_of_fuel))"

section \<open>calibrate-madvise\<close>

definition CM_SIZE :: usize where "CM_SIZE = push_bit 30 1"

definition ADVICES :: "(string \<times> madvice) list" where
  "ADVICES = [(''MADV_DONTNEED'', MADV_DONTNEED), (''MADV_FREE'', MADV_FREE), (''MADV_FREE_REUSABLE'', MADV_FREE_REUSABLE)]"

definition cm_touch :: "nat \<Rightarrow> usize \<Rightarrow> ('x, unit) io" where
  "cm_touch ptr len = mark_pages ptr len (\<lambda>off. of_nat off XOR 0xA5A5A5A5A5A5A5A5)"

type_synonym summary = "(string \<times> rat \<times> rat \<times> rat) list"

definition calibrate :: "'x kernel \<Rightarrow> string \<times> madvice \<Rightarrow> summary \<Rightarrow> ('x, summary) io" where
  "calibrate K adv acc =
     bind_io (ledger_read K) (\<lambda>before.
     bind_io (mmap_anon K CM_SIZE) (\<lambda>ptr.
     then_io (cm_touch ptr CM_SIZE)
    (bind_io (ledger_read K) (\<lambda>touched.
     bind_io (sys K (Madvise ptr CM_SIZE (snd adv))) (\<lambda>p.
     then_io (assert_io (rc p = 0) ''madvise failed'')
    (then_io (sys_ignore K (Sleep 200))
    (bind_io (ledger_read K) (\<lambda>advised.
     then_io (println ''== {} =='' [ArgStr (fst adv)])
    (then_io (row ''  after touching 1 GiB'' touched)
    (then_io (row ''  after madvise'' advised)
    (then_io (println '''' [])
    (bind_io (sys K (Munmap ptr CM_SIZE)) (\<lambda>q.
     then_io (assert_io (rc q = 0) ''munmap failed'')
             (ret (acc @ [(fst adv, delta_mib (phys_footprint touched) (phys_footprint before),
                delta_mib (phys_footprint advised) (phys_footprint touched), delta_mib (reusable advised) (reusable touched))])))))))))))))))"

definition cm_reading :: string where
  "cm_reading =
     ''\<newline>''
   @ ''Reading: an advice \"works\" for VM memory reclaim only if its\<newline>''
   @ ''advise Deltafootprint is ~ -1024 MiB. Anything else means the host\<newline>''
   @ ''still charges you for memory the guest has given back.''"

definition cm_main :: "'x kernel \<Rightarrow> ('x, unit) io" where
  "cm_main K =
     then_io (assert_host_page_size K)
    (then_io (println ''calibrate-madvise: 1 GiB dirty anonymous memory per advice\<newline>'' [])
    (bind_io (fold_io ADVICES (calibrate K) []) (\<lambda>acc.
     then_io (println ''advice                 touch Deltafootprint   advise Deltafootprint   advise Deltareusable'' [])
    (then_io (for_io acc (\<lambda>(name, dt, da, dr). println ''{name:<22} {dt:>+13.1} MiB   {da:>+14.1} MiB   {dr:>+13.1} MiB''
       [ArgStr name, ArgF64 dt, ArgF64 da, ArgF64 dr]))
             (println cm_reading [])))))"

section \<open>Counting pages\<close>

text \<open>A loop over pages that counts two disjoint kinds.\<close>

lemma fold_io_count2:
  "fold_io offs (\<lambda>off (i, z). bind_io (load64 (base + off)) (\<lambda>v.
      ret (if P off v then (i + 1, z) else if Q off v then (i, z + 1) else (i, z)))) (a, b) w =
   (Ok (a + of_nat (length (filter (\<lambda>off. P off (read64 (wmem w) (base + off))) offs)) :: usize,
        b + of_nat (length (filter (\<lambda>off. \<not> P off (read64 (wmem w) (base + off)) \<and> Q off (read64 (wmem w) (base + off))) offs)) :: usize), w)"
  by (induction offs arbitrary: a b) (simp_all add: bind_io_def load64_def ret_def)

lemma length_filter_card: "distinct xs \<Longrightarrow> length (filter P xs) = card {x \<in> set xs. P x}"
  by (metis distinct_card distinct_filter set_filter)

lemma pd_marker_marker: "pd_marker = marker"
  by (simp add: pd_marker_def marker_def PD_PATTERN_def PATTERN_def fun_eq_iff)

lemma pages_lt: "length (filter P (step_by 0 (unat (len :: usize)) PAGE)) < 2 ^ 64"
proof -
  have "length (step_by 0 (unat len) PAGE) \<le> unat len" by (simp add: step_by_length PAGE_def)
  then show ?thesis using length_filter_le [of P "step_by 0 (unat len) PAGE"] unat_lt64 [of len] by linarith
qed

text \<open>
  C37. The survey of \<^verbatim>\<open>pressure-discard\<close> counts exactly: the pages that still hold their marker and
  the pages that read zero, none twice because no marker is zero. Memory is left as it is.
\<close>

theorem pd_survey_exact:
  "\<exists>i z. pd_survey ptr len w = (Ok (i, z), w)
     \<and> unat i = card {off \<in> set (step_by 0 (unat len) PAGE). read64 (wmem w) (ptr + off) = pd_marker off}
     \<and> unat z = card {off \<in> set (step_by 0 (unat len) PAGE). read64 (wmem w) (ptr + off) = 0}
     \<and> unat i + unat z \<le> card (set (step_by 0 (unat len) PAGE))"
proof -
  let ?offs = "step_by 0 (unat len) PAGE" and ?v = "\<lambda>off. read64 (wmem w) (ptr + off)"
  let ?I = "filter (\<lambda>off. ?v off = pd_marker off) ?offs" and ?Z = "filter (\<lambda>off. ?v off \<noteq> pd_marker off \<and> ?v off = 0) ?offs"
  have d: "distinct ?offs" by (simp add: step_by_distinct)
  have "\<And>off. off \<in> set ?offs \<Longrightarrow> pd_marker off \<noteq> 0" unfolding pd_marker_marker by (rule marker_nonzero)
  then have z: "?Z = filter (\<lambda>off. ?v off = 0) ?offs" by (intro filter_cong) auto
  have ci: "length ?I = card {off \<in> set ?offs. ?v off = pd_marker off}" using length_filter_card [OF d] .
  have cz: "length ?Z = card {off \<in> set ?offs. ?v off = 0}" unfolding z using length_filter_card [OF d] .
  have "{off \<in> set ?offs. ?v off = pd_marker off} \<inter> {off \<in> set ?offs. ?v off = 0} = {}"
    using \<open>\<And>off. off \<in> set ?offs \<Longrightarrow> pd_marker off \<noteq> 0\<close> by auto
  then have "card {off \<in> set ?offs. ?v off = pd_marker off} + card {off \<in> set ?offs. ?v off = 0}
      = card ({off \<in> set ?offs. ?v off = pd_marker off} \<union> {off \<in> set ?offs. ?v off = 0})" by (simp add: card_Un_disjoint)
  also have "\<dots> \<le> card (set ?offs)" by (intro card_mono) auto
  finally have le: "length ?I + length ?Z \<le> card (set ?offs)" unfolding ci cz .
  have u: "unat (of_nat (length ?I) :: usize) = length ?I" "unat (of_nat (length ?Z) :: usize) = length ?Z"
    by (rule unat_of_nat64 [OF pages_lt])+
  have "pd_survey ptr len w = (Ok (of_nat (length ?I), of_nat (length ?Z)), w)"
    unfolding pd_survey_def using fold_io_count2 [where base = ptr and P = "\<lambda>off v. v = pd_marker off" and Q = "\<lambda>off v. v = 0" and offs = ?offs and w = w] by simp
  then show ?thesis using u ci cz le by (intro exI [of _ "of_nat (length ?I)"] exI [of _ "of_nat (length ?Z)"]) simp
qed

text \<open>
  A buffer that nothing touches after \<^verbatim>\<open>fill\<close> surveys as wholly intact: what the survey
  reports as lost was lost to the platform.
\<close>

theorem pd_fill_survey:
  assumes "PAGE dvd unat len"
  shows "\<exists>w'. pd_fill ptr len w = (Ok (), w') \<and> (\<exists>i. pd_survey ptr len w' = (Ok (i, 0), w') \<and> unat i = unat len div PAGE)"
proof -
  let ?offs = "step_by 0 (unat len) PAGE"
  obtain w' where w': "pd_fill ptr len w = (Ok (), w')" "\<And>off. off \<in> set ?offs \<Longrightarrow> read64 (wmem w') (ptr + off) = pd_marker off"
    unfolding pd_fill_def mark_pages_result by (simp add: mark_pages_read)
  have f: "filter (\<lambda>off. read64 (wmem w') (ptr + off) = pd_marker off) ?offs = ?offs"
    "filter (\<lambda>off. read64 (wmem w') (ptr + off) \<noteq> pd_marker off \<and> read64 (wmem w') (ptr + off) = 0) ?offs = []"
    using w'(2) by (auto simp: filter_empty_conv)
  have "length ?offs = unat len div PAGE"
    using page_count [OF assms] distinct_card [OF step_by_distinct [of PAGE 0 "unat len"]] by simp
  moreover have "unat (of_nat (length ?offs) :: usize) = length ?offs"
    using unat_of_nat64 [OF pages_lt [of "\<lambda>_. True" len]] by simp
  moreover have "pd_survey ptr len w' = (Ok (of_nat (length ?offs), 0), w')"
    unfolding pd_survey_def using fold_io_count2 [where base = ptr and P = "\<lambda>off v. v = pd_marker off" and Q = "\<lambda>off v. v = 0" and offs = ?offs and w = w'] f by simp
  ultimately show ?thesis using w'(1) by auto
qed

theorem pd_fill_survey_witness:
  "\<exists>w'. pd_fill 0x8000 PD_SIZE fresh_world = (Ok (), w') \<and> (\<exists>i. pd_survey 0x8000 PD_SIZE w' = (Ok (i, 0), w') \<and> unat i = 65536)"
  using pd_fill_survey [of PD_SIZE "0x8000" fresh_world] by (simp add: PD_SIZE_def PAGE_def)

section \<open>No leak\<close>

lemma uses_calibrate [uses_intros]: "uses K (calibrate K adv acc)" "uses K (cm_main K)"
  by (auto simp: calibrate_def cm_main_def cm_touch_def mark_pages_def assert_host_page_size_def intro!: uses_intros)

lemma safe_calibrate:
  assumes "s2 g = (\<lambda>_. None)"
  shows "keeps_s2 K g (calibrate K adv acc)"
proof -
  have mu: "safe K g' (sys K (Munmap p CM_SIZE)) (\<lambda>q g''. rc q = 0 \<longrightarrow> g'' = g'\<lparr>live := live g' - bytes p CM_SIZE\<rparr>)"
    if "s2 g' = (\<lambda>_. None)" for g' p
    by (rule safe_sys) (use that in \<open>auto simp: g_event_def clear_of_def\<close>)
  have en: "safe K g' (bind_io (sys K (Munmap p CM_SIZE)) (\<lambda>q. then_io (assert_io (rc q = 0) a) (ret x))) (\<lambda>_ g''. g'' = g)"
    if "bytes p CM_SIZE \<inter> live g = {}" "g' = g\<lparr>live := live g \<union> bytes p CM_SIZE\<rparr>" for p g' a and x :: summary
  proof (rule safe_bind [OF mu])
    fix q g2 assume "rc q = 0 \<longrightarrow> g2 = g'\<lparr>live := live g' - bytes p CM_SIZE\<rparr>"
    then have "rc q = 0 \<longrightarrow> g2 = g" using that by (auto simp: Un_Diff Diff_triv Int_commute)
    then show "safe K g2 (then_io (assert_io (rc q = 0) a) (ret x)) (\<lambda>_ g''. g'' = g)"
      by (intro safe_then [OF safe_assert [where Q = "\<lambda>_ g''. g'' = g2 \<and> rc q = 0"]]) (auto intro!: safe_ret uses_intros)
  qed (use that assms in \<open>auto intro!: uses_intros\<close>)
  have ad: "keeps_s2 K g' (sys K (Madvise p CM_SIZE a))" if "s2 g' = (\<lambda>_. None)" for g' p a
    by (rule safe_sys) (use that in \<open>auto simp: g_event_def clear_of_def\<close>)
  show ?thesis
    unfolding calibrate_def cm_touch_def
    by (rule safe_bind_keep [OF safe_ledger_read], rule safe_bind [OF safe_mmap_anon])
      (use assms in \<open>auto simp: mark_pages_def row_def intro!: safe_bind_keep safe_then_keep safe_mark_pages [unfolded mark_pages_def] ad en
        safe_ledger_read safe_assert safe_println safe_quiet_ignore uses_intros\<close>)
qed

text \<open>
  C40. A calibration that completes gives every buffer back: by what the calls and answers say, the
  process ends with exactly the memory it started with.
\<close>

theorem calibrate_no_leak:
  assumes "trace w = []" "cm_main K w = (Ok (), w')" "honest (trace w')"
  shows "live (ghost_of (trace w')) = {}"
proof -
  let ?g = "ghost_of (trace w)"
  have n: "s2 ?g = (\<lambda>_. None)" "live ?g = {}" using assms(1) by (simp_all add: ghost_of_def no_ghost_def)
  have S: "keeps_s2 K ?g (cm_main K)"
    unfolding cm_main_def assert_host_page_size_def
    by (intro safe_then_keep safe_bind_keep safe_fold safe_for safe_calibrate [OF n(1)]) (auto intro!: safe_bind_keep safe_intros)
  have "ghost_of (trace w') = ?g"
    using safe_OkD [OF S _ refl assms(2,3)] assms(1) by (simp add: disciplined_def)
  then show ?thesis using n(2) by simp
qed

theorem calibrate_no_leak_witness:
  "\<exists>w'. cm_main plat_kernel fresh_world = (Ok (), w') \<and> live (ghost_of (trace w')) = {}"
proof -
  have "\<exists>w'. cm_main plat_kernel fresh_world = (Ok (), w')"
    by (simp add: cm_main_def calibrate_def ADVICES_def cm_touch_def CM_SIZE_def mark_pages_result ledger_read_def mmap_anon_def row_def
        assert_host_page_size_def ret_def bind_io_def then_io_def assert_io_def println_def sys_ignore_def sys_def plat_kernel_def success_def
        fresh_world_def boot_def task_vm_info_words_def MAP_FAILED_def PAGE_def)
  then obtain w' where w': "cm_main plat_kernel fresh_world = (Ok (), w')" by blast
  have "honest (trace w')" using fresh_honest [of "cm_main plat_kernel"] w' by (simp add: uses_intros)
  then show ?thesis using calibrate_no_leak [OF fresh_trace w'] w' by blast
qed

section \<open>The surveys of hv-reclaim\<close>

text \<open>
  The survey of the parked probe counts every page once, as intact or as lost: the two numbers
  are exact and add up to the pages of guest RAM.
\<close>

theorem survey_ram_exact:
  assumes "PAGE dvd unat n"
  shows "\<exists>i l. survey_ram ram n expected w = (Ok (i, l), w)
     \<and> unat i = card {off \<in> set (step_by 0 (unat n) PAGE). read64 (wmem w) (ram + off) = expected off}
     \<and> unat i + unat l = unat n div PAGE"
proof -
  let ?offs = "step_by 0 (unat n) PAGE" and ?P = "\<lambda>off. read64 (wmem w) (ram + off) = expected off"
  have d: "distinct ?offs" by (simp add: step_by_distinct)
  have s: "survey_ram ram n expected w = (Ok (of_nat (length (filter ?P ?offs)), of_nat (length (filter (\<lambda>off. \<not> ?P off) ?offs))), w)"
    unfolding survey_ram_def using fold_io_count2 [where base = ram and P = "\<lambda>off v. v = expected off" and Q = "\<lambda>_ _. True" and offs = ?offs and w = w and a = 0 and b = 0]
    by (simp only: if_True simp_thms add_0)
  have u: "unat (of_nat (length (filter Q ?offs)) :: usize) = length (filter Q ?offs)" for Q by (rule unat_of_nat64 [OF pages_lt])
  have "length (filter ?P ?offs) + length (filter (\<lambda>off. \<not> ?P off) ?offs) = length ?offs" by (rule sum_length_filter_compl)
  also have "\<dots> = unat n div PAGE" using page_count [OF assms] distinct_card [OF d] by simp
  finally show ?thesis using s u length_filter_card [OF d] by auto
qed

theorem survey_ram_exact_witness:
  "\<exists>i l. survey_ram 0x8000 0x8000 (\<lambda>_. 0) fresh_world = (Ok (i, l), fresh_world) \<and> unat i + unat l = 2"
  using survey_ram_exact [of "0x8000" "0x8000" "\<lambda>_. 0" fresh_world] by (auto simp: PAGE_def)

lemma survey_hammer_fold:
  "length ex \<le> 3 \<Longrightarrow> fold_io offs (\<lambda>off (i, l, ex). bind_io (load64 (ram + off)) (\<lambda>v.
        ret (if v = expected off then (i + 1, l, ex)
             else (i, l + 1, if length ex < 3 then ex @ [(off, v)] else ex)))) (i, l, ex) w =
     (Ok (i + of_nat (length (filter (\<lambda>off. read64 (wmem w) (ram + off) = expected off) offs)) :: usize,
        l + of_nat (length (filter (\<lambda>off. read64 (wmem w) (ram + off) \<noteq> expected off) offs)) :: usize,
        ex @ take (3 - length ex) (map (\<lambda>off. (off, read64 (wmem w) (ram + off))) (filter (\<lambda>off. read64 (wmem w) (ram + off) \<noteq> expected off) offs))), w)"
proof (induction offs arbitrary: i l ex)
  case (Cons x xs)
  show ?case
  proof (cases "length ex < 3")
    case True
    then have "3 - length ex = Suc (3 - Suc (length ex))" by simp
    then show ?thesis using Cons True by (simp add: bind_io_def load64_def ret_def)
  next
    case False
    then show ?thesis using Cons by (simp add: bind_io_def load64_def ret_def)
  qed
qed (simp add: ret_def)

text \<open>
  The survey of the hammer probe is exact too, and its examples are the first three lost pages
  with the words they hold.
\<close>

lemma survey_hammer_exact:
  assumes "PAGE dvd unat n"
  shows "\<exists>i l. survey_hammer ram n expected w = (Ok (i, l,
       take 3 (map (\<lambda>off. (off, read64 (wmem w) (ram + off))) (filter (\<lambda>off. read64 (wmem w) (ram + off) \<noteq> expected off) (step_by 0 (unat n) PAGE)))), w)
     \<and> unat l = card {off \<in> set (step_by 0 (unat n) PAGE). read64 (wmem w) (ram + off) \<noteq> expected off}
     \<and> unat i + unat l = unat n div PAGE"
proof -
  let ?offs = "step_by 0 (unat n) PAGE" and ?P = "\<lambda>off. read64 (wmem w) (ram + off) = expected off"
  have d: "distinct ?offs" by (simp add: step_by_distinct)
  have u: "unat (of_nat (length (filter Q ?offs)) :: usize) = length (filter Q ?offs)" for Q by (rule unat_of_nat64 [OF pages_lt])
  have "length (filter ?P ?offs) + length (filter (\<lambda>off. \<not> ?P off) ?offs) = length ?offs" by (rule sum_length_filter_compl)
  also have "\<dots> = unat n div PAGE" using page_count [OF assms] distinct_card [OF d] by simp
  finally show ?thesis
    unfolding survey_hammer_def using survey_hammer_fold [of "[]" ?offs ram expected 0 0 w] u length_filter_card [OF d] by auto
qed

end
