(* ===== verification/Hammer_Correct.thy ===== *)
theory Hammer_Correct
  imports Hammer_Race Probes
begin

text \<open>
  What the hammer probe of \<^verbatim>\<open>hv-reclaim/src/main.rs\<close> can and cannot tell: its final survey counts
  exactly the pages discarded outside the window between load and store, a discard inside the
  window leaves no mark, and the probe does not return before the pressure has come, been held, and gone.
\<close>

section \<open>Detection\<close>

text \<open>
  C4. The hammer's final survey is exact. Whatever interleaving of guest instructions, resumptions
  past the doorbell and discards of pages led to the stop, the survey against
  base + offset + sweeps counts as lost exactly the pages that were ever discarded outside their
  load-store window.
\<close>

theorem hammer_detects:
  assumes "race_start ram (unat n) code r" "(race_step ram (unat n))\<^sup>*\<^sup>* r r'" "arm_step (vm r') = DataAbort DOORBELL_GPA"
    and "unat RAM_GPA + unat n + sweeps r' < 2 ^ 64"
  shows "\<exists>i l ex. survey_hammer ram n (\<lambda>off. RAM_GPA + of_nat off + xr (vm r') 4) (w\<lparr>wmem := mmem (vm r')\<rparr>) = (Ok (i, l, ex), w\<lparr>wmem := mmem (vm r')\<rparr>)
     \<and> unat l = card (lost r' \<inter> ram_pages (unat n)) \<and> unat i + unat l = unat n div PAGE"
proof -
  have I: "race_inv ram (unat n) code r'" by (rule race_inv_reach [OF assms(2) race_inv_start [OF assms(1)]])
  have pg: "PAGE dvd unat n" using assms(1) by (simp add: race_start_def)
  have e: "read64 (mmem (vm r')) (ram + off) \<noteq> RAM_GPA + of_nat off + xr (vm r') 4 \<longleftrightarrow> off \<in> lost r'" if "off \<in> ram_pages (unat n)" for off
  proof -
    have "unat RAM_GPA + off + sweeps r' < 2 ^ 64" using ram_pages_facts(3) [OF pg that] assms(4) by simp
    from tracks_exact [OF race_at_bell(1) [OF I assms(3) that] this] show ?thesis
      unfolding race_at_bell(2) [OF I assms(3) that] by blast
  qed
  then have "{off \<in> ram_pages (unat n). read64 (mmem (vm r')) (ram + off) \<noteq> RAM_GPA + of_nat off + xr (vm r') 4} = lost r' \<inter> ram_pages (unat n)"
    by blast
  then show ?thesis using survey_hammer_exact [OF pg, of ram "\<lambda>off. RAM_GPA + of_nat off + xr (vm r') 4" "w\<lparr>wmem := mmem (vm r')\<rparr>"] by auto
qed

section \<open>The blind spot\<close>

text \<open>With one page the guest walks through its program straight to the doorbell.\<close>

lemma walk_step:
  assumes "inv_at ram PAGE code L k i cur m" "i < 8"
  shows "\<exists>m' cur'. arm_step m = Next m' \<and> inv_at ram PAGE code L (if i = 7 then Suc k else k) (Suc i) cur' m'"
proof -
  note D = inv_atD [OF assms(1)]
  have c: "cur + PAGE \<ge> PAGE" by simp
  obtain m' where m': "arm_step m = Next m'" "pc m' = HAMMER_GPA + of_nat (Suc i * 4)"
    using hammer_next [OF D(1,3)] index_cases [OF D(2)] assms(2) c by auto
  obtain i' cur' where I: "inv_at ram PAGE code L (if pc m = HAMMER_GPA + 28 then Suc k else k) i' cur' m'"
    using inv_guest [OF assms(1) m'(1)] by blast
  have "i' = Suc i" using inv_atD(8) [OF I] m'(2) index_cases [OF inv_atD(2) [OF I]] index_cases [OF D(2)] assms(2) by auto
  moreover have "pc m = HAMMER_GPA + 28 \<longleftrightarrow> i = 7" using D(8) index_cases [OF D(2)] by auto
  ultimately show ?thesis using m'(1) I by auto
qed


lemma walk:
  assumes "inv_at ram PAGE code (lost r) (sweeps r) i cur (vm r)" "i \<le> j" "j \<le> 8"
  shows "\<exists>r' cur'. (race_step ram PAGE)\<^sup>*\<^sup>* r r' \<and> lost r' = lost r \<and> sweeps r' = sweeps r + of_bool (i \<le> 7 \<and> j = 8)
     \<and> inv_at ram PAGE code (lost r') (sweeps r') j cur' (vm r')"
  using assms
proof (induction "j - i" arbitrary: r i cur)
  case 0
  then show ?case by (intro exI [of _ r] exI [of _ cur]) simp
next
  case (Suc d)
  then have i: "i < 8" "i \<le> 7" "i < j" by simp_all
  obtain m cur1 where m: "arm_step (vm r) = Next m" "inv_at ram PAGE code (lost r) (if i = 7 then Suc (sweeps r) else sweeps r) (Suc i) cur1 m"
    using walk_step [OF Suc.prems(1) i(1)] by blast
  define r1 where "r1 = r\<lparr>vm := m, sweeps := if i = 7 then Suc (sweeps r) else sweeps r\<rparr>"
  have "pc (vm r) = HAMMER_GPA + 28 \<longleftrightarrow> i = 7" using inv_atD(2,8) [OF Suc.prems(1)] index_cases [of i] by auto
  then have s: "race_step ram PAGE r r1" using race_step.guest [OF m(1), of ram PAGE] by (simp add: r1_def)
  have d: "d = j - Suc i" using Suc.hyps(2) by simp
  have i1: "inv_at ram PAGE code (lost r1) (sweeps r1) (Suc i) cur1 (vm r1)" using m(2) by (simp add: r1_def)
  obtain r' cur' where r': "(race_step ram PAGE)\<^sup>*\<^sup>* r1 r'" "lost r' = lost r1" "sweeps r' = sweeps r1 + of_bool (Suc i \<le> 7 \<and> j = 8)"
    "inv_at ram PAGE code (lost r') (sweeps r') j cur' (vm r')"
    using Suc.hyps(1) [OF d i1] i Suc.prems(3) by auto
  have "sweeps r' = sweeps r + of_bool (i \<le> 7 \<and> j = 8)" using r'(3) i Suc.prems(3) by (auto simp: r1_def)
  moreover have "lost r' = lost r" using r'(2) by (simp add: r1_def)
  moreover have "(race_step ram PAGE)\<^sup>*\<^sup>* r r'" using s r'(1) by (rule converse_rtranclp_into_rtranclp)
  ultimately show ?case using r'(4) by blast
qed

text \<open>A sweep of the single page during which the page is discarded before instruction \<open>j\<close>.\<close>

lemma discarded_sweep:
  assumes "race_start ram PAGE code r" "j \<le> 8"
  shows "\<exists>r1 r2 r'. (race_step ram PAGE)\<^sup>*\<^sup>* r r1 \<and> pc (vm r1) = HAMMER_GPA + of_nat (j * 4)
     \<and> race_step ram PAGE r1 r2 \<and> mmem (vm r2) = zero_page ram (mmem (vm r1)) \<and> (race_step ram PAGE)\<^sup>*\<^sup>* r2 r'
     \<and> arm_step (vm r') = DataAbort DOORBELL_GPA \<and> sweeps r' = 1 \<and> lost r' = (if j = 2 \<or> j = 3 then {} else {0})
     \<and> race_inv ram PAGE code r'"
proof -
  have z: "0 \<in> ram_pages PAGE" "\<And>off. off \<in> ram_pages PAGE \<Longrightarrow> off = 0" by (auto simp: set_step_by PAGE_def)
  have st: "sweeps r = 0" "lost r = {}" using assms(1) by (simp_all add: race_start_def)
  have "inv_at ram PAGE code (lost r) (sweeps r) 0 0 (vm r)"
    using assms(1) by (auto simp: inv_at_def loc_defs race_start_def swept_def page_val_def tracks_def)
  then obtain r1 cur1 where r1: "(race_step ram PAGE)\<^sup>*\<^sup>* r r1" "lost r1 = {}" "sweeps r1 = of_bool (j = 8)"
    "inv_at ram PAGE code (lost r1) (sweeps r1) j cur1 (vm r1)" using walk [of ram code r 0 0 j] assms(2) st by auto
  define r2 where "r2 = r1\<lparr>vm := (vm r1)\<lparr>mmem := zero_page (ram + 0) (mmem (vm r1))\<rparr>, lost := (if in_window (vm r1) 0 then lost r1 else insert 0 (lost r1))\<rparr>"
  have s: "race_step ram PAGE r1 r2" unfolding r2_def by (rule race_step.discard [OF z(1)])
  have w: "in_window (vm r1) 0 \<longleftrightarrow> j = 2 \<or> j = 3"
  proof -
    have "cur1 = 0" if "j = 2 \<or> j = 3" using r1(4) that z(2) by (auto simp: inv_at_def loc_def)
    then show ?thesis using in_window_iff [OF r1(4) z(1)] by auto
  qed
  have i2: "inv_at ram PAGE code (lost r2) (sweeps r2) j cur1 (vm r2)" using inv_discard [OF r1(4) z(1)] by (simp add: r2_def split del: if_split)
  obtain r' cur' where r': "(race_step ram PAGE)\<^sup>*\<^sup>* r2 r'" "lost r' = lost r2" "sweeps r' = sweeps r2 + of_bool (j \<le> 7)"
    "inv_at ram PAGE code (lost r') (sweeps r') 8 cur' (vm r')" using walk [OF i2 assms(2)] by auto
  have "arm_step (vm r') = DataAbort DOORBELL_GPA" using hammer_next(9) [OF inv_atD(1,3) [OF r'(4)]] by simp
  moreover have "sweeps r' = 1" using r'(3) r1(3) assms(2) by (cases "j = 8") (auto simp: r2_def)
  moreover have "lost r' = (if j = 2 \<or> j = 3 then {} else {0})" using r'(2) r1(2) w by (simp add: r2_def)
  moreover have "race_inv ram PAGE code r'" using r'(4) race_inv_iff by blast
  moreover have "mmem (vm r2) = zero_page ram (mmem (vm r1))" by (simp add: r2_def)
  ultimately show ?thesis using r1(1) s r'(1) inv_atD(8) [OF r1(4)] by blast
qed

text \<open>
  C5. The hammer's blind spot: from every start with one page of guest RAM there is a run in which
  the page is discarded between its load and its store, and at the next doorbell it holds
  exactly the word the survey expects. The loss leaves no mark.
\<close>

theorem hammer_blind:
  assumes "race_start ram PAGE code r"
  shows "\<exists>r1 r2 r'. (race_step ram PAGE)\<^sup>*\<^sup>* r r1 \<and> in_window (vm r1) 0 \<and> race_step ram PAGE r1 r2 \<and> mmem (vm r2) = zero_page ram (mmem (vm r1))
     \<and> (race_step ram PAGE)\<^sup>*\<^sup>* r2 r' \<and> arm_step (vm r') = DataAbort DOORBELL_GPA \<and> xr (vm r') 4 = 1
     \<and> read64 (mmem (vm r')) ram = RAM_GPA + xr (vm r') 4"
proof -
  obtain r1 r2 r' where r: "(race_step ram PAGE)\<^sup>*\<^sup>* r r1" "pc (vm r1) = HAMMER_GPA + of_nat (2 * 4)"
    "race_step ram PAGE r1 r2" "mmem (vm r2) = zero_page ram (mmem (vm r1))" "(race_step ram PAGE)\<^sup>*\<^sup>* r2 r'"
    "arm_step (vm r') = DataAbort DOORBELL_GPA" "sweeps r' = 1" "lost r' = {}" "race_inv ram PAGE code r'"
    using discarded_sweep [OF assms, of 2] by auto
  have z: "0 \<in> ram_pages PAGE" "\<And>off. off \<in> ram_pages PAGE \<Longrightarrow> off = 0" by (auto simp: set_step_by PAGE_def)
  have "race_inv ram PAGE code r1" by (rule race_inv_reach [OF r(1) race_inv_start [OF assms]])
  then obtain i cur where I: "inv_at ram PAGE code (lost r1) (sweeps r1) i cur (vm r1)" using race_inv_iff by blast
  have "i = 2" using inv_atD(8) [OF I] r(2) index_cases [OF inv_atD(2) [OF I]] by auto
  then have "cur \<in> ram_pages PAGE" using I by (auto simp: inv_at_def loc_def)
  then have "in_window (vm r1) 0" using in_window_iff [OF I z(1)] \<open>i = 2\<close> z(2) by auto
  moreover have "read64 (mmem (vm r')) ram = RAM_GPA + xr (vm r') 4" "xr (vm r') 4 = 1"
    using race_at_bell(1,2) [OF r(9,6) z(1)] r(7,8) by (simp_all add: tracks_def)
  ultimately show ?thesis using r by blast
qed


section \<open>The pressure comes and goes\<close>

text \<open>The guest's own calls are no part of the protocol with the pressure thread.\<close>

fun vcpu_call :: "call \<Rightarrow> bool" where
  "vcpu_call (HvVcpuRun v) = True"
| "vcpu_call (HvVcpuGetReg v r) = True"
| "vcpu_call (HvVcpuSetReg v r a) = True"
| "vcpu_call _ = False"

definition host_calls :: "(call \<times> resp) list \<Rightarrow> (call \<times> resp) list" where
  "host_calls es = filter (\<lambda>e. \<not> vcpu_call (fst e)) es"

text \<open>Polls of the channel that find it empty, and readings of the clock less than \<open>d\<close> after the reading \<open>q\<close>.\<close>

definition unanswered :: "(call \<times> resp) list \<Rightarrow> bool" where
  "unanswered es \<longleftrightarrow> list_all (\<lambda>(c, r). c = TryRecv \<and> rc r = 2) es"

definition elapsed :: "resp \<Rightarrow> resp \<Rightarrow> nat" where
  "elapsed q u = unat (rv u) - unat (rv q)"

definition clock_below :: "resp \<Rightarrow> nat \<Rightarrow> (call \<times> resp) list \<Rightarrow> bool" where
  "clock_below q d es \<longleftrightarrow> list_all (\<lambda>(c, r). c = Now \<and> elapsed q r < d) es"

text \<open>Where the closure of the hammer is in its protocol, by the calls of the host so far.\<close>

inductive protocol :: "ham \<Rightarrow> (call \<times> resp) list \<Rightarrow> bool" where
  waiting: "h_guard s = None \<Longrightarrow> hold_since s = None \<Longrightarrow> released_at s = None \<Longrightarrow> unanswered a \<Longrightarrow> protocol s a"
| holding: "h_guard s = Some (rv p) \<Longrightarrow> hold_since s = Some (unat (rv q)) \<Longrightarrow> released_at s = None
    \<Longrightarrow> unanswered a \<Longrightarrow> rc p = 0 \<Longrightarrow> clock_below q HOLD b
    \<Longrightarrow> protocol s (a @ [(TryRecv, p), (Now, q)] @ b)"
| gone: "h_guard s = None \<Longrightarrow> hold_since s = Some (unat (rv q)) \<Longrightarrow> released_at s = Some (unat (rv v))
    \<Longrightarrow> unanswered a \<Longrightarrow> rc p = 0 \<Longrightarrow> clock_below q HOLD b \<Longrightarrow> HOLD \<le> elapsed q u \<Longrightarrow> clock_below v TAIL c
    \<Longrightarrow> protocol s (a @ [(TryRecv, p), (Now, q)] @ b @ [(Now, u), (Kill (rv p), x), (WaitChild (rv p), y), (Now, v)] @ c)"

text \<open>The protocol after the events \<open>tr\<close> that came before the hammer.\<close>

definition follows :: "(call \<times> resp) list \<Rightarrow> ham \<Rightarrow> 'x world \<Rightarrow> bool" where
  "follows tr s w \<longleftrightarrow> (\<exists>es. trace w = tr @ es \<and> protocol s (host_calls es))"

lemma host_calls_append [simp]: "host_calls (es @ es') = host_calls es @ host_calls es'"
  by (simp add: host_calls_def)

lemma host_calls_host [simp]: "\<not> vcpu_call c \<Longrightarrow> host_calls ((c, r) # es) = (c, r) # host_calls es" "host_calls [] = []"
  by (simp_all add: host_calls_def)

lemma followsI: "trace w' = trace w @ es' \<Longrightarrow> trace w = tr @ es \<Longrightarrow> protocol s (host_calls es @ host_calls es') \<Longrightarrow> follows tr s w'"
  unfolding follows_def by (rule exI [where x = "es @ es'"]) simp

lemma now_run: "now K w = (Ok t, w') \<Longrightarrow> \<exists>p. trace w' = trace w @ [(Now, p)] \<and> t = unat (rv p)"
  by (auto simp: now_def bind_io_eq_Ok_iff dest!: sys_trace)

lemma drop_guard_run:
  assumes "drop_guard K pid w = (Ok (), w')"
  shows "\<exists>p q. trace w' = trace w @ [(Kill pid, p), (WaitChild pid, q)]"
proof -
  obtain p w1 where p: "sys K (Kill pid) w = (Ok p, w1)" using sys_total by blast
  obtain q w2 where q: "sys K (WaitChild pid) w1 = (Ok q, w2)" using sys_total by blast
  have "w' = w2" using assms p q by (auto simp: drop_guard_def sys_ignore_def io_defs)
  then show ?thesis using sys_trace [OF p] sys_trace [OF q] by simp
qed

lemma protocol_receive:
  assumes "follows tr s w" "ham_receive K s w = (Ok s', w')"
  shows "follows tr s' w'"
proof (cases "h_guard s = None \<and> released_at s = None")
  case False
  then show ?thesis using assms by (auto simp: ham_receive_def)
next
  case True
  obtain es where es: "trace w = tr @ es" "protocol s (host_calls es)" using assms(1) by (auto simp: follows_def)
  then have b: "unanswered (host_calls es)" "hold_since s = None" using True by (auto elim: protocol.cases)
  obtain p w1 where p: "sys K TryRecv w = (Ok p, w1)" using sys_total by blast
  have "rc p = 0 \<and> (\<exists>t. now K w1 = (Ok t, w') \<and> s' = s\<lparr>h_guard := Some (rv p), hold_since := Some t\<rparr>) \<or> rc p = 2 \<and> s' = s \<and> w' = w1"
    using assms(2) True p by (auto simp: ham_receive_def bind_io_eq_Ok_iff throw_def split: if_splits)
  then show ?thesis
  proof (elim disjE conjE exE)
    fix t assume r: "rc p = 0" "now K w1 = (Ok t, w')" "s' = s\<lparr>h_guard := Some (rv p), hold_since := Some t\<rparr>"
    obtain q where q: "trace w' = trace w @ [(TryRecv, p), (Now, q)]" "t = unat (rv q)" using now_run [OF r(2)] sys_trace [OF p] by auto
    show ?thesis
      using protocol.holding [of s' p q "host_calls es" "[]"] True b r(1,3) q(2)
      by (intro followsI [OF q(1) es(1)]) (simp add: clock_below_def)
  next
    assume r: "rc p = 2" "s' = s" "w' = w1"
    show ?thesis
      using protocol.waiting [of s "host_calls es @ [(TryRecv, p)]"] True b r(1,2)
      by (intro followsI [OF sys_trace [OF p, folded r(3)] es(1)]) (simp add: unanswered_def)
  qed
qed

lemma protocol_release:
  assumes "follows tr s w" "ham_release K s w = (Ok s', w')"
  shows "follows tr s' w'"
proof -
  obtain es where es: "trace w = tr @ es" "protocol s (host_calls es)" using assms(1) by (auto simp: follows_def)
  from es(2) show ?thesis
  proof cases
    case (holding p q a b)
    obtain t w1 where t: "now K w = (Ok t, w1)" "(if HOLD \<le> t - unat (rv q) then then_io (drop_guard K (rv p)) (bind_io (now K) (\<lambda>t'. ret (s\<lparr>h_guard := None, released_at := Some t'\<rparr>)))
        else ret s) w1 = (Ok s', w')"
      using assms(2) unfolding ham_release_def holding(2-4) prod.case option.case bind_io_eq_Ok_iff [of "now K"] by blast
    obtain u where u: "trace w1 = trace w @ [(Now, u)]" "t = unat (rv u)" using now_run [OF t(1)] by blast
    show ?thesis
    proof (cases "HOLD \<le> t - unat (rv q)")
      case False
      then show ?thesis using t(2) u protocol.holding [OF holding(2-6), of "b @ [(Now, u)]"] holding(1,7)
        by (intro followsI [OF _ es(1), of w' "[(Now, u)]"]) (simp_all add: clock_below_def elapsed_def)
    next
      case True
      then obtain w2 t' where d: "drop_guard K (rv p) w1 = (Ok (), w2)" "now K w2 = (Ok t', w')" "s' = s\<lparr>h_guard := None, released_at := Some t'\<rparr>"
        using t(2) by (auto simp: then_io_eq_Ok_iff bind_io_eq_Ok_iff)
      obtain x y where e: "trace w2 = trace w1 @ [(Kill (rv p), x), (WaitChild (rv p), y)]" using drop_guard_run [OF d(1)] by blast
      obtain v where v: "trace w' = trace w2 @ [(Now, v)]" "t' = unat (rv v)" using now_run [OF d(2)] by blast
      have "protocol s' (a @ [(TryRecv, p), (Now, q)] @ b @ [(Now, u), (Kill (rv p), x), (WaitChild (rv p), y), (Now, v)] @ [])"
        using holding True u(2) v(2) d(3) by (intro protocol.gone) (simp_all add: elapsed_def clock_below_def)
      then show ?thesis
        by (intro followsI [OF _ es(1), of w' "[(Now, u), (Kill (rv p), x), (WaitChild (rv p), y), (Now, v)]"]) (simp_all add: u(1) e v(1) holding(1))
    qed
  next
    case waiting
    then show ?thesis using assms by (simp add: ham_release_def)
  next
    case gone
    then show ?thesis using assms by (auto simp: ham_release_def)
  qed
qed

text \<open>The calls of a hammer that has ended: one reading of the clock, past the tail, after the release.\<close>

definition completed :: "(call \<times> resp) list \<Rightarrow> ham \<Rightarrow> 'x world \<Rightarrow> bool" where
  "completed tr s w \<longleftrightarrow> h_guard s = None \<and> (\<exists>es a p q b u x y v c z. trace w = tr @ es
     \<and> host_calls es = a @ [(TryRecv, p), (Now, q)] @ b @ [(Now, u), (Kill (rv p), x), (WaitChild (rv p), y), (Now, v)] @ c @ [(Now, z)]
     \<and> unanswered a \<and> rc p = 0 \<and> clock_below q HOLD b \<and> HOLD \<le> elapsed q u \<and> clock_below v TAIL c \<and> TAIL \<le> elapsed v z)"

lemma protocol_keep_going:
  assumes "follows tr s w" "keep_going K sw s w = (Ok (go, s'), w')"
  shows "if go then follows tr s' w' else completed tr s' w'"
proof -
  obtain a w1 r w2 where 1: "ham_receive K s w = (Ok a, w1)" "ham_release K a w1 = (Ok r, w2)"
    "(case released_at r of None \<Rightarrow> ret (True, r) | Some t0 \<Rightarrow> bind_io (now K) (\<lambda>t. ret (t - t0 < TAIL, r))) w2 = (Ok (go, s'), w')"
    using assms(2) unfolding keep_going_def bind_io_eq_Ok_iff by blast
  have p: "follows tr r w2" by (rule protocol_release [OF protocol_receive [OF assms(1) 1(1)] 1(2)])
  then obtain es where es: "trace w2 = tr @ es" "protocol r (host_calls es)" by (auto simp: follows_def)
  show ?thesis
  proof (cases "released_at r")
    case None
    then show ?thesis using 1(3) p by simp
  next
    case (Some t0)
    then obtain t where t: "now K w2 = (Ok t, w')" "s' = r" "go \<longleftrightarrow> t - t0 < TAIL" using 1(3) by (auto simp: bind_io_eq_Ok_iff)
    obtain z where z: "trace w' = trace w2 @ [(Now, z)]" "t = unat (rv z)" using now_run [OF t(1)] by blast
    from es(2) Some obtain q v a p b u x y c where g: "host_calls es = a @ [(TryRecv, p), (Now, q)] @ b @ [(Now, u), (Kill (rv p), x), (WaitChild (rv p), y), (Now, v)] @ c"
      "h_guard r = None" "hold_since r = Some (unat (rv q))" "released_at r = Some (unat (rv v))" "unanswered a" "rc p = 0" "clock_below q HOLD b"
      "HOLD \<le> elapsed q u" "clock_below v TAIL c" by (auto elim!: protocol.cases)
    have t0: "t0 = unat (rv v)" using g(4) Some by simp
    show ?thesis
    proof (cases go)
      case True
      then have "clock_below v TAIL (c @ [(Now, z)])" using g(9) t(3) z(2) t0 by (simp add: clock_below_def elapsed_def)
      from followsI [OF z(1) es(1)] protocol.gone [OF g(2-8) this] True show ?thesis by (simp add: g(1) t(2))
    next
      case False
      then have "TAIL \<le> elapsed v z" using t(3) z(2) t0 by (simp add: elapsed_def)
      moreover have "trace w' = tr @ (es @ [(Now, z)])" using z(1) es(1) by simp
      moreover have "host_calls (es @ [(Now, z)]) = a @ [(TryRecv, p), (Now, q)] @ b @ [(Now, u), (Kill (rv p), x), (WaitChild (rv p), y), (Now, v)] @ c @ [(Now, z)]"
        by (simp add: g(1))
      ultimately have "completed tr s' w'" unfolding completed_def t(2) using g(2,5-9) by blast
      then show ?thesis using False by simp
    qed
  qed
qed

lemma calls_vcpu: "calls_only vcpu_call (run_to_doorbell K v)" "calls_only vcpu_call (read_reg K v r)" "calls_only vcpu_call (write_reg K v r a what)"
  by (auto simp: run_to_doorbell_def read_reg_def write_reg_def Let_def intro!: calls_intros calls_sys calls_check_sys)

lemma protocol_guest:
  assumes "calls_only vcpu_call f" "f w = (r, w')" "follows tr s w"
  shows "follows tr s w'"
proof -
  obtain es' where es': "trace w' = trace w @ es'" "list_all (\<lambda>e. vcpu_call (fst e)) es'" using calls_onlyD [OF assms(1,2)] by blast
  obtain es where es: "trace w = tr @ es" "protocol s (host_calls es)" using assms(3) by (auto simp: follows_def)
  have "host_calls es' = []" using es'(2) by (auto simp: host_calls_def list_all_iff filter_empty_conv)
  then show ?thesis using followsI [OF es'(1) es(1)] es(2) by simp
qed

lemma protocol_hammer_loop:
  "hammer_loop fuel K v (keep_going K) s w = (Ok (sw, s'), w') \<Longrightarrow> follows tr s w \<Longrightarrow> completed tr s' w'"
proof (induction fuel arbitrary: s w)
  case (Suc fuel)
  obtain e w1 where e: "run_to_doorbell K v w = (Ok e, w1)"
    "(case e of Canceled \<Rightarrow> hammer_loop fuel K v (keep_going K) s | Doorbell \<Rightarrow> bind_io (read_reg K v HV_REG_X4) (\<lambda>sweeps. bind_io (keep_going K sweeps s) (\<lambda>(go, s').
         if \<not> go then ret (sweeps, s') else bind_io (read_reg K v HV_REG_PC) (\<lambda>p. then_io (write_reg K v HV_REG_PC (p + 4) ''advance PC'')
                      (hammer_loop fuel K v (keep_going K) s'))))) w1 = (Ok (sw, s'), w')"
    using Suc.prems(1) unfolding hammer_loop.simps bind_io_eq_Ok_iff [of "run_to_doorbell K v"] by blast
  have p1: "follows tr s w1" by (rule protocol_guest [OF calls_vcpu(1) e(1) Suc.prems(2)])
  show ?case
  proof (cases e)
    case Canceled
    then show ?thesis using Suc.IH [OF _ p1] e(2) by simp
  next
    case Doorbell
    obtain x w2 go s1 w3 where 2: "read_reg K v HV_REG_X4 w1 = (Ok x, w2)" "keep_going K x s w2 = (Ok (go, s1), w3)"
      "(if \<not> go then ret (x, s1) else bind_io (read_reg K v HV_REG_PC) (\<lambda>p. then_io (write_reg K v HV_REG_PC (p + 4) ''advance PC'')
                      (hammer_loop fuel K v (keep_going K) s1))) w3 = (Ok (sw, s'), w')"
      using e(2) unfolding Doorbell guest_exit.case bind_io_eq_Ok_iff [of "read_reg K v HV_REG_X4"] bind_io_eq_Ok_iff [of "keep_going K x s" for x]
      by (metis (no_types, lifting) case_prod_conv prod.exhaust)
    have p3: "if go then follows tr s1 w3 else completed tr s1 w3"
      by (rule protocol_keep_going [OF protocol_guest [OF calls_vcpu(2) 2(1) p1] 2(2)])
    show ?thesis
    proof (cases go)
      case False
      then show ?thesis using 2(3) p3 by simp
    next
      case True
      then obtain p w4 w5 where 4: "read_reg K v HV_REG_PC w3 = (Ok p, w4)" "write_reg K v HV_REG_PC (p + 4) ''advance PC'' w4 = (Ok (), w5)"
        "hammer_loop fuel K v (keep_going K) s1 w5 = (Ok (sw, s'), w')" using 2(3) by (auto simp: bind_io_eq_Ok_iff then_io_eq_Ok_iff)
      have f3: "follows tr s1 w3" using p3 True by simp
      show ?thesis by (rule Suc.IH [OF 4(3) protocol_guest [OF calls_vcpu(3) 4(2) protocol_guest [OF calls_vcpu(2) 4(1) f3]]])
    qed
  qed
qed (simp add: out_of_fuel_def)

text \<open>
  C17. The hammer does not stop before the pressure has come and gone. Whatever the kernel does, if the
  hammer returns, the calls of the host since it started, the guest's own left out, are: polls of an
  empty channel; the poll that brings the generator's guard, and the clock; readings of the clock less
  than \<^verbatim>\<open>HOLD\<close> later; one at least \<^verbatim>\<open>HOLD\<close> later, at which the generator is killed and reaped and the
  clock read again; readings less than \<^verbatim>\<open>TAIL\<close> after that; and one at least \<^verbatim>\<open>TAIL\<close> after it, the last.
  No guard is left in the closure. That the hammer returns is not claimed.
\<close>

theorem hammer_pressure_complete:
  assumes "run_hammer fuel K vcpu n (keep_going K) \<lparr>h_guard = None, hold_since = None, released_at = None\<rparr> w = (Ok (sw, s), w')"
  shows "h_guard s = None \<and> (\<exists>es a p q b u x y v c z. trace w' = trace w @ es
     \<and> host_calls es = a @ [(TryRecv, p), (Now, q)] @ b @ [(Now, u), (Kill (rv p), x), (WaitChild (rv p), y), (Now, v)] @ c @ [(Now, z)]
     \<and> unanswered a \<and> rc p = 0 \<and> clock_below q HOLD b \<and> HOLD \<le> elapsed q u \<and> clock_below v TAIL c \<and> TAIL \<le> elapsed v z)"
proof -
  let ?s = "\<lparr>h_guard = None, hold_since = None, released_at = None\<rparr>"
  have p: "follows (trace w) ?s w" unfolding follows_def
    by (rule exI [where x = "[]"]) (simp add: protocol.waiting unanswered_def)
  obtain a b c d e where s: "write_reg K vcpu HV_REG_PC HAMMER_GPA ''set PC'' w = (Ok (), a)" "write_reg K vcpu HV_REG_X2 (RAM_GPA + n) ''set X2'' a = (Ok (), b)"
    "write_reg K vcpu HV_REG_X3 DOORBELL_GPA ''set X3'' b = (Ok (), c)" "write_reg K vcpu HV_REG_X4 0 ''set X4'' c = (Ok (), d)"
    "write_reg K vcpu HV_REG_X6 RAM_GPA ''set X6'' d = (Ok (), e)" "hammer_loop fuel K vcpu (keep_going K) ?s e = (Ok (sw, s), w')"
    using assms(1) unfolding run_hammer_def then_io_eq_Ok_iff by blast
  have "follows (trace w) ?s e"
    by (rule protocol_guest [OF calls_vcpu(3) s(5) protocol_guest [OF calls_vcpu(3) s(4) protocol_guest [OF calls_vcpu(3) s(3)
          protocol_guest [OF calls_vcpu(3) s(2) protocol_guest [OF calls_vcpu(3) s(1) p]]]]])
  from protocol_hammer_loop [OF s(6) this] show ?thesis unfolding completed_def .
qed

section \<open>Witnesses\<close>

lemma one_page_race: "\<exists>r. race_start 0x8000 PAGE 0x4000 r"
proof -
  obtain mem where "pass_pre plat_kernel plat_view 0 0x8000 (unat (0x4000 :: usize)) 0x4000 1 0 0x4000 (boot 0x4000 0x8000 0x4000 0 mem)"
    using platform_ready [of "0x4000" 0 "0x4000" 0 0] by (auto simp: good_range_def PAGE_def RAM_GPA_def)
  then have g: "guest_ready 0x8000 PAGE 0x4000 (vm_s2 0x4000 0x8000 0x4000) mem" by (simp add: window_pre_def plat_view_def boot_def PAGE_def)
  define m where "m = \<lparr>pc = HAMMER_GPA, xr = (\<lambda>i. if i = 2 then RAM_GPA + of_nat PAGE else if i = 3 then DOORBELL_GPA else if i = 6 then RAM_GPA else 0),
    cpsr = 0, mmem = write64 mem (0x8000 + 0) (RAM_GPA + of_nat 0), ms2 = vm_s2 0x4000 0x8000 0x4000\<rparr>"
  have "guest_ready 0x8000 PAGE 0x4000 (ms2 m) (mmem m)" using guest_window_write64 [OF g, of 0] by (simp add: m_def PAGE_def)
  moreover have "ram_pages PAGE = {0}" by (auto simp: set_step_by PAGE_def)
  ultimately have "race_start 0x8000 PAGE 0x4000 \<lparr>vm = m, sweeps = 0, lost = {}\<rparr>" by (simp add: race_start_def m_def PAGE_def)
  then show ?thesis by blast
qed

theorem hammer_detects_witness:
  "\<exists>r r' i l ex. race_start 0x8000 PAGE 0x4000 r \<and> (race_step 0x8000 PAGE)\<^sup>*\<^sup>* r r'
     \<and> survey_hammer 0x8000 0x4000 (\<lambda>off. RAM_GPA + of_nat off + xr (vm r') 4) (fresh_world\<lparr>wmem := mmem (vm r')\<rparr>) = (Ok (i, l, ex), fresh_world\<lparr>wmem := mmem (vm r')\<rparr>)
     \<and> unat l = 1 \<and> unat i = 0"
proof -
  have p: "unat (0x4000 :: usize) = PAGE" "ram_pages PAGE = {0}" by (auto simp: PAGE_def set_step_by)
  obtain r where r: "race_start 0x8000 PAGE 0x4000 r" using one_page_race by blast
  obtain r1 r2 r' where r': "(race_step 0x8000 PAGE)\<^sup>*\<^sup>* r r1" "race_step 0x8000 PAGE r1 r2" "(race_step 0x8000 PAGE)\<^sup>*\<^sup>* r2 r'"
    "arm_step (vm r') = DataAbort DOORBELL_GPA" "sweeps r' = 1" "lost r' = {0}" using discarded_sweep [OF r, of 1] by auto
  have re: "(race_step 0x8000 PAGE)\<^sup>*\<^sup>* r r'" using r'(1-3) by (meson rtranclp.rtrancl_into_rtrancl rtranclp_trans)
  have b: "unat RAM_GPA + PAGE + sweeps r' < 2 ^ 64" using r'(5) by (simp add: RAM_GPA_def PAGE_def)
  have d: "PAGE div PAGE = 1" by (simp add: PAGE_def)
  obtain i l ex where "survey_hammer 0x8000 0x4000 (\<lambda>off. RAM_GPA + of_nat off + xr (vm r') 4) (fresh_world\<lparr>wmem := mmem (vm r')\<rparr>) = (Ok (i, l, ex), fresh_world\<lparr>wmem := mmem (vm r')\<rparr>)"
    "unat l = card ({0} \<inter> {0 :: nat})" "unat i + unat l = 1"
    using hammer_detects [of "0x8000" "0x4000" "0x4000" r r' fresh_world, unfolded p(1), OF r re r'(4) b] unfolding r'(6) p(2) d by blast
  moreover from this have "unat l = 1" "unat i = 0" by simp_all
  ultimately show ?thesis using r re by blast
qed

theorem hammer_blind_witness:
  "\<exists>r r'. race_start 0x8000 PAGE 0x4000 r \<and> (race_step 0x8000 PAGE)\<^sup>*\<^sup>* r r' \<and> read64 (mmem (vm r')) 0x8000 = RAM_GPA + xr (vm r') 4 \<and> xr (vm r') 4 = 1"
proof -
  obtain r where r: "race_start 0x8000 PAGE 0x4000 r" using one_page_race by blast
  obtain r1 r2 r' where r': "(race_step 0x8000 PAGE)\<^sup>*\<^sup>* r r1" "race_step 0x8000 PAGE r1 r2" "(race_step 0x8000 PAGE)\<^sup>*\<^sup>* r2 r'"
    "xr (vm r') 4 = 1" "read64 (mmem (vm r')) 0x8000 = RAM_GPA + xr (vm r') 4" using hammer_blind [OF r] by blast
  have "(race_step 0x8000 PAGE)\<^sup>*\<^sup>* r r'" using r'(1-3) by (meson rtranclp.rtrancl_into_rtrancl rtranclp_trans)
  then show ?thesis using r r'(4,5) by blast
qed


text \<open>A framework whose runs all end at the doorbell, with a clock and a guard that is ready.\<close>

definition bell_kernel :: "u64 kernel" where
  "bell_kernel = \<lparr>k_sys = (\<lambda>c x m. if c = TryRecv then (\<lparr>rc = 0, rv = 7\<rparr>, x, m) else if c = Now then (\<lparr>rc = 0, rv = x\<rparr>, x + 8000000000, m) else (\<lparr>rc = 0, rv = 0\<rparr>, x, m)),
     k_exit = (\<lambda>_ _. \<lparr>reason = HV_EXIT_REASON_EXCEPTION, exception = \<lparr>syndrome = push_bit 26 EC_DATA_ABORT_LOWER_EL, virtual_address = 0, physical_address = DOORBELL_GPA\<rparr>\<rparr>),
     k_vm_info = undefined, k_line = (\<lambda>_. None), k_text = (\<lambda>_. []), k_rusage = (\<lambda>_. no_rusage)\<rparr>"

theorem hammer_pressure_complete_witness:
  "\<exists>sw s w' es p. run_hammer 1 bell_kernel 0 0x4000 (keep_going bell_kernel) \<lparr>h_guard = None, hold_since = None, released_at = None\<rparr>
     \<lparr>ext = 0, wmem = (\<lambda>_. 0), trace = [(Sysconf, \<lparr>rc = 0, rv = 5\<rparr>)], stdout = []\<rparr> = (Ok (sw, s), w') \<and> h_guard s = None
     \<and> trace w' = [(Sysconf, \<lparr>rc = 0, rv = 5\<rparr>)] @ es \<and> (\<exists>x. (Kill (rv p), x) \<in> set (host_calls es)) \<and> (TryRecv, p) \<in> set (host_calls es)"
proof -
  let ?w = "\<lparr>ext = 0 :: u64, wmem = (\<lambda>_. 0), trace = [(Sysconf, \<lparr>rc = 0, rv = 5\<rparr>)], stdout = []\<rparr>"
  have "\<exists>sw s w'. run_hammer 1 bell_kernel 0 0x4000 (keep_going bell_kernel) \<lparr>h_guard = None, hold_since = None, released_at = None\<rparr> ?w = (Ok (sw, s), w')"
    by (simp add: run_hammer_def write_reg_def read_reg_def run_to_doorbell_def read_exit_def keep_going_def ham_receive_def ham_release_def now_def
        drop_guard_def bell_kernel_def HOLD_def TAIL_def io_defs sys_def HV_EXIT_REASON_EXCEPTION_def HV_EXIT_REASON_CANCELED_def EC_DATA_ABORT_LOWER_EL_def Let_def)
  then obtain sw s w' where w': "run_hammer 1 bell_kernel 0 0x4000 (keep_going bell_kernel) \<lparr>h_guard = None, hold_since = None, released_at = None\<rparr> ?w = (Ok (sw, s), w')" by blast
  obtain es a p q b u x y v c z where "h_guard s = None" "trace w' = trace ?w @ es"
    "host_calls es = a @ [(TryRecv, p), (Now, q)] @ b @ [(Now, u), (Kill (rv p), x), (WaitChild (rv p), y), (Now, v)] @ c @ [(Now, z)]"
    using hammer_pressure_complete [OF w'] by blast
  then show ?thesis using w' by auto
qed

end
