(* ===== verification/Experiments.thy ===== *)
theory Experiments
  imports Discipline
begin

text \<open>
  Properties of the experiments of \<^verbatim>\<open>hv-reclaim\<close> beyond the discipline: the extents of a timed
  reclaim tile guest RAM, the guard of the fleet simulation, and the cells of the allocation
  matrix.
\<close>

section \<open>Extents\<close>

text \<open>The host ranges a run gives back, in order.\<close>

definition released :: "(call \<times> resp) list \<Rightarrow> (nat \<times> usize) list" where
  "released es = concat (map (\<lambda>e. case fst e of Madvise p n adv \<Rightarrow> [(p, n)] | Munmap p n \<Rightarrow> [(p, n)] | _ \<Rightarrow> []) es)"

lemma released_simps [simp]: "released [] = []" "released (es @ es') = released es @ released es'"
  by (simp_all add: released_def)

lemma timed_OkD:
  assumes "timed K f w = (Ok d, w')"
  shows "\<exists>w1 w2 r1 r2. trace w1 = trace w @ [(Now, r1)] \<and> f w1 = (Ok (), w2) \<and> trace w' = trace w2 @ [(Now, r2)]"
  using assms by (auto simp: timed_def now_def bind_io_eq_Ok_iff dest!: sys_trace)

lemma release_trace:
  assumes "release mode adv K host len w = (Ok (), w')"
  shows "\<exists>es. trace w' = trace w @ es \<and> released es = [(host, len)]"
  using assms
  by (cases mode) (auto simp: release_def advise_def bind_io_eq_Ok_iff then_io_eq_Ok_iff released_def dest!: sys_trace)

lemma reclaim_extent_trace:
  assumes "reclaim_extent K ram extent mode adv off p w = (Ok p', w')"
  shows "\<exists>es. trace w' = trace w @ es \<and> released es = [(ram + off, extent)]"
proof -
  obtain d1 w1 d2 w2 d3 where t:
    "timed K (unmap_range K (RAM_GPA + of_nat off) extent ''hv_vm_unmap(extent)'') w = (Ok d1, w1)"
    "timed K (release mode adv K (ram + off) extent) w1 = (Ok d2, w2)"
    "timed K (map_rw K (ram + off) (RAM_GPA + of_nat off) extent ''hv_vm_map(extent)'') w2 = (Ok d3, w')"
    using assms by (auto simp: reclaim_extent_def Let_def bind_io_eq_Ok_iff)
  obtain x1 y1 r1 q1 where 1: "trace x1 = trace w @ [(Now, r1)]" "unmap_range K (RAM_GPA + of_nat off) extent ''hv_vm_unmap(extent)'' x1 = (Ok (), y1)" "trace w1 = trace y1 @ [(Now, q1)]"
    using timed_OkD [OF t(1)] by blast
  obtain x2 y2 r2 q2 where 2: "trace x2 = trace w1 @ [(Now, r2)]" "release mode adv K (ram + off) extent x2 = (Ok (), y2)" "trace w2 = trace y2 @ [(Now, q2)]"
    using timed_OkD [OF t(2)] by blast
  obtain x3 y3 r3 q3 where 3: "trace x3 = trace w2 @ [(Now, r3)]" "map_rw K (ram + off) (RAM_GPA + of_nat off) extent ''hv_vm_map(extent)'' x3 = (Ok (), y3)" "trace w' = trace y3 @ [(Now, q3)]"
    using timed_OkD [OF t(3)] by blast
  obtain e1 where e1: "trace y1 = trace x1 @ e1" "released e1 = []"
    using 1(2) by (auto simp: unmap_range_def check_sys_eq_Ok_iff released_def dest!: sys_trace)
  obtain e2 where e2: "trace y2 = trace x2 @ e2" "released e2 = [(ram + off, extent)]" using release_trace [OF 2(2)] by blast
  obtain e3 where e3: "trace y3 = trace x3 @ e3" "released e3 = []"
    using 3(2) by (auto simp: map_rw_def check_sys_eq_Ok_iff released_def dest!: sys_trace)
  have n: "released [(Now, r)] = []" for r by (simp add: released_def)
  have "trace w' = trace w @ ([(Now, r1)] @ e1 @ [(Now, q1)] @ [(Now, r2)] @ e2 @ [(Now, q2)] @ [(Now, r3)] @ e3 @ [(Now, q3)])"
    using 1 2 3 e1 e2 e3 by simp
  then show ?thesis using e1 e2 e3 n by (metis (no_types, lifting) append_Nil append_Nil2 released_simps(2))
qed

lemma fold_extents_trace:
  "fold_io offs (reclaim_extent K ram extent mode adv) p w = (Ok p', w') \<Longrightarrow>
     \<exists>es. trace w' = trace w @ es \<and> released es = map (\<lambda>off. (ram + off, extent)) offs"
proof (induction offs arbitrary: p w)
  case (Cons off offs)
  obtain p1 w1 where s: "reclaim_extent K ram extent mode adv off p w = (Ok p1, w1)"
    "fold_io offs (reclaim_extent K ram extent mode adv) p1 w1 = (Ok p', w')"
    using Cons.prems by (auto simp: bind_io_eq_Ok_iff)
  obtain e1 where e1: "trace w1 = trace w @ e1" "released e1 = [(ram + off, extent)]" using reclaim_extent_trace [OF s(1)] by blast
  obtain e2 where e2: "trace w' = trace w1 @ e2" "released e2 = map (\<lambda>off. (ram + off, extent)) offs" using Cons.IH [OF s(2)] by blast
  show ?case by (rule exI [of _ "e1 @ e2"]) (use e1 e2 in simp)
qed (auto intro: exI [of _ "[]"])

text \<open>Extents of a size that divides the RAM tile it.\<close>

lemma extents_tile:
  assumes "0 < (e::nat)" "e dvd n"
  shows "(\<Union>off\<in>set (step_by 0 n e). {ram + off ..< ram + off + e}) = {ram ..< ram + n}"
    and "i \<in> set (step_by 0 n e) \<Longrightarrow> j \<in> set (step_by 0 n e) \<Longrightarrow> i < j \<Longrightarrow> i + e \<le> j"
proof -
  show "(\<Union>off\<in>set (step_by 0 n e). {ram + off ..< ram + off + e}) = {ram ..< ram + n}"
  proof (intro equalityI subsetI)
    fix x assume "x \<in> (\<Union>off\<in>set (step_by 0 n e). {ram + off ..< ram + off + e})"
    then obtain off where o: "off < n" "off mod e = 0" "ram + off \<le> x" "x < ram + off + e" using assms by (auto simp: set_step_by)
    then have "off + e \<le> n" using multiple_below [of e off n] assms(2) by (simp add: mod_eq_0_iff_dvd)
    then show "x \<in> {ram ..< ram + n}" using o by simp
  next
    fix x assume x: "x \<in> {ram ..< ram + n}"
    define off where "off = (x - ram) div e * e"
    have "x - ram = off + (x - ram) mod e" "(x - ram) mod e < e" using assms(1) by (simp_all add: off_def)
    then have "off \<le> x - ram" "x - ram < off + e" by linarith+
    moreover have "off mod e = 0" by (simp add: off_def)
    ultimately have "off \<in> set (step_by 0 n e)" "x \<in> {ram + off ..< ram + off + e}" using x assms(1) by (auto simp: set_step_by)
    then show "x \<in> (\<Union>off\<in>set (step_by 0 n e). {ram + off ..< ram + off + e})" by blast
  qed
  show "i + e \<le> j" if "i \<in> set (step_by 0 n e)" "j \<in> set (step_by 0 n e)" "i < j"
    using multiple_below [of e i j] that assms(1) by (simp add: set_step_by mod_eq_0_iff_dvd)
qed

text \<open>
  C16. A timed reclaim gives back all of guest RAM, once: the ranges released are the extents in
  order, they cover the RAM exactly and no two of them overlap.
\<close>

theorem extents_cover:
  assumes "reclaim_extents K ram n extent mode adv w = (Ok ph, w')" "0 < extent" "is_multiple_of n extent"
  shows "\<exists>es. trace w' = trace w @ es
     \<and> released es = map (\<lambda>off. (ram + off, extent)) (step_by 0 (unat n) (unat extent))
     \<and> (\<Union>(p, len)\<in>set (released es). bytes p len) = bytes ram n
     \<and> pairwise (\<lambda>(p, len) (q, len'). bytes p len \<inter> bytes q len' = {}) (set (released es))"
proof -
  have e: "0 < unat extent" "unat extent dvd unat n"
    using assms(2,3) by (auto simp: is_multiple_of_def unat_gt_0 mod_eq_0_iff_dvd unat_mod_distrib
        dvd_eq_mod_eq_0 word_neq_0_conv simp flip: unat_mod_distrib)
  obtain es where es: "trace w' = trace w @ es" "released es = map (\<lambda>off. (ram + off, extent)) (step_by 0 (unat n) (unat extent))"
    using fold_extents_trace assms(1) unfolding reclaim_extents_def by blast
  note T = extents_tile [OF e]
  have "(\<Union>(p, len)\<in>set (released es). bytes p len) = bytes ram n"
    unfolding es(2) using T(1) [of ram] by (auto simp: bytes_def)
  moreover have "bytes (ram + i) extent \<inter> bytes (ram + j) extent = {}"
    if "i \<in> set (step_by 0 (unat n) (unat extent))" "j \<in> set (step_by 0 (unat n) (unat extent))" "i \<noteq> j" for i j
    using T(2) [OF that(1,2)] T(2) [OF that(2,1)] that(3) by (cases "i < j") (auto simp: bytes_def)
  then have "pairwise (\<lambda>(p, len) (q, len'). bytes p len \<inter> bytes q len' = {}) (set (released es))"
    unfolding es(2) pairwise_def by auto
  ultimately show ?thesis using es by blast
qed

theorem extents_cover_witness:
  "\<exists>ph w'. reclaim_extents plat_kernel 0x8000 0x8000 0x4000 MunmapMode MADV_FREE_REUSABLE (boot 0x4000 0x8000 0x8000 0 (\<lambda>_. 0)) = (Ok ph, w')
     \<and> (\<exists>es. trace w' = trace (boot 0x4000 0x8000 0x8000 0 (\<lambda>_. 0)) @ es \<and> released es = [(0x8000, 0x4000), (0xC000, 0x4000)])"
proof -
  have o: "step_by 0 0x8000 0x4000 = [0, 0x4000]" by (simp add: step_by_def upt_rec)
  have "\<exists>ph w'. reclaim_extents plat_kernel 0x8000 0x8000 0x4000 MunmapMode MADV_FREE_REUSABLE (boot 0x4000 0x8000 0x8000 0 (\<lambda>_. 0)) = (Ok ph, w')"
    by (simp add: reclaim_extents_def o reclaim_extent_def Let_def timed_def now_def unmap_range_def map_rw_def release_def
        io_defs sys_def plat_kernel_def success_def boot_def)
  then obtain ph w' where w': "reclaim_extents plat_kernel 0x8000 0x8000 0x4000 MunmapMode MADV_FREE_REUSABLE (boot 0x4000 0x8000 0x8000 0 (\<lambda>_. 0)) = (Ok ph, w')"
    by blast
  show ?thesis using extents_cover [OF w'] w' o by (auto simp: is_multiple_of_def)
qed

section \<open>The fleet guard\<close>

text \<open>
  The guard of the fleet simulation is exact as long as the product of region size and
  service count fits the address width: then a fleet passes exactly when it fits in guest RAM.
\<close>

theorem fleet_fits_exact:
  assumes "unat (push_bit 20 (service_mib opts) :: usize) * unat (services opts) < 2 ^ 64"
  shows "fleet_fits opts \<longleftrightarrow>
     unat (push_bit 20 (service_mib opts) :: usize) * unat (services opts) \<le> unat (push_bit 30 (size_gb opts) :: usize)"
  using assms by (simp add: fleet_fits_def word_le_nat_alt unat_word_ariths)

theorem fleet_fits_exact_witness: "fleet_fits default_options"
  using fleet_fits_exact [of default_options] by (simp add: default_options_def)

text \<open>
  Without that bound it is not: in a build without overflow checks the product wraps around,
  and \<open>2 ^ 44\<close> services of 1 MiB pass for a guest of 3 GiB.
\<close>

theorem fleet_fits_wraps:
  "fleet_fits (default_options\<lparr>services := 2 ^ 44, service_mib := 1\<rparr>)
     \<and> size_gb (default_options\<lparr>services := 2 ^ 44, service_mib := 1\<rparr>) = 3"
  by (simp add: fleet_fits_def default_options_def)

end
