(* ===== verification/Soak_Correct.thy ===== *)
theory Soak_Correct
  imports Soak Platform
begin

text \<open>
  Properties of the soak beyond its discipline: the slots of the workers, the detector's self-test,
  and what the report does not tell.
\<close>

section \<open>The slots\<close>

text \<open>
  C26. Where the ranges of worker \<open>i\<close> lie, for every \<open>i\<close> below the number of vCPUs: its slot starts at
  \<open>i\<close> times the slot size; the hot range is at the start of the slot and the cold range right behind it;
  both have the same length, a whole number of pages; both lie in the slot, and the slot in guest RAM;
  and neither meets a range of another worker. They start at a page boundary when the slot size is a
  multiple of the page size, which the program does not ask.
\<close>

theorem slots_disjoint:
  assumes "i < unat (soak_vcpus opts)"
  defines "slot \<equiv> slot_size opts" and "half \<equiv> half_size (slot_size opts)"
  shows "unat (fst (hot_range slot half (of_nat i))) = i * unat slot
     \<and> PAGE dvd unat half
     \<and> unat (snd (hot_range slot half (of_nat i))) = i * unat slot + unat half
     \<and> unat (fst (cold_range slot half (of_nat i))) = i * unat slot + unat half
     \<and> unat (snd (cold_range slot half (of_nat i))) = i * unat slot + 2 * unat half
     \<and> i * unat slot + 2 * unat half \<le> Suc i * unat slot
     \<and> Suc i * unat slot \<le> unat (push_bit 30 (size_gb opts) :: usize)
     \<and> (\<forall>j<unat (soak_vcpus opts). j \<noteq> i \<longrightarrow>
          {unat (fst (hot_range slot half (of_nat i))) ..< unat (snd (cold_range slot half (of_nat i)))}
          \<inter> {unat (fst (hot_range slot half (of_nat j))) ..< unat (snd (cold_range slot half (of_nat j)))} = {})
     \<and> (PAGE dvd unat slot \<longrightarrow> PAGE dvd unat (fst (hot_range slot half (of_nat i))) \<and> PAGE dvd unat (fst (cold_range slot half (of_nat i))))"
proof -
  note R = slot_ranges [where opts = opts, folded slot_def half_def]
  have apart: "{unat (fst (hot_range slot half (of_nat i))) ..< unat (snd (cold_range slot half (of_nat i)))}
      \<inter> {unat (fst (hot_range slot half (of_nat j))) ..< unat (snd (cold_range slot half (of_nat j)))} = {}"
    if "j < unat (soak_vcpus opts)" "j \<noteq> i" for j
  proof -
    have "Suc i * unat slot \<le> j * unat slot \<or> Suc j * unat slot \<le> i * unat slot"
      using that(2) by (metis Suc_leI mult_le_mono1 nat_neq_iff)
    then show ?thesis using R(5) [OF assms(1)] R(5) [OF that(1)]
      unfolding R(1,4) [OF assms(1)] R(1,4) [OF that(1)] by auto
  qed
  then show ?thesis using half_bound(2) [of slot] R [OF assms(1)] unfolding half_def slot_def by simp
qed

theorem slots_disjoint_witness:
  "unat (snd (cold_range (slot_size default_options) (half_size (slot_size default_options)) (of_nat 3))) \<le> 3 * 2 ^ 30
   \<and> {unat (fst (hot_range (slot_size default_options) (half_size (slot_size default_options)) (of_nat 3))) ..< unat (snd (cold_range (slot_size default_options) (half_size (slot_size default_options)) (of_nat 3)))}
     \<inter> {unat (fst (hot_range (slot_size default_options) (half_size (slot_size default_options)) (of_nat 2))) ..< unat (snd (cold_range (slot_size default_options) (half_size (slot_size default_options)) (of_nat 2)))} = {}"
proof -
  have v: "3 < unat (soak_vcpus default_options)" "2 < unat (soak_vcpus default_options)" by (simp_all add: soak_vcpus_def default_options_def)
  have r: "unat (push_bit 30 (size_gb default_options) :: usize) = 3 * 2 ^ 30" by (simp add: default_options_def push_bit_eq_mult)
  note S = slots_disjoint [OF v(1)]
  show ?thesis using S v(2) unfolding r by (auto simp del: of_nat_numeral)
qed

text \<open>
  A slot itself need not be a whole number of pages: three gibibytes among five vCPUs put the second
  worker's ranges at an offset that is not even a multiple of eight.
\<close>

theorem slots_unaligned:
  "unat (fst (cold_range (slot_size (default_options\<lparr>vcpus := 5\<rparr>)) (half_size (slot_size (default_options\<lparr>vcpus := 5\<rparr>))) 1)) mod 8 = 6"
proof -
  have s: "slot_size (default_options\<lparr>vcpus := 5\<rparr>) = 644245094" by (simp add: slot_size_def soak_vcpus_def default_options_def push_bit_eq_mult)
  have "half_size 644245094 = 322109440" by (simp add: half_size_def PAGE_def)
  then show ?thesis by (simp add: s cold_range_def)
qed

section \<open>The detector\<close>

text \<open>
  C25. The detector's self-test passes on a working guest: on a hot range of at least two pages that
  holds what is expected, it finds the planted page and only that page, finds nothing after the
  page is restored, leaves memory as it was, and says so.
\<close>

theorem self_test_passes:
  assumes "pass_pre K V vcpu ram sz code fuel lo hi w" "unat lo + PAGE < unat hi"
    and "\<forall>off\<in>set (pages lo hi). read64 (wmem w) (ram + off) = expected"
  shows "\<exists>w'. detector_self_test fuel K vcpu ram (lo, hi) expected w = (Ok (), w') \<and> wmem w' = wmem w
     \<and> stdout w' = stdout w @ [Line ''detector self-test: planted corruption found, clean memory clean\<newline>'' []]"
  using detector_self_test_ok [OF assms] by blast

theorem self_test_passes_witness:
  "\<exists>mem w'. detector_self_test 1 plat_kernel 0 0x8000 (0, 0x8000) 1 (boot 0x4000 0x8000 0x8000 0 mem) = (Ok (), w') \<and> wmem w' = mem"
proof -
  obtain mem where p: "pass_pre plat_kernel plat_view 0 0x8000 (unat (0x8000 :: usize)) 0x4000 1 0 0x8000 (boot 0x4000 0x8000 0x8000 0 mem)"
    using platform_ready [of "0x8000" 0 "0x8000" 0 0] by (auto simp: good_range_def PAGE_def RAM_GPA_def)
  let ?mem = "write64 (write64 mem (0x8000 + 0) 1) (0x8000 + 0x4000) 1"
  have g: "guest_ready 0x8000 0x8000 0x4000 (vm_s2 0x4000 0x8000 0x8000) mem" using p by (simp add: window_pre_def plat_view_def boot_def)
  have "guest_ready 0x8000 0x8000 0x4000 (vm_s2 0x4000 0x8000 0x8000) ?mem"
    by (rule guest_window_write64 [OF guest_window_write64 [OF g]]) simp_all
  then have q: "pass_pre plat_kernel plat_view 0 0x8000 (unat (0x8000 :: usize)) 0x4000 1 0 0x8000 (boot 0x4000 0x8000 0x8000 0 ?mem)"
    using p by (simp add: window_pre_def plat_view_def boot_def)
  have o: "set (pages 0 0x8000) = {0, 0x4000}" by (auto simp: set_step_by PAGE_def)
  have c: "\<forall>off\<in>set (pages 0 0x8000). read64 (wmem (boot 0x4000 0x8000 0x8000 0 ?mem)) (0x8000 + off) = 1"
    unfolding o by (simp add: boot_def read64_write64_other read64_write64_same)
  show ?thesis using self_test_passes [OF q _ c] by (fastforce simp: PAGE_def boot_def)
qed

section \<open>What the report does not tell\<close>

text \<open>A framework that fails every call.\<close>

definition dead_kernel :: "unit kernel" where
  "dead_kernel = \<lparr>k_sys = (\<lambda>c x m. (\<lparr>rc = 1, rv = 0\<rparr>, x, m)), k_exit = undefined, k_vm_info = undefined, k_line = (\<lambda>_. None), k_text = (\<lambda>_. []), k_rusage = undefined\<rparr>"

text \<open>
  A soak none of whose workers ever got a vCPU ends normally and reports no corruption, with
  an infinite bound on the defect rate: the results of the workers' threads are discarded.
\<close>

theorem soak_reports_dead_workers:
  "\<exists>w'. soak_run 1 dead_kernel [WorkerTurn 0, WorkerTurn 1] 0 (default_options\<lparr>vcpus := 2\<rparr>) \<lparr>ext = (), wmem = (\<lambda>_. 0), trace = [], stdout = []\<rparr> = (Ok (), w')
     \<and> last (stdout w') = Line clean_text [ArgNat 0, ArgStr ''inf'']"
proof -
  have v: "unat (soak_vcpus (default_options\<lparr>vcpus := 2\<rparr>)) = 2" by (simp add: soak_vcpus_def default_options_def)
  have s: "2 * of_nat PAGE * 16 \<le> slot_size (default_options\<lparr>vcpus := 2\<rparr>)" by (simp add: slot_size_def soak_vcpus_def default_options_def PAGE_def push_bit_eq_mult)
  have r: "replicate 2 Fresh = [Fresh, Fresh]" by (simp add: numeral_2_eq_2)
  have m: "unat (soak_minutes default_options * 60) = 3600" by (simp add: default_options_def)
  show ?thesis
    unfolding soak_run_def Let_def v r
    using s m by (simp add: soak_turn_def worker_turn_def worker_setup_def in_thread_def dead_kernel_def now_def io_defs sys_def soak_report_def no_stats_def defect_rate_def f64_quotient_def f64_of_int_exact Let_def)
qed

end
