(* ===== verification/Soak_Frame.thy ===== *)
theory Soak_Frame
  imports Soak_Safe
begin

text \<open>
  What the soak relies on from the host, and what a worker leaves alone. The contract covers the
  calls a worker and the main thread make while the soak runs: most of them may fail, but a call
  does nothing beyond what it is documented to do. The frame of a worker is its slot: the bytes of
  its hot and cold range, and the mappings of its cold range.
\<close>

section \<open>The host's contract\<close>

text \<open>The part of a world the guest depends on is the same.\<close>

definition still :: "'x hv_view \<Rightarrow> 'x world \<Rightarrow> 'x world \<Rightarrow> bool" where
  "still V w w' \<longleftrightarrow> wmem w' = wmem w \<and> v_s2 V (ext w') = v_s2 V (ext w)"

text \<open>Only bytes of \<open>[p, p + n)\<close> differ.\<close>

definition differs_in :: "nat \<Rightarrow> nat \<Rightarrow> mem \<Rightarrow> mem \<Rightarrow> bool" where
  "differs_in p n m m' \<longleftrightarrow> (\<forall>y. y < p \<or> p + n \<le> y \<longrightarrow> m' y = m y)"

text \<open>
  A call that maps, unmaps or releases nothing and runs no vCPU changes neither memory nor the
  stage-2 table; a map or an unmap takes effect when it succeeds and has none when it fails; a
  release changes bytes of its range only.
\<close>

definition effect_law :: "'x kernel \<Rightarrow> 'x hv_view \<Rightarrow> bool" where
  "effect_law K V \<longleftrightarrow> (\<forall>c x m p x' m'. k_sys K c x m = (p, x', m') \<longrightarrow>
     (quiet c \<and> (\<forall>v. c \<noteq> HvVcpuRun v) \<longrightarrow> m' = m \<and> v_s2 V x' = v_s2 V x) \<and>
     (\<forall>h a n fl. c = HvVmMap h a n fl \<longrightarrow> m' = m \<and> v_s2 V x' = (if rc p = 0 then s2_map h a n fl (v_s2 V x) else v_s2 V x)) \<and>
     (\<forall>a n. c = HvVmUnmap a n \<longrightarrow> m' = m \<and> v_s2 V x' = (if rc p = 0 then s2_unmap a n (v_s2 V x) else v_s2 V x)) \<and>
     (\<forall>q n adv fl. c = Madvise q n adv \<or> c = Munmap q n \<or> c = Mmap q n fl \<and> MAP_FIXED \<in> set fl \<longrightarrow>
        differs_in q (unat n) m m' \<and> v_s2 V x' = v_s2 V x))"

text \<open>
  Cancelled runs to come only get fewer and the clock only advances, by at least its length over a
  sleep; a reading of the clock is exact as long as it fits 64 bits. The ledger can be read. A vCPU
  that is created behaves as a vCPU.
\<close>

definition progress_law :: "'x kernel \<Rightarrow> 'x hv_view \<Rightarrow> ('x \<Rightarrow> nat) \<Rightarrow> bool" where
  "progress_law K V clk \<longleftrightarrow> (\<forall>c x m p x' m'. k_sys K c x m = (p, x', m') \<longrightarrow>
     v_cancels V x' \<le> v_cancels V x \<and> clk x + (case c of Sleep ms \<Rightarrow> ms * 1000000 | _ \<Rightarrow> 0) \<le> clk x' \<and>
     (c = Now \<longrightarrow> unat (rv p) = min (clk x) (2 ^ 64 - 1)) \<and>
     (\<forall>k. c = TaskInfo TASK_VM_INFO k \<longrightarrow> rc p = 0 \<and> ucast (rv p) = k) \<and>
     (c = HvVcpuCreate \<longrightarrow> rc p = 0 \<longrightarrow> vcpu_contract K V (rv p)))"

definition faithful_host :: "'x kernel \<Rightarrow> 'x hv_view \<Rightarrow> ('x \<Rightarrow> nat) \<Rightarrow> bool" where
  "faithful_host K V clk \<longleftrightarrow> effect_law K V \<and> progress_law K V clk"

text \<open>A host on which, besides, no call of a worker fails.\<close>

definition succeeds :: "'x kernel \<Rightarrow> options \<Rightarrow> bool" where
  "succeeds K opts \<longleftrightarrow> (\<forall>c x m p x' m'. k_sys K c x m = (p, x', m') \<longrightarrow>
     (c = HvVcpuCreate \<or> (\<exists>v. c = HvVcpuDestroy v) \<or> (\<exists>h a n fl. c = HvVmMap h a n fl) \<or> (\<exists>a n. c = HvVmUnmap a n)
        \<or> (\<exists>q n adv. c = Madvise q n adv) \<or> (\<exists>q n. c = Munmap q n) \<longrightarrow> rc p = 0) \<and>
     (\<forall>q n fl. reclaim_mode opts = MunmapMode \<longrightarrow> c = Mmap q n fl \<longrightarrow> MAP_FIXED \<in> set fl \<longrightarrow> unat (rv p) = q))"

lemma still_refl [simp]: "still V w w"
  by (simp add: still_def)

lemma still_trans: "still V w w' \<Longrightarrow> still V w' w'' \<Longrightarrow> still V w w''"
  by (simp add: still_def)

section \<open>How an operation ends\<close>

text \<open>\<open>ends f w Q\<close>: the operation ends, in a value or a panic (\<open>None\<close>), and then \<open>Q\<close>.\<close>

definition ends :: "('x, 'a) io \<Rightarrow> 'x world \<Rightarrow> ('a option \<Rightarrow> 'x world \<Rightarrow> bool) \<Rightarrow> bool" where
  "ends f w Q \<longleftrightarrow> (case f w of (Ok a, w') \<Rightarrow> Q (Some a) w' | (Panic _, w') \<Rightarrow> Q None w' | (OutOfFuel, _) \<Rightarrow> False)"

lemma ends_Ok: "f w = (Ok a, w') \<Longrightarrow> Q (Some a) w' \<Longrightarrow> ends f w Q"
  by (simp add: ends_def)

lemma ends_mono: "ends f w P \<Longrightarrow> (\<And>r w'. P r w' \<Longrightarrow> Q r w') \<Longrightarrow> ends f w Q"
  by (auto simp: ends_def split: prod.splits outcome.splits)

lemma ends_ret [simp]: "ends (ret a) w Q = Q (Some a) w"
  by (simp add: ends_def ret_def)

lemma ends_bind [simp]: "ends (bind_io f g) w Q = ends f w (\<lambda>r w'. case r of Some a \<Rightarrow> ends (g a) w' Q | None \<Rightarrow> Q None w')"
  by (auto simp: ends_def bind_io_def split: prod.splits outcome.splits)

lemma ends_then [simp]: "ends (then_io f g) w Q = ends f w (\<lambda>r w'. case r of Some _ \<Rightarrow> ends g w' Q | None \<Rightarrow> Q None w')"
  by (simp add: then_io_def)

lemma ends_check [simp]: "ends (check r a) w Q = (if r = 0 then Q (Some ()) w else Q None w)"
  by (simp add: ends_def check_def ret_def throw_def)

lemma ends_assert [simp]: "ends (assert_io b a) w Q = (if b then Q (Some ()) w else Q None w)"
  by (simp add: ends_def assert_io_def ret_def throw_def)

lemma ends_when [simp]: "ends (when_io b f) w Q = (if b then ends f w Q else Q (Some ()) w)"
  by (simp add: when_io_def)

lemma ends_thread: "ends (in_thread f) w Q \<longleftrightarrow> ends f w (\<lambda>r. Q (Some r))"
  by (auto simp: ends_def in_thread_def split: prod.splits outcome.splits)

lemma ends_println [simp]: "ends (println s as) w Q = Q (Some ()) (w\<lparr>stdout := stdout w @ [Line s as]\<rparr>)"
  by (simp add: ends_def println_def)

lemma ends_sys: "(\<And>p w'. sys K c w = (Ok p, w') \<Longrightarrow> Q (Some p) w') \<Longrightarrow> ends (sys K c) w Q"
  using sys_total [of K c w] by (auto simp: ends_def)

lemma sys_result:
  assumes "sys K c w = (Ok p, w')"
  shows "k_sys K c (ext w) (wmem w) = (p, ext w', wmem w')" "stdout w' = stdout w"
  using assms by (auto simp: sys_def split: prod.splits)

section \<open>Calls under the contract\<close>

lemma call_still:
  assumes "faithful_host K V clk" "sys K c w = (Ok p, w')" "quiet c" "\<And>v. c \<noteq> HvVcpuRun v"
  shows "still V w w'"
  using assms sys_result(1) [OF assms(2)] unfolding faithful_host_def effect_law_def still_def by blast

lemma call_map:
  assumes "faithful_host K V clk" "sys K (HvVmMap h a n fl) w = (Ok p, w')"
  shows "wmem w' = wmem w" "v_s2 V (ext w') = (if rc p = 0 then s2_map h a n fl (v_s2 V (ext w)) else v_s2 V (ext w))"
  using assms(1) sys_result(1) [OF assms(2)] unfolding faithful_host_def effect_law_def by blast+

lemma call_unmap:
  assumes "faithful_host K V clk" "sys K (HvVmUnmap a n) w = (Ok p, w')"
  shows "wmem w' = wmem w" "v_s2 V (ext w') = (if rc p = 0 then s2_unmap a n (v_s2 V (ext w)) else v_s2 V (ext w))"
  using assms(1) sys_result(1) [OF assms(2)] unfolding faithful_host_def effect_law_def by blast+

lemma call_release:
  assumes "faithful_host K V clk" "sys K c w = (Ok p, w')"
    and "c = Madvise q n adv \<or> c = Munmap q n \<or> c = Mmap q n fl \<and> MAP_FIXED \<in> set fl"
  shows "differs_in q (unat n) (wmem w) (wmem w')" "v_s2 V (ext w') = v_s2 V (ext w)"
  using assms(1,3) sys_result(1) [OF assms(2)] unfolding faithful_host_def effect_law_def by blast+

lemma call_progress:
  assumes "faithful_host K V clk" "sys K c w = (Ok p, w')"
  shows "v_cancels V (ext w') \<le> v_cancels V (ext w)" "clk (ext w) \<le> clk (ext w')"
    "c = Sleep ms \<Longrightarrow> clk (ext w) + ms * 1000000 \<le> clk (ext w')"
    "c = Now \<Longrightarrow> unat (rv p) = min (clk (ext w)) (2 ^ 64 - 1)"
    "c = TaskInfo TASK_VM_INFO k \<Longrightarrow> rc p = 0 \<and> ucast (rv p) = k"
    "c = HvVcpuCreate \<Longrightarrow> rc p = 0 \<Longrightarrow> vcpu_contract K V (rv p)"
proof -
  have "progress_law K V clk" using assms(1) by (simp add: faithful_host_def)
  note P = this [unfolded progress_law_def, rule_format, OF sys_result(1) [OF assms(2)]]
  show "v_cancels V (ext w') \<le> v_cancels V (ext w)" using P by blast
  show "clk (ext w) \<le> clk (ext w')" using P by (auto split: call.splits)
  show "clk (ext w) + ms * 1000000 \<le> clk (ext w')" if "c = Sleep ms" using P that by simp
  show "unat (rv p) = min (clk (ext w)) (2 ^ 64 - 1)" if "c = Now" using P that by simp
  show "rc p = 0 \<and> ucast (rv p) = k" if "c = TaskInfo TASK_VM_INFO k" using P that by simp
  show "vcpu_contract K V (rv p)" if "c = HvVcpuCreate" "rc p = 0" using P that by simp
qed

text \<open>Every operation of the program, however it ends.\<close>

lemma uses_progress:
  assumes "faithful_host K V clk" "uses K f"
  shows "v_cancels V (ext (snd (f w))) \<le> v_cancels V (ext w)" "clk (ext w) \<le> clk (ext (snd (f w)))"
proof -
  let ?P = "\<lambda>w'. v_cancels V (ext w') \<le> v_cancels V (ext w) \<and> clk (ext w) \<le> clk (ext w')"
  have "?P w2" if "?P w1" "world_step K w1 w2" for w1 w2
  proof (cases "\<exists>c. w2 = snd (sys K c w1)")
    case True
    then obtain c p where "sys K c w1 = (Ok p, w2)" using sys_total by (metis snd_conv)
    then show ?thesis using call_progress(1,2) [OF assms(1)] that(1) by (meson le_trans)
  next
    case False
    then show ?thesis using that by (auto simp: world_step_def)
  qed
  then have "?P (snd (f w))" using uses_keeps [OF assms(2), of ?P w] by blast
  then show "v_cancels V (ext (snd (f w))) \<le> v_cancels V (ext w)" "clk (ext w) \<le> clk (ext (snd (f w)))" by simp_all
qed

lemma ends_uses:
  assumes "faithful_host K V clk" "uses K f" "ends f w Q"
  shows "ends f w (\<lambda>r w'. Q r w' \<and> v_cancels V (ext w') \<le> v_cancels V (ext w) \<and> clk (ext w) \<le> clk (ext w'))"
  using assms(3) uses_progress [OF assms(1,2), of w] by (auto simp: ends_def split: prod.splits outcome.splits)

lemma call_succeeds:
  assumes "succeeds K opts" "sys K c w = (Ok p, w')"
  shows "c = HvVcpuCreate \<or> c = HvVcpuDestroy v \<or> c = HvVmMap h a n fl \<or> c = HvVmUnmap a n \<or> c = Madvise q n adv \<or> c = Munmap q n \<Longrightarrow> rc p = 0"
    and "reclaim_mode opts = MunmapMode \<Longrightarrow> c = Mmap q n fs \<Longrightarrow> MAP_FIXED \<in> set fs \<Longrightarrow> unat (rv p) = q"
proof -
  note P = assms(1) [unfolded succeeds_def, THEN spec, THEN spec, THEN spec, THEN spec, THEN spec, THEN spec, THEN mp, OF sys_result(1) [OF assms(2)]]
  show "rc p = 0" if "c = HvVcpuCreate \<or> c = HvVcpuDestroy v \<or> c = HvVmMap h a n fl \<or> c = HvVmUnmap a n \<or> c = Madvise q n adv \<or> c = Munmap q n"
    using P [THEN conjunct1] that by auto
  show "unat (rv p) = q" if "reclaim_mode opts = MunmapMode" "c = Mmap q n fs" "MAP_FIXED \<in> set fs"
    using P [THEN conjunct2] that by auto
qed

section \<open>Slots of guest RAM\<close>

definition hot_off :: "options \<Rightarrow> nat \<Rightarrow> nat" where
  "hot_off opts i = i * unat (slot_size opts)"

abbreviation half_nat :: "options \<Rightarrow> nat" where
  "half_nat opts \<equiv> unat (half_of opts)"

abbreviation ram_bytes :: "options \<Rightarrow> nat" where
  "ram_bytes opts \<equiv> unat (push_bit 30 (size_gb opts) :: usize)"

abbreviation cold_gpa :: "options \<Rightarrow> nat \<Rightarrow> u64" where
  "cold_gpa opts i \<equiv> RAM_GPA + of_nat (cold_off opts i)"

text \<open>The geometry the guest programs need: every slot is a whole number of pages, and at least two.\<close>

definition paged_slots :: "options \<Rightarrow> bool" where
  "paged_slots opts \<longleftrightarrow> PAGE dvd unat (slot_size opts) \<and> 2 * of_nat PAGE * 16 \<le> slot_size opts"

lemma cold_hot: "cold_off opts i = hot_off opts i + half_nat opts"
  by (simp add: cold_off_def hot_off_def)

lemma slot_bounds:
  assumes "i < unat (soak_vcpus opts)"
  shows "hot_off opts i + 2 * half_nat opts \<le> ram_bytes opts" "cold_off opts i + half_nat opts \<le> ram_bytes opts"
  using cold_extent(4) [OF assms] by (simp_all add: cold_off_def hot_off_def)

lemma slots_apart:
  assumes "i \<noteq> j"
  shows "hot_off opts i + 2 * half_nat opts \<le> hot_off opts j \<or> hot_off opts j + 2 * half_nat opts \<le> hot_off opts i"
proof -
  have h: "2 * half_nat opts \<le> unat (slot_size opts)" using half_bound(1) [of "slot_size opts"] by simp
  have "hot_off opts a + 2 * half_nat opts \<le> hot_off opts b" if "a < b" for a b
  proof -
    have "Suc a * unat (slot_size opts) \<le> b * unat (slot_size opts)" using that by (intro mult_le_mono1) simp
    then show ?thesis using h by (simp add: hot_off_def)
  qed
  then show ?thesis using assms by (cases "i < j") auto
qed

lemma half_pages: "paged_slots opts \<Longrightarrow> 16 * PAGE \<le> half_nat opts"
proof -
  assume "paged_slots opts"
  then have "32 * PAGE \<le> unat (slot_size opts)" by (simp add: paged_slots_def word_le_nat_alt PAGE_def)
  then have "16 * PAGE \<le> unat (slot_size opts) div 2" by simp
  then show ?thesis using div_le_mono [of "16 * PAGE" "unat (slot_size opts) div 2" PAGE] by (simp add: half_eq)
qed

section \<open>The frame of a worker\<close>

definition touches :: "'x hv_view \<Rightarrow> nat \<Rightarrow> options \<Rightarrow> nat \<Rightarrow> 'x world \<Rightarrow> 'x world \<Rightarrow> bool" where
  "touches V ram opts j w w' \<longleftrightarrow> differs_in (ram + hot_off opts j) (2 * half_nat opts) (wmem w) (wmem w')
     \<and> (\<forall>a. \<not> a - cold_gpa opts j < half_of opts \<longrightarrow> v_s2 V (ext w') a = v_s2 V (ext w) a)"

lemma touches_still: "still V w w' \<Longrightarrow> touches V ram opts j w w'"
  by (simp add: still_def touches_def differs_in_def)

lemma touches_trans: "touches V ram opts j w w' \<Longrightarrow> touches V ram opts j w' w'' \<Longrightarrow> touches V ram opts j w w''"
  by (simp add: touches_def differs_in_def)

text \<open>Guest RAM mapped from offset \<open>a\<close> to \<open>b\<close>; its pages holding one value.\<close>

definition mapped_ram :: "'x hv_view \<Rightarrow> nat \<Rightarrow> nat \<Rightarrow> nat \<Rightarrow> 'x world \<Rightarrow> bool" where
  "mapped_ram V ram a b w \<longleftrightarrow> (\<forall>off\<ge>a. off < b \<longrightarrow> v_s2 V (ext w) (RAM_GPA + of_nat off) = Some (ram + off, RW))"

definition pages_hold :: "nat \<Rightarrow> nat \<Rightarrow> nat \<Rightarrow> u64 \<Rightarrow> 'x world \<Rightarrow> bool" where
  "pages_hold ram a b v w \<longleftrightarrow> (\<forall>off\<in>set (step_by a b PAGE). read64 (wmem w) (ram + off) = v)"

text \<open>The guest less its RAM: the code page, the doorbell, and where RAM lies.\<close>

abbreviation soak_vm :: "'x hv_view \<Rightarrow> nat \<Rightarrow> nat \<Rightarrow> options \<Rightarrow> 'x world \<Rightarrow> bool" where
  "soak_vm V code ram opts w \<equiv> guest_window (ram_bytes opts) ram (ram_bytes opts) code (v_s2 V (ext w)) (wmem w)"

lemma window_of:
  assumes "soak_vm V code ram opts w" "mapped_ram V ram a b w" "b \<le> ram_bytes opts" "8 dvd b"
  shows "guest_window a ram b code (v_s2 V (ext w)) (wmem w)"
  using assms unfolding guest_window_def mapped_ram_def by auto

text \<open>The guest addresses of a worker's cold range are those of its part of guest RAM.\<close>

lemma cold_address:
  assumes "j < unat (soak_vcpus opts)" "unat RAM_GPA + ram_bytes opts + PAGE \<le> 2 ^ 64" "a - cold_gpa opts j < half_of opts"
  shows "\<exists>off. unat a = unat RAM_GPA + off \<and> cold_off opts j \<le> off \<and> off < cold_off opts j + half_nat opts"
proof -
  define d where "d = unat (a - cold_gpa opts j)"
  have d: "d < half_nat opts" using assms(3) by (simp add: d_def word_less_nat_alt)
  have "a = cold_gpa opts j + (a - cold_gpa opts j)" by simp
  also have "\<dots> = RAM_GPA + of_nat (cold_off opts j + d)" by (simp add: d_def add.assoc)
  finally have a: "a = RAM_GPA + of_nat (cold_off opts j + d)" .
  have "unat RAM_GPA + (cold_off opts j + d) < 2 ^ 64" using d slot_bounds(2) [OF assms(1)] assms(2) by simp
  then have "unat a = unat RAM_GPA + (cold_off opts j + d)" unfolding a by (rule unat_add_bound)
  then show ?thesis using d by (intro exI [of _ "cold_off opts j + d"]) simp
qed

lemma touches_s2:
  assumes "touches V ram opts j w w'" "j < unat (soak_vcpus opts)" "unat RAM_GPA + ram_bytes opts + PAGE \<le> 2 ^ 64"
    and "unat a < unat RAM_GPA \<or> (\<exists>off. unat a = unat RAM_GPA + off \<and> (off < cold_off opts j \<or> cold_off opts j + half_nat opts \<le> off))"
  shows "v_s2 V (ext w') a = v_s2 V (ext w) a"
proof -
  have "\<not> a - cold_gpa opts j < half_of opts" using cold_address [OF assms(2,3), of a] assms(4) by auto
  then show ?thesis using assms(1) by (simp add: touches_def)
qed

lemma touches_mapped:
  assumes "touches V ram opts j w w'" "j < unat (soak_vcpus opts)" "soak_vm V code ram opts w"
    and "b \<le> cold_off opts j \<or> cold_off opts j + half_nat opts \<le> a" "b \<le> ram_bytes opts"
  shows "mapped_ram V ram a b w' = mapped_ram V ram a b w"
proof -
  have g: "unat RAM_GPA + ram_bytes opts + PAGE \<le> 2 ^ 64" using assms(3) by (simp add: guest_window_def)
  have "v_s2 V (ext w') (RAM_GPA + of_nat off) = v_s2 V (ext w) (RAM_GPA + of_nat off)" if "a \<le> off" "off < b" for off
  proof (rule touches_s2 [OF assms(1,2) g])
    have "unat RAM_GPA + off < 2 ^ 64" using that assms(5) g by simp
    then have "unat (RAM_GPA + of_nat off) = unat RAM_GPA + off" by (rule unat_add_bound)
    then show "unat (RAM_GPA + of_nat off) < unat RAM_GPA \<or> (\<exists>off'. unat (RAM_GPA + of_nat off) = unat RAM_GPA + off'
        \<and> (off' < cold_off opts j \<or> cold_off opts j + half_nat opts \<le> off'))"
      using assms(4) that by auto
  qed
  then show ?thesis by (simp add: mapped_ram_def)
qed

lemma code_loaded_cong: "differs_in p n m m' \<Longrightarrow> code + PAGE \<le> p \<or> p + n \<le> code \<Longrightarrow> code_loaded code m' = code_loaded code m"
proof -
  assume d: "differs_in p n m m'" and h: "code + PAGE \<le> p \<or> p + n \<le> code"
  have "read32 m' a = read32 m a" if "code \<le> a" "a + 4 \<le> code + PAGE" for a
    by (rule read32_cong) (use that d h in \<open>auto simp: differs_in_def\<close>)
  then show ?thesis by (simp add: code_loaded_def holds_code_def code_defs)
qed

lemma touches_vm:
  assumes t: "touches V ram opts j w w'" and j: "j < unat (soak_vcpus opts)" and vm: "soak_vm V code ram opts w"
  shows "soak_vm V code ram opts w'"
proof -
  have g: "unat RAM_GPA + ram_bytes opts + PAGE \<le> 2 ^ 64" using vm by (simp add: guest_window_def)
  have d: "differs_in (ram + hot_off opts j) (2 * half_nat opts) (wmem w) (wmem w')" using t by (simp add: touches_def)
  have "code + PAGE \<le> ram + hot_off opts j \<or> ram + hot_off opts j + 2 * half_nat opts \<le> code"
    using vm slot_bounds(1) [OF j] by (auto simp: guest_window_def)
  then have c: "code_loaded code (wmem w') = code_loaded code (wmem w)" by (rule code_loaded_cong [OF d])
  have "v_s2 V (ext w') (CODE_GPA + of_nat off) = v_s2 V (ext w) (CODE_GPA + of_nat off)" if "off < PAGE" for off
  proof (rule touches_s2 [OF t j g])
    have "unat (CODE_GPA + of_nat off) = unat CODE_GPA + off" using that by (intro unat_add_bound) (simp add: code_defs)
    then show "unat (CODE_GPA + of_nat off) < unat RAM_GPA \<or> (\<exists>off'. unat (CODE_GPA + of_nat off) = unat RAM_GPA + off'
        \<and> (off' < cold_off opts j \<or> cold_off opts j + half_nat opts \<le> off'))" using that by (simp add: code_defs)
  qed
  moreover have "v_s2 V (ext w') DOORBELL_GPA = v_s2 V (ext w) DOORBELL_GPA"
    by (rule touches_s2 [OF t j g]) (simp add: code_defs)
  ultimately show ?thesis using vm c by (simp add: guest_window_def)
qed

lemma page_room: "off \<in> set (step_by a b PAGE) \<Longrightarrow> PAGE dvd b - a \<Longrightarrow> a \<le> off \<and> off + PAGE \<le> b"
proof -
  assume "off \<in> set (step_by a b PAGE)" and d: "PAGE dvd b - a"
  then have o: "a \<le> off" "off < b" "PAGE dvd off - a" by (auto simp: set_step_by dvd_eq_mod_eq_0)
  have "PAGE dvd b - off" using o dvd_diff_nat [OF d o(3)] by simp
  then have "PAGE \<le> b - off" using o by (intro dvd_imp_le) auto
  then show ?thesis using o by simp
qed

lemma differs_pages:
  assumes "differs_in p n (wmem w) (wmem w')" "PAGE dvd b - a" "ram + b \<le> p \<or> p + n \<le> ram + a"
  shows "pages_hold ram a b v w' = pages_hold ram a b v w"
proof -
  have "read64 (wmem w') (ram + off) = read64 (wmem w) (ram + off)" if "off \<in> set (step_by a b PAGE)" for off
    by (intro read64_cong) (use page_room [OF that assms(2)] assms(1,3) in \<open>auto simp: differs_in_def PAGE_def\<close>)
  then show ?thesis by (simp add: pages_hold_def)
qed

end
