(* ===== verification/Soak_Worker.thy ===== *)
theory Soak_Worker
  imports Soak_Frame
begin

text \<open>
  A worker of the soak under the host's contract: what holds of its slot at each point of its loop,
  that every operation of the loop ends and leads from one point's assertion to the next one's
  without adding a mismatch, and that it stays inside its own slot.
\<close>

section \<open>Passes inside a slot\<close>

definition in_slot :: "options \<Rightarrow> nat \<Rightarrow> usize \<Rightarrow> usize \<Rightarrow> bool" where
  "in_slot opts i a b \<longleftrightarrow> hot_off opts i \<le> unat a \<and> unat b \<le> hot_off opts i + 2 * half_nat opts
     \<and> PAGE dvd unat a \<and> PAGE dvd unat b \<and> a < b"

abbreviation holds :: "nat \<Rightarrow> usize \<Rightarrow> usize \<Rightarrow> u64 \<Rightarrow> 'x world \<Rightarrow> bool" where
  "holds ram a b \<equiv> pages_hold ram (unat a) (unat b)"

text \<open>Only the range's bytes may differ, and nothing of the table.\<close>

definition inside :: "'x hv_view \<Rightarrow> nat \<Rightarrow> usize \<Rightarrow> usize \<Rightarrow> 'x world \<Rightarrow> 'x world \<Rightarrow> bool" where
  "inside V ram a b w w' \<longleftrightarrow> differs_in (ram + unat a) (unat b - unat a) (wmem w) (wmem w') \<and> v_s2 V (ext w') = v_s2 V (ext w)"

lemma inside_touches: "in_slot opts i a b \<Longrightarrow> inside V ram a b w w' \<Longrightarrow> touches V ram opts i w w'"
  by (auto simp: in_slot_def inside_def touches_def differs_in_def word_less_nat_alt)

lemma inside_still: "still V w w' \<Longrightarrow> inside V ram a b w w'"
  by (simp add: still_def inside_def differs_in_def)

lemma page_map_differs:
  assumes "PAGE dvd b - a"
  shows "differs_in (ram + a) (b - a) m (page_map g ram (step_by a b PAGE) m)"
  unfolding differs_in_def
proof (intro allI impI page_map_outside)
  fix y off assume "y < ram + a \<or> ram + a + (b - a) \<le> y" and "off \<in> set (step_by a b PAGE)"
  then show "y < ram + off \<or> ram + off + 8 \<le> y" using page_room [OF _ assms, of off] by (auto simp: PAGE_def)
qed

text \<open>What a pass over a range needs of the world.\<close>

definition pass_ready :: "'x kernel \<Rightarrow> 'x hv_view \<Rightarrow> nat \<Rightarrow> nat \<Rightarrow> options \<Rightarrow> nat \<Rightarrow> nat \<Rightarrow> u64 \<Rightarrow> usize \<Rightarrow> usize \<Rightarrow> 'x world \<Rightarrow> bool" where
  "pass_ready K V code ram opts fuel i v a b w \<longleftrightarrow> in_slot opts i a b
     \<and> window_pre K V v (unat a) ram (unat b) code fuel a b w"

lemma pass_dvd: "pass_ready K V code ram opts fuel i v a b w \<Longrightarrow> PAGE dvd unat b - unat a"
  by (auto simp: pass_ready_def in_slot_def intro: dvd_diff_nat)

lemma page_map_holds:
  assumes "\<And>off. off \<in> set (pages a b) \<Longrightarrow> g off (read64 (wmem w) (ram + off)) = v" "wmem w' = page_map g ram (pages a b) (wmem w)"
  shows "holds ram a b v w'"
  using assms page_map_same [OF spaced_step_by, of PAGE _ "unat a" "unat b" g ram "wmem w"] by (simp add: pages_hold_def PAGE_def)

lemma sweep_ends:
  assumes "pass_ready K V code ram opts fuel i v a b w"
  shows "ends (run_sweep_range fuel K v a b) w (\<lambda>r w'. r = Some () \<and> inside V ram a b w w'
     \<and> (\<forall>x. holds ram a b x w \<longrightarrow> holds ram a b (x + 1) w'))"
proof -
  obtain w' where w': "run_sweep_range fuel K v a b w = (Ok (), w')" "kept_in V (unat a) ram (unat b) code w w'"
    "wmem w' = page_map (\<lambda>_ v. v + 1) ram (pages a b) (wmem w)"
    using run_sweep_range_result assms(1) unfolding pass_ready_def by blast
  moreover have "holds ram a b (x + 1) w'" if "holds ram a b x w" for x
    by (rule page_map_holds [OF _ w'(3)]) (use that in \<open>simp add: pages_hold_def\<close>)
  ultimately show ?thesis
    using page_map_differs [OF pass_dvd [OF assms(1)]] by (intro ends_Ok) (auto simp: inside_def kept_in_def)
qed

lemma fill_ends:
  assumes "pass_ready K V code ram opts fuel i v a b w"
  shows "ends (run_fill_range fuel K v a b x) w (\<lambda>r w'. r = Some () \<and> inside V ram a b w w' \<and> holds ram a b x w')"
proof -
  obtain w' where w': "run_fill_range fuel K v a b x w = (Ok (), w')" "kept_in V (unat a) ram (unat b) code w w'"
    "wmem w' = page_map (\<lambda>_ _. x) ram (pages a b) (wmem w)"
    using run_fill_range_result assms(1) unfolding pass_ready_def by blast
  moreover have "holds ram a b x w'" by (rule page_map_holds [OF _ w'(3)]) simp
  ultimately show ?thesis
    using page_map_differs [OF pass_dvd [OF assms(1)]] by (intro ends_Ok) (auto simp: inside_def kept_in_def)
qed

lemma verify_ends:
  assumes "pass_ready K V code ram opts fuel i v a b w" "holds ram a b x w"
  shows "ends (run_verify_range fuel K v a b x) w (\<lambda>r w'. r = Some 0 \<and> still V w w')"
proof -
  have none: "filter (\<lambda>off. read64 (wmem w) (ram + off) \<noteq> x) (pages a b) = []"
    using assms(2) by (simp add: pages_hold_def filter_empty_conv)
  have W: "window_pre K V v (unat a) ram (unat b) code fuel a b w" using assms(1) by (simp add: pass_ready_def)
  obtain w' where "run_verify_range fuel K v a b x w = (Ok 0, w')" "kept_in V (unat a) ram (unat b) code w w'" "wmem w' = wmem w"
    using run_verify_range_result [OF W, of x] unfolding none by auto
  then show ?thesis by (intro ends_Ok [where a = 0 and w' = w']) (auto simp: still_def kept_in_def)
qed

section \<open>The assertion of a worker\<close>

abbreviation hot :: "options \<Rightarrow> nat \<Rightarrow> usize \<times> usize" where
  "hot opts i \<equiv> hot_range (slot_size opts) (half_of opts) (of_nat i)"

abbreviation cold :: "options \<Rightarrow> nat \<Rightarrow> usize \<times> usize" where
  "cold opts i \<equiv> cold_range (slot_size opts) (half_of opts) (of_nat i)"

lemma ranges_nat:
  assumes "i < unat (soak_vcpus opts)"
  shows "unat (fst (hot opts i)) = hot_off opts i" "unat (snd (hot opts i)) = cold_off opts i"
    "unat (fst (cold opts i)) = cold_off opts i" "unat (snd (cold opts i)) = cold_off opts i + half_nat opts"
  using slot_ranges(1-4) [OF assms] by (simp_all add: hot_off_def cold_off_def)

lemma ranges_in_slot:
  assumes "i < unat (soak_vcpus opts)" "paged_slots opts"
  shows "in_slot opts i (fst (hot opts i)) (snd (hot opts i))" "in_slot opts i (fst (cold opts i)) (snd (cold opts i))"
proof -
  have "0 < half_nat opts" using half_pages [OF assms(2)] by (simp add: PAGE_def)
  moreover have "PAGE dvd hot_off opts i" "PAGE dvd cold_off opts i"
    using assms(2) half_bound(2) [of "slot_size opts"] by (simp_all add: hot_off_def cold_off_def paged_slots_def)
  ultimately show "in_slot opts i (fst (hot opts i)) (snd (hot opts i))" "in_slot opts i (fst (cold opts i)) (snd (cold opts i))"
    using half_bound(2) [of "slot_size opts"] by (simp_all add: in_slot_def ranges_nat [OF assms(1)] word_less_nat_alt cold_hot)
qed

definition is_mapped :: "'x hv_view \<Rightarrow> nat \<Rightarrow> usize \<times> usize \<Rightarrow> 'x world \<Rightarrow> bool" where
  "is_mapped V ram rng w \<longleftrightarrow> mapped_ram V ram (unat (fst rng)) (unat (snd rng)) w"

definition is_filled :: "nat \<Rightarrow> usize \<times> usize \<Rightarrow> u64 \<Rightarrow> 'x world \<Rightarrow> bool" where
  "is_filled ram rng v w \<longleftrightarrow> holds ram (fst rng) (snd rng) v w"

fun hot_round :: "point \<Rightarrow> nat" where
  "hot_round (HotSweep n) = n"
| "hot_round (HotVerify n) = n"
| "hot_round p = 0"

definition worker_ok :: "'x kernel \<Rightarrow> 'x hv_view \<Rightarrow> nat \<Rightarrow> options \<Rightarrow> nat \<Rightarrow> worker \<Rightarrow> 'x world \<Rightarrow> bool" where
  "worker_ok K V ram opts i wk w \<longleftrightarrow> vcpu_contract K V (w_vcpu wk) \<and> hot_round (w_point wk) < HOT_SWEEPS_PER_CYCLE
     \<and> is_mapped V ram (hot opts i) w \<and> is_filled ram (hot opts i) (hot_sweeps wk) w
     \<and> (w_point wk \<notin> {ColdRelease, ColdRemap} \<longrightarrow> is_mapped V ram (cold opts i) w)
     \<and> (w_point wk \<in> {ColdVerify, ColdSleep, ColdRecheck} \<longrightarrow> is_filled ram (cold opts i) (stamp (of_nat i) (w_cycle wk)) w)"

definition phase_ok :: "'x kernel \<Rightarrow> 'x hv_view \<Rightarrow> nat \<Rightarrow> options \<Rightarrow> nat \<Rightarrow> phase \<Rightarrow> 'x world \<Rightarrow> bool" where
  "phase_ok K V ram opts i p w \<longleftrightarrow> (case p of
       Fresh \<Rightarrow> is_mapped V ram (hot opts i) w \<and> is_mapped V ram (cold opts i) w \<and> is_filled ram (hot opts i) 0 w
     | Running wk \<Rightarrow> worker_ok K V ram opts i wk w
     | _ \<Rightarrow> True)"

text \<open>It is stable under what the other workers do.\<close>

lemma others_mapped:
  assumes t: "touches V ram opts j w w'" and ne: "i \<noteq> j" and ij: "i < unat (soak_vcpus opts)" "j < unat (soak_vcpus opts)"
    and vm: "soak_vm V code ram opts w"
  shows "is_mapped V ram (hot opts i) w' = is_mapped V ram (hot opts i) w" "is_mapped V ram (cold opts i) w' = is_mapped V ram (cold opts i) w"
  using slots_apart [OF ne, of opts] slot_bounds(1) [OF ij(1)] unfolding is_mapped_def ranges_nat [OF ij(1)]
  by (intro touches_mapped [OF t ij(2) vm]; auto simp: cold_hot)+

lemma others_filled:
  assumes t: "touches V ram opts j w w'" and ne: "i \<noteq> j" and i: "i < unat (soak_vcpus opts)" and p: "paged_slots opts"
  shows "is_filled ram (hot opts i) v w' = is_filled ram (hot opts i) v w" "is_filled ram (cold opts i) v w' = is_filled ram (cold opts i) v w"
proof -
  have d: "differs_in (ram + hot_off opts j) (2 * half_nat opts) (wmem w) (wmem w')" using t by (simp add: touches_def)
  show "is_filled ram (hot opts i) v w' = is_filled ram (hot opts i) v w" "is_filled ram (cold opts i) v w' = is_filled ram (cold opts i) v w"
    using slots_apart [OF ne, of opts] half_bound(2) [of "slot_size opts"] unfolding is_filled_def ranges_nat [OF i]
    by (intro differs_pages [OF d]; auto simp: cold_hot)+
qed

lemma phase_stable:
  assumes "touches V ram opts j w w'" "i \<noteq> j" "i < unat (soak_vcpus opts)" "j < unat (soak_vcpus opts)"
    and "soak_vm V code ram opts w" "paged_slots opts"
  shows "phase_ok K V ram opts i p w' = phase_ok K V ram opts i p w"
  using others_mapped [OF assms(1-5)] others_filled [OF assms(1,2,3,6)]
  by (auto simp: phase_ok_def worker_ok_def split: phase.split)

lemma phase_still: "still V w w' \<Longrightarrow> phase_ok K V ram opts i p w' = phase_ok K V ram opts i p w"
  by (auto simp: phase_ok_def worker_ok_def still_def is_mapped_def is_filled_def mapped_ram_def pages_hold_def split: phase.split)

section \<open>One operation\<close>

lemma range_ready:
  assumes "in_slot opts i (fst rng) (snd rng)" "is_mapped V ram rng w" "soak_vm V code ram opts w" "i < unat (soak_vcpus opts)"
    and "vcpu_contract K V v" "v_cancels V (ext w) < fuel"
  shows "pass_ready K V code ram opts fuel i v (fst rng) (snd rng) w"
proof -
  have b: "unat (snd rng) \<le> ram_bytes opts" using assms(1) slot_bounds(1) [OF assms(4)] by (simp add: in_slot_def)
  have "8 dvd unat (snd rng)" using assms(1) by (auto simp: in_slot_def PAGE_def intro: dvd_trans [of 8 16384])
  then have "guest_window (unat (fst rng)) ram (unat (snd rng)) code (v_s2 V (ext w)) (wmem w)"
    using window_of [OF assms(3) assms(2) [unfolded is_mapped_def] b] by simp
  then show ?thesis using assms by (simp add: pass_ready_def window_pre_def good_range_def in_slot_def)
qed

text \<open>A change inside one range of a slot leaves the other range, and the mappings.\<close>

lemma inside_mapped: "inside V ram a b w w' \<Longrightarrow> is_mapped V ram rng w' = is_mapped V ram rng w"
  by (simp add: inside_def is_mapped_def mapped_ram_def)

lemma inside_other:
  assumes "i < unat (soak_vcpus opts)"
  shows "inside V ram (fst (hot opts i)) (snd (hot opts i)) w w' \<Longrightarrow> is_filled ram (cold opts i) v w' = is_filled ram (cold opts i) v w"
    and "inside V ram (fst (cold opts i)) (snd (cold opts i)) w w' \<Longrightarrow> is_filled ram (hot opts i) v w' = is_filled ram (hot opts i) v w"
proof -
  have h: "PAGE dvd half_nat opts" using half_bound(2) .
  show "is_filled ram (cold opts i) v w' = is_filled ram (cold opts i) v w" if "inside V ram (fst (hot opts i)) (snd (hot opts i)) w w'"
    unfolding is_filled_def ranges_nat [OF assms]
    by (rule differs_pages [of "ram + hot_off opts i" "half_nat opts"])
      (use that h in \<open>simp_all add: inside_def ranges_nat [OF assms] cold_hot\<close>)
  show "is_filled ram (hot opts i) v w' = is_filled ram (hot opts i) v w" if "inside V ram (fst (cold opts i)) (snd (cold opts i)) w w'"
    unfolding is_filled_def ranges_nat [OF assms]
    by (rule differs_pages [of "ram + cold_off opts i" "half_nat opts"])
      (use that h in \<open>simp_all add: inside_def ranges_nat [OF assms] cold_hot\<close>)
qed

text \<open>The three steps of a reclaim.\<close>

lemma unmap_ends:
  assumes "faithful_host K V clk" "i < unat (soak_vcpus opts)"
  shows "ends (cold_unmap K (cold opts i)) w (\<lambda>r w'. touches V ram opts i w w' \<and> wmem w' = wmem w \<and> (succeeds K opts \<longrightarrow> r = Some ()))"
proof -
  note C = cold_extent [OF assms(2)]
  have "touches V ram opts i w w' \<and> wmem w' = wmem w \<and> (succeeds K opts \<longrightarrow> rc p = 0)" if "sys K (HvVmUnmap (cold_gpa opts i) (half_of opts)) w = (Ok p, w')" for p w'
    using call_unmap [OF assms(1) that] call_succeeds(1) [OF _ that, of opts] by (auto simp: touches_def differs_in_def s2_unmap_def)
  then show ?thesis unfolding cold_unmap_def unmap_range_def check_sys_def C(1) unfolding C(2) ends_bind by (intro ends_sys) auto
qed

lemma remap_ends:
  assumes "faithful_host K V clk" "i < unat (soak_vcpus opts)" "soak_vm V code ram opts w"
  shows "ends (cold_remap K ram (cold opts i)) w
    (\<lambda>r w'. touches V ram opts i w w' \<and> wmem w' = wmem w \<and> (r = Some () \<longrightarrow> is_mapped V ram (cold opts i) w') \<and> (succeeds K opts \<longrightarrow> r = Some ()))"
proof -
  note C = cold_extent [OF assms(2)]
  have m: "mapped_ram V ram (cold_off opts i) (cold_off opts i + half_nat opts) w'"
    if "v_s2 V (ext w') = s2_map (ram + cold_off opts i) (cold_gpa opts i) (half_of opts) RW s" for w' s
    unfolding mapped_ram_def
  proof (intro allI impI)
    fix off assume o: "cold_off opts i \<le> off" "off < cold_off opts i + half_nat opts"
    then have e: "RAM_GPA + of_nat off - cold_gpa opts i = of_nat (off - cold_off opts i)" by (simp add: of_nat_diff)
    have "unat (of_nat (off - cold_off opts i) :: u64) = off - cold_off opts i"
      using o unat_lt64 [of "half_of opts"] by (intro unat_of_nat64) simp
    moreover have "off - cold_off opts i < half_nat opts" using o by simp
    ultimately show "v_s2 V (ext w') (RAM_GPA + of_nat off) = Some (ram + off, RW)"
      using o(1) unfolding that s2_map_def e by (simp add: word_less_nat_alt del: of_nat_diff)
  qed
  have "touches V ram opts i w w' \<and> wmem w' = wmem w \<and> (rc p = 0 \<longrightarrow> is_mapped V ram (cold opts i) w') \<and> (succeeds K opts \<longrightarrow> rc p = 0)"
    if "sys K (HvVmMap (ram + cold_off opts i) (cold_gpa opts i) (half_of opts) RW) w = (Ok p, w')" for p w'
    using call_map [OF assms(1) that] call_succeeds(1) [OF _ that, of opts] m [of w'] unfolding is_mapped_def ranges_nat [OF assms(2)]
    by (auto simp: touches_def differs_in_def s2_map_def)
  then show ?thesis unfolding cold_remap_def map_rw_def check_sys_def C(1,3) RW_def [symmetric] unfolding C(2) ends_bind
    by (intro ends_sys) auto
qed

lemma release_ends:
  assumes "faithful_host K V clk" "i < unat (soak_vcpus opts)"
  shows "ends (cold_release K ram (cold opts i) (reclaim_mode opts) adv) w (\<lambda>r w'. inside V ram (fst (cold opts i)) (snd (cold opts i)) w w' \<and> (succeeds K opts \<longrightarrow> r = Some ()))"
proof -
  note C = cold_extent [OF assms(2)]
  let ?in = "inside V ram (fst (cold opts i)) (snd (cold opts i))" and ?h = "ram + cold_off opts i"
  have one: "?in w w'" if "sys K c w = (Ok p, w')"
    "c = Madvise ?h (half_of opts) adv \<or> c = Munmap ?h (half_of opts) \<or> c = Mmap ?h (half_of opts) fl \<and> MAP_FIXED \<in> set fl" for c p w w' adv fl
    using call_release [OF assms(1) that] by (simp add: inside_def ranges_nat [OF assms(2)])
  have ad: "?in w w'" if "sys K (Madvise ?h (half_of opts) adv) w = (Ok p, w')" for p w w'
    by (rule one [OF that]) simp
  have un: "?in w w'" if "sys K (Munmap ?h (half_of opts)) w = (Ok p, w')" for p w w'
    by (rule one [OF that]) simp
  have mm: "?in w w'" if "sys K (Mmap ?h (half_of opts) [MAP_ANON, MAP_PRIVATE, MAP_FIXED]) w = (Ok p, w')" for p w w'
    by (rule one [OF that]) auto
  have "?in w w''" if "sys K (Munmap ?h (half_of opts)) w = (Ok p, w')"
    "sys K (Mmap ?h (half_of opts) [MAP_ANON, MAP_PRIVATE, MAP_FIXED]) w' = (Ok q, w'')" for p q w' w''
    using un [OF that(1)] mm [OF that(2)] by (simp add: inside_def differs_in_def)
  moreover have "rc p = 0" if "succeeds K opts" "sys K (Munmap ?h (half_of opts)) w = (Ok p, w')" for p w w'
    using call_succeeds(1) [OF that] by simp
  moreover have "rc p = 0" if "succeeds K opts" "sys K (Madvise ?h (half_of opts) adv) w = (Ok p, w')" for p w w'
    using call_succeeds(1) [OF that] by simp
  moreover have "unat (rv p) = ?h" if "succeeds K opts" "reclaim_mode opts = MunmapMode"
    "sys K (Mmap ?h (half_of opts) [MAP_ANON, MAP_PRIVATE, MAP_FIXED]) w = (Ok p, w')" for p w w'
    using call_succeeds(2) [OF that(1,3,2) refl] by simp
  ultimately show ?thesis unfolding cold_release_def C(1,3) using ad un
    by (cases "reclaim_mode opts") (auto simp: release_def advise_def intro!: ends_sys)
qed

lemma ledger_ends:
  assumes "faithful_host K V clk"
  shows "ends (ledger_read K) w (\<lambda>r w'. r \<noteq> None \<and> still V w w')"
proof -
  obtain p w' where s: "sys K (TaskInfo TASK_VM_INFO task_vm_info_words) w = (Ok p, w')" using sys_total by blast
  have "rc p = 0 \<and> ucast (rv p) = task_vm_info_words" by (rule call_progress(5) [OF assms s]) simp
  then show ?thesis
    using call_still [OF assms s] s by (simp add: ledger_read_def ends_def bind_io_def then_io_def assert_io_def ret_def Let_def)
qed

text \<open>What one operation of a worker does: nothing outside its slot, and if it returns, the next point's assertion.\<close>

definition op_post :: "'x kernel \<Rightarrow> 'x hv_view \<Rightarrow> ('x \<Rightarrow> nat) \<Rightarrow> nat \<Rightarrow> options \<Rightarrow> nat \<Rightarrow> worker \<Rightarrow> stats \<Rightarrow> 'x world
    \<Rightarrow> (worker \<times> stats) option \<Rightarrow> 'x world \<Rightarrow> bool" where
  "op_post K V clk ram opts i wk st w r w' \<longleftrightarrow> touches V ram opts i w w' \<and> (succeeds K opts \<longrightarrow> r \<noteq> None) \<and> (\<forall>wk' st'. r = Some (wk', st') \<longrightarrow>
     worker_ok K V ram opts i (wk'\<lparr>w_point := next_point (w_point wk)\<rparr>) w' \<and> mismatches st' = mismatches st
     \<and> (w_point wk = ColdSleep \<longrightarrow> clk (ext w) + 250000000 \<le> clk (ext w')))"

lemma count_check_clean [simp]: "mismatches (count_check half 0 st) = mismatches st" "mismatches (add_sweep st) = mismatches st"
  by (simp_all add: count_check_def add_sweep_def)

lemma still_post:
  assumes "still V w w'" "worker_ok K V ram opts i (wk'\<lparr>w_point := next_point (w_point wk)\<rparr>) w" "mismatches st' = mismatches st"
    and "w_point wk = ColdSleep \<Longrightarrow> clk (ext w) + 250000000 \<le> clk (ext w')"
  shows "op_post K V clk ram opts i wk st w (Some (wk', st')) w'"
  using assms touches_still [OF assms(1)] phase_still [OF assms(1), of K ram opts i "Running (wk'\<lparr>w_point := next_point (w_point wk)\<rparr>)"]
  by (simp add: op_post_def phase_ok_def)

definition op_pre :: "'x kernel \<Rightarrow> 'x hv_view \<Rightarrow> ('x \<Rightarrow> nat) \<Rightarrow> nat \<Rightarrow> nat \<Rightarrow> options \<Rightarrow> nat \<Rightarrow> nat \<Rightarrow> worker \<Rightarrow> 'x world \<Rightarrow> bool" where
  "op_pre K V clk code ram opts fuel i wk w \<longleftrightarrow> faithful_host K V clk \<and> i < unat (soak_vcpus opts) \<and> paged_slots opts
     \<and> soak_vm V code ram opts w \<and> worker_ok K V ram opts i wk w \<and> v_cancels V (ext w) < fuel"

lemma op_ready:
  assumes "op_pre K V clk code ram opts fuel i wk w"
  shows "pass_ready K V code ram opts fuel i (w_vcpu wk) (fst (hot opts i)) (snd (hot opts i)) w"
    and "w_point wk \<notin> {ColdRelease, ColdRemap} \<Longrightarrow> pass_ready K V code ram opts fuel i (w_vcpu wk) (fst (cold opts i)) (snd (cold opts i)) w"
  using assms ranges_in_slot by (auto simp: op_pre_def worker_ok_def intro!: range_ready)

lemma hot_op_ends:
  assumes P: "op_pre K V clk code ram opts fuel i wk w" and pt: "w_point wk = HotSweep n \<or> w_point wk = HotVerify n"
  shows "ends (worker_op fuel K (of_nat i) (slot_size opts) (half_of opts) ram (reclaim_mode opts) adv wk st) w (op_post K V clk ram opts i wk st w)"
proof -
  have i: "i < unat (soak_vcpus opts)" and ok: "worker_ok K V ram opts i wk w" and S: "in_slot opts i (fst (hot opts i)) (snd (hot opts i))"
    using P ranges_in_slot by (auto simp: op_pre_def)
  then have hf: "holds ram (fst (hot opts i)) (snd (hot opts i)) (hot_sweeps wk) w" by (simp add: worker_ok_def is_filled_def)
  note r = op_ready(1) [OF P]
  show ?thesis
    using pt
  proof
    assume n: "w_point wk = HotSweep n"
    show ?thesis unfolding worker_op_def Let_def op_post_def n point.case ends_then
      by (rule ends_mono [OF sweep_ends [OF r]])
        (use ok n inside_touches [OF S] inside_mapped [of V ram "fst (hot opts i)" "snd (hot opts i)" w] inside_other(1) [OF i, of V ram w] in \<open>auto simp: worker_ok_def is_filled_def\<close>)
  next
    assume n: "w_point wk = HotVerify n"
    have "worker_ok K V ram opts i (wk\<lparr>w_point := next_point (w_point wk)\<rparr>) w" using ok n by (auto simp: worker_ok_def)
    then show ?thesis unfolding worker_op_def Let_def n point.case ends_bind
      by (intro ends_mono [OF verify_ends [OF r hf]]) (use n in \<open>auto intro: still_post\<close>)
  qed
qed

lemma cold_pass_ends:
  assumes P: "op_pre K V clk code ram opts fuel i wk w" and pt: "w_point wk \<in> {ColdSweep, ColdFill, ColdVerify, ColdRecheck}"
  shows "ends (worker_op fuel K (of_nat i) (slot_size opts) (half_of opts) ram (reclaim_mode opts) adv wk st) w (op_post K V clk ram opts i wk st w)"
proof -
  have i: "i < unat (soak_vcpus opts)" and ok: "worker_ok K V ram opts i wk w" and S: "in_slot opts i (fst (cold opts i)) (snd (cold opts i))"
    using P ranges_in_slot by (auto simp: op_pre_def)
  have r: "pass_ready K V code ram opts fuel i (w_vcpu wk) (fst (cold opts i)) (snd (cold opts i)) w" using op_ready(2) [OF P] pt by auto
  note U = worker_op_def Let_def op_post_def
  have v: "ends (worker_op fuel K (of_nat i) (slot_size opts) (half_of opts) ram (reclaim_mode opts) adv wk st) w (op_post K V clk ram opts i wk st w)"
    if c: "w_point wk \<in> {ColdVerify, ColdRecheck}"
  proof -
    have "holds ram (fst (cold opts i)) (snd (cold opts i)) (stamp (of_nat i) (w_cycle wk)) w"
      using ok c by (auto simp: worker_ok_def is_filled_def)
    note v = verify_ends [OF r this]
    have "worker_ok K V ram opts i (wk\<lparr>w_point := next_point (w_point wk)\<rparr>) w"
      using ok c by (auto simp: worker_ok_def HOT_SWEEPS_PER_CYCLE_def)
    then have "ends (run_verify_range fuel K (w_vcpu wk) (fst (cold opts i)) (snd (cold opts i)) (stamp (of_nat i) (w_cycle wk))) w
        (\<lambda>r w'. case r of Some bad \<Rightarrow> ends (ret (wk, count_check (half_of opts) bad st)) w' (op_post K V clk ram opts i wk st w)
           | None \<Rightarrow> op_post K V clk ram opts i wk st w None w')"
      by (intro ends_mono [OF v]) (use c in \<open>auto intro: still_post\<close>)
    then show ?thesis using c by (auto simp: worker_op_def Let_def)
  qed
  show ?thesis
  proof (cases "w_point wk \<in> {ColdVerify, ColdRecheck}")
    case False
    then consider "w_point wk = ColdSweep" | "w_point wk = ColdFill" using pt by auto
    then show ?thesis
    proof cases
      case 1
      show ?thesis unfolding U 1 point.case ends_then
        by (rule ends_mono [OF sweep_ends [OF r]])
          (use ok 1 inside_touches [OF S] inside_mapped [of V ram "fst (cold opts i)" "snd (cold opts i)" w] inside_other(2) [OF i, of V ram w] in \<open>auto simp: worker_ok_def\<close>)
    next
      case 2
      show ?thesis unfolding U 2 point.case ends_then
        by (rule ends_mono [OF fill_ends [OF r]])
          (use ok 2 inside_touches [OF S] inside_mapped [of V ram "fst (cold opts i)" "snd (cold opts i)" w] inside_other(2) [OF i, of V ram w] in \<open>auto simp: worker_ok_def is_filled_def\<close>)
    qed
  qed (rule v)
qed

lemma reclaim_op_ends:
  assumes P: "op_pre K V clk code ram opts fuel i wk w" and pt: "w_point wk \<in> {ColdUnmap, ColdRelease, ColdRemap}"
  shows "ends (worker_op fuel K (of_nat i) (slot_size opts) (half_of opts) ram (reclaim_mode opts) adv wk st) w (op_post K V clk ram opts i wk st w)"
proof -
  have H: "faithful_host K V clk" and i: "i < unat (soak_vcpus opts)" and ok: "worker_ok K V ram opts i wk w"
    and vm: "soak_vm V code ram opts w" and S: "in_slot opts i (fst (cold opts i)) (snd (cold opts i))"
    using P ranges_in_slot by (auto simp: op_pre_def)
  have hot_kept: "is_mapped V ram (hot opts i) w' = is_mapped V ram (hot opts i) w" if "touches V ram opts i w w'" for w'
    unfolding is_mapped_def ranges_nat [OF i] by (rule touches_mapped [OF that i vm]) (use slot_bounds(1) [OF i] in \<open>simp_all add: cold_hot\<close>)
  have mem_kept: "is_filled ram (hot opts i) v w' = is_filled ram (hot opts i) v w" if "wmem w' = wmem w" for v w'
    using that by (simp add: is_filled_def pages_hold_def)
  consider "w_point wk = ColdUnmap" | "w_point wk = ColdRelease" | "w_point wk = ColdRemap" using pt by blast
  then show ?thesis
  proof cases
    case 1
    show ?thesis unfolding worker_op_def Let_def op_post_def 1 point.case ends_then
      by (rule ends_mono [OF unmap_ends [OF H i, where ram = ram]])
        (use ok 1 hot_kept mem_kept in \<open>auto simp: worker_ok_def split: option.split\<close>)
  next
    case 2
    show ?thesis unfolding worker_op_def Let_def op_post_def 2 point.case ends_then
      by (rule ends_mono [OF release_ends [OF H i]])
        (use ok 2 inside_touches [OF S] inside_mapped [of V ram "fst (cold opts i)" "snd (cold opts i)" w] inside_other(2) [OF i, of V ram w]
          in \<open>auto simp: worker_ok_def split: option.split\<close>)
  next
    case 3
    show ?thesis unfolding worker_op_def Let_def op_post_def 3 point.case ends_then
      by (rule ends_mono [OF remap_ends [OF H i vm]])
        (use ok 3 hot_kept mem_kept in \<open>auto simp: worker_ok_def split: option.split\<close>)
  qed
qed

lemma quiet_op_ends:
  assumes P: "op_pre K V clk code ram opts fuel i wk w" and pt: "w_point wk \<in> {ColdBefore, ColdAfter, ColdSleep}"
  shows "ends (worker_op fuel K (of_nat i) (slot_size opts) (half_of opts) ram (reclaim_mode opts) adv wk st) w (op_post K V clk ram opts i wk st w)"
proof -
  have H: "faithful_host K V clk" and ok: "worker_ok K V ram opts i wk w" using P by (auto simp: op_pre_def)
  have nx: "worker_ok K V ram opts i (wk\<lparr>w_before := b, w_point := next_point (w_point wk)\<rparr>) w"
    "worker_ok K V ram opts i (wk\<lparr>w_point := next_point (w_point wk)\<rparr>) w" for b
    using ok pt by (auto simp: worker_ok_def)
  consider "w_point wk = ColdBefore" | "w_point wk = ColdAfter" | "w_point wk = ColdSleep" using pt by blast
  then show ?thesis
  proof cases
    case 1
    show ?thesis unfolding worker_op_def Let_def 1 point.case ends_bind
      by (rule ends_mono [OF ledger_ends [OF H]]) (use 1 nx in \<open>auto intro!: still_post\<close>)
  next
    case 2
    show ?thesis unfolding worker_op_def Let_def 2 point.case ends_bind
      by (rule ends_mono [OF ledger_ends [OF H]]) (use 2 nx in \<open>auto intro!: still_post\<close>)
  next
    case 3
    have "op_post K V clk ram opts i wk st w (Some (wk, st)) w'" if s: "sys K (Sleep 250) w = (Ok p, w')" for p w'
      by (rule still_post [OF call_still [OF H s] nx(2)]) (use call_progress(3) [OF H s, of 250] in simp_all)
    then show ?thesis unfolding worker_op_def Let_def 3 point.case sys_ignore_def ends_bind ends_then by (intro ends_sys) simp
  qed
qed

lemma worker_op_ends:
  assumes "op_pre K V clk code ram opts fuel i wk w"
  shows "ends (worker_op fuel K (of_nat i) (slot_size opts) (half_of opts) ram (reclaim_mode opts) adv wk st) w (op_post K V clk ram opts i wk st w)"
  using hot_op_ends [OF assms] cold_pass_ends [OF assms] reclaim_op_ends [OF assms] quiet_op_ends [OF assms]
  by (cases "w_point wk") simp_all

section \<open>The set-up\<close>

lemma self_test_ends:
  assumes R: "pass_ready K V code ram opts fuel i v a b w" and "holds ram a b x w" "unat a + PAGE < unat b"
  shows "ends (detector_self_test fuel K v ram (a, b) x) w (\<lambda>r w'. r = Some () \<and> still V w w')"
proof -
  have W: "window_pre K V v (unat a) ram (unat b) code fuel a b w" using R by (simp add: pass_ready_def)
  obtain w' where "detector_self_test fuel K v ram (a, b) x w = (Ok (), w')" "still V w w'"
    using detector_self_test_ok [OF W assms(3), of x] assms(2) unfolding pages_hold_def still_def by blast
  then show ?thesis by (intro ends_Ok [where a = "()" and w' = w']) auto
qed

definition setup_post :: "'x kernel \<Rightarrow> 'x hv_view \<Rightarrow> nat \<Rightarrow> options \<Rightarrow> nat \<Rightarrow> 'x world \<Rightarrow> worker option \<Rightarrow> 'x world \<Rightarrow> bool" where
  "setup_post K V ram opts i w r w' \<longleftrightarrow> touches V ram opts i w w' \<and> (succeeds K opts \<longrightarrow> r \<noteq> None)
     \<and> (\<forall>wk. r = Some wk \<longrightarrow> worker_ok K V ram opts i wk w' \<and> w_point wk = HotSweep 0)"

text \<open>The first sweep takes the fresh pages of the hot range from zero to one, which the self-test expects.\<close>

lemma first_sweep_ends:
  assumes i: "i < unat (soak_vcpus opts)" and p: "paged_slots opts" and vm: "soak_vm V code ram opts w" and C: "vcpu_contract K V v"
    and ok: "phase_ok K V ram opts i Fresh w" and F: "v_cancels V (ext w) < fuel"
    and H: "faithful_host K V clk"
  shows "ends (then_io (run_sweep_range fuel K v (fst (hot opts i)) (snd (hot opts i)))
      (then_io (when_io b (detector_self_test fuel K v ram (hot opts i) 1))
         (ret \<lparr>w_vcpu = v, hot_sweeps = 1, w_cycle = 0, w_before = 0, w_point = HotSweep 0\<rparr>))) w (setup_post K V ram opts i w)"
proof -
  note S = ranges_in_slot(1) [OF i p]
  let ?r = "hot opts i" and ?wk = "\<lparr>w_vcpu = v, hot_sweeps = 1, w_cycle = 0, w_before = 0, w_point = HotSweep 0\<rparr>"
  have m: "is_mapped V ram ?r w" "is_mapped V ram (cold opts i) w" and z: "holds ram (fst ?r) (snd ?r) 0 w"
    using ok by (simp_all add: phase_ok_def is_filled_def)
  have big: "unat (fst ?r) + PAGE < unat (snd ?r)" using half_pages [OF p] by (simp add: ranges_nat [OF i] cold_hot PAGE_def)
  have post: "setup_post K V ram opts i w (Some ?wk) w2"
    if "inside V ram (fst ?r) (snd ?r) w w1" "holds ram (fst ?r) (snd ?r) 1 w1" "still V w1 w2" for w1 w2
  proof -
    have "worker_ok K V ram opts i ?wk w1"
      using that(2) C m inside_mapped [OF that(1)] by (simp add: worker_ok_def is_filled_def HOT_SWEEPS_PER_CYCLE_def)
    then show ?thesis
      using touches_trans [OF inside_touches [OF S that(1)] touches_still [OF that(3)]] phase_still [OF that(3), of K ram opts i "Running ?wk"]
      by (simp add: setup_post_def phase_ok_def)
  qed
  have test: "ends (detector_self_test fuel K v ram ?r 1) w1 (\<lambda>r w2. r = Some () \<and> still V w1 w2)"
    if "inside V ram (fst ?r) (snd ?r) w w1" "holds ram (fst ?r) (snd ?r) 1 w1" "v_cancels V (ext w1) \<le> v_cancels V (ext w)" for w1
  proof -
    have "pass_ready K V code ram opts fuel i v (fst ?r) (snd ?r) w1"
      by (rule range_ready [OF S _ touches_vm [OF inside_touches [OF S that(1)] i vm] i C])
        (use m inside_mapped [OF that(1)] that(3) F in simp_all)
    from self_test_ends [OF this that(2) big] show ?thesis by simp
  qed
  have tail: "ends (then_io (when_io b (detector_self_test fuel K v ram ?r 1)) (ret ?wk)) w1 (setup_post K V ram opts i w)"
    if "inside V ram (fst ?r) (snd ?r) w w1" "holds ram (fst ?r) (snd ?r) 1 w1" "v_cancels V (ext w1) \<le> v_cancels V (ext w)" for w1
    unfolding ends_then ends_when
    using post [OF that(1,2)] by (auto intro!: ends_mono [OF test [OF that]])
  have u: "uses K (run_sweep_range fuel K v (fst ?r) (snd ?r))" by (intro uses_intros)
  show ?thesis
    unfolding ends_then [where f = "run_sweep_range fuel K v (fst ?r) (snd ?r)"]
    by (rule ends_mono [OF ends_uses [OF H u sweep_ends [OF range_ready [OF S m(1) vm i C F]]]])
      (use z tail in \<open>fastforce split: option.split\<close>)
qed

lemma setup_ends:
  assumes H: "faithful_host K V clk" and i: "i < unat (soak_vcpus opts)" and p: "paged_slots opts" and vm: "soak_vm V code ram opts w"
    and ok: "phase_ok K V ram opts i Fresh w" and F: "v_cancels V (ext w) < fuel"
  shows "ends (worker_setup fuel K (of_nat i) (slot_size opts) (half_of opts) ram) w (setup_post K V ram opts i w)"
proof -
  obtain p w1 where s: "sys K HvVcpuCreate w = (Ok p, w1)" using sys_total by blast
  have st: "still V w w1" by (rule call_still [OF H s]) simp_all
  have e: "ends (sys K HvVcpuCreate) w Q = Q (Some p) w1" for Q using s by (simp add: ends_def)
  show ?thesis
  proof (cases "rc p = 0")
    case True
    have C: "vcpu_contract K V (rv p)" by (rule call_progress(6) [OF H s _ True]) simp
    obtain w2 where w2: "write_reg K (rv p) HV_REG_CPSR PSTATE_EL1H_MASKED ''set CPSR'' w1 = (Ok (), w2)" "wmem w2 = wmem w1"
      "v_s2 V (ext w2) = v_s2 V (ext w1)" "v_cancels V (ext w2) = v_cancels V (ext w1)"
      using write_reg_ok [OF C, of HV_REG_CPSR PSTATE_EL1H_MASKED "''set CPSR''" w1] by blast
    have r: "ends (write_reg K (rv p) HV_REG_CPSR PSTATE_EL1H_MASKED ''set CPSR'') w1 Q = Q (Some ()) w2" for Q using w2(1) by (simp add: ends_def)
    have st2: "still V w w2" using st w2 by (simp add: still_def)
    have vm2: "soak_vm V code ram opts w2" using vm st2 by (simp add: still_def)
    have F2: "v_cancels V (ext w2) < fuel" using F w2(4) call_progress(1) [OF H s] by simp
    have "setup_post K V ram opts i w r w'" if "setup_post K V ram opts i w2 r w'" for r w'
      using that touches_trans [OF touches_still [OF st2]] by (auto simp: setup_post_def)
    then show ?thesis
      unfolding worker_setup_def Let_def ends_bind e option.case ends_then [where f = "check _ _"] ends_check if_P [OF True]
        ends_then [where f = "write_reg _ _ _ _ _"] r
      by (intro ends_mono [OF first_sweep_ends [OF i p vm2 C _ F2 H]]) (use ok phase_still [OF st2] in auto)
  next
    case False
    then show ?thesis
      unfolding worker_setup_def Let_def ends_bind e using touches_still [OF st] call_succeeds(1) [OF _ s, of opts] by (auto simp: setup_post_def)
  qed
qed

end
