(* ===== verification/Soak_Account.thy ===== *)
theory Soak_Account
  imports Soak
begin

text \<open>
  The soak's counters, on any host and under any schedule: what a worker has added to the counters
  since its last reclaim depends only on the point it is at, so that the totals of a run in which
  every worker reached its end are multiples of the number of reclaims.
\<close>

section \<open>What a point owes\<close>

fun checks_ahead :: "point \<Rightarrow> u64" where
  "checks_ahead (HotSweep n) = of_nat n"
| "checks_ahead (HotVerify n) = of_nat n"
| "checks_ahead ColdFill = -2"
| "checks_ahead ColdVerify = -2"
| "checks_ahead ColdSleep = -1"
| "checks_ahead ColdRecheck = -1"
| "checks_ahead _ = 4"

fun sweeps_ahead :: "point \<Rightarrow> u64" where
  "sweeps_ahead (HotSweep n) = of_nat n"
| "sweeps_ahead (HotVerify n) = of_nat n + 1"
| "sweeps_ahead ColdSweep = 4"
| "sweeps_ahead p = (if p \<in> {ColdFill, ColdVerify, ColdSleep, ColdRecheck} then 0 else 5)"

definition ahead :: "(point \<Rightarrow> u64) \<Rightarrow> phase \<Rightarrow> u64" where
  "ahead f p = (case p of Running wk \<Rightarrow> f (w_point wk) | _ \<Rightarrow> 0)"

fun early_round :: "phase \<Rightarrow> bool" where
  "early_round (Running wk) = (case w_point wk of HotSweep n \<Rightarrow> n < HOT_SWEEPS_PER_CYCLE | HotVerify n \<Rightarrow> n < HOT_SWEEPS_PER_CYCLE | _ \<Rightarrow> True)"
| "early_round _ = True"

definition balanced :: "u64 \<Rightarrow> soak_state \<Rightarrow> bool" where
  "balanced per_check s \<longleftrightarrow> Died \<in> set (threads s) \<or>
     list_all early_round (threads s) \<and>
     page_checks (s_stats s) = per_check * (6 * reclaims (s_stats s) + sum_list (map (ahead checks_ahead) (threads s))) \<and>
     st_sweeps (s_stats s) = 5 * reclaims (s_stats s) + sum_list (map (ahead sweeps_ahead) (threads s)) \<and>
     reclaims (s_stats s) = of_nat (length (reclaimed_mib (s_stats s)))"

lemma sum_ahead_update:
  "i < length ts \<Longrightarrow> sum_list (map (ahead f) (ts[i := p])) = sum_list (map (ahead f) ts) + ahead f p - ahead f (ts ! i)"
  by (induction ts arbitrary: i) (auto split: nat.split)

section \<open>One operation\<close>

lemma worker_op_counts:
  assumes "worker_op fuel K k slot half ram mode adv wk st w = (Ok (wk', st'), w')" "early_round (Running wk)"
  defines "next \<equiv> next_point (w_point wk)"
  shows "page_checks st' = page_checks st + (half div of_nat PAGE) * (6 * (reclaims st' - reclaims st) + checks_ahead next - checks_ahead (w_point wk))"
    and "st_sweeps st' = st_sweeps st + 5 * (reclaims st' - reclaims st) + sweeps_ahead next - sweeps_ahead (w_point wk)"
    and "reclaims st' - reclaims st = of_nat (length (reclaimed_mib st')) - of_nat (length (reclaimed_mib st))"
    and "early_round (Running (wk'\<lparr>w_point := next\<rparr>))"
  using assms
  by (cases "w_point wk";
      force simp: worker_op_def Let_def bind_io_eq_Ok_iff then_io_eq_Ok_iff count_check_def add_sweep_def HOT_SWEEPS_PER_CYCLE_def less_Suc_eq numeral_eq_Suc)+

section \<open>One turn\<close>

lemma died_stays: "Died \<in> set ts \<Longrightarrow> ts ! i \<noteq> Died \<Longrightarrow> Died \<in> set (ts[i := p])"
  by (induction ts arbitrary: i) (auto split: nat.split)

lemma balanced_thread:
  assumes "balanced u s" "i < length (threads s)" "threads s ! i \<noteq> Died"
    and "page_checks st' = page_checks (s_stats s) + u * (6 * (reclaims st' - reclaims (s_stats s)) + ahead checks_ahead p - ahead checks_ahead (threads s ! i))"
    and "st_sweeps st' = st_sweeps (s_stats s) + 5 * (reclaims st' - reclaims (s_stats s)) + ahead sweeps_ahead p - ahead sweeps_ahead (threads s ! i)"
    and "reclaims st' - reclaims (s_stats s) = of_nat (length (reclaimed_mib st')) - of_nat (length (reclaimed_mib (s_stats s)))" "early_round p"
  shows "balanced u (s\<lparr>threads := (threads s)[i := p], s_stats := st'\<rparr>)"
proof (cases "Died \<in> set ((threads s)[i := p])")
  case False
  then have "Died \<notin> set (threads s)" using died_stays assms(3) by blast
  then have b: "list_all early_round (threads s)" "page_checks (s_stats s) = u * (6 * reclaims (s_stats s) + sum_list (map (ahead checks_ahead) (threads s)))"
    "st_sweeps (s_stats s) = 5 * reclaims (s_stats s) + sum_list (map (ahead sweeps_ahead) (threads s))"
    "reclaims (s_stats s) = of_nat (length (reclaimed_mib (s_stats s)))" using assms(1) by (auto simp: balanced_def)
  have "list_all early_round ((threads s)[i := p])"
    using b(1) assms(7) set_update_subset_insert [of "threads s" i p] by (auto simp: list_all_iff)
  then show ?thesis
    unfolding balanced_def using assms(4-6) b(2-4) by (simp add: sum_ahead_update [OF assms(2)] algebra_simps)
qed (simp add: balanced_def)

lemma balanced_died: "i < length (threads s) \<Longrightarrow> balanced u (s\<lparr>threads := (threads s)[i := Died]\<rparr>)"
  by (simp add: balanced_def set_update_memI)

lemma in_thread_eq_Ok_iff:
  "in_thread f w = (Ok r, w') \<longleftrightarrow> (\<exists>a. r = Some a \<and> f w = (Ok a, w')) \<or> (\<exists>p. r = None \<and> f w = (Panic p, w'))"
  by (auto simp: in_thread_def split: prod.splits outcome.splits)

lemma balanced_keep:
  assumes "balanced u s" "i < length (threads s)" "threads s ! i \<noteq> Died" "early_round p"
    and "ahead checks_ahead p = ahead checks_ahead (threads s ! i)" "ahead sweeps_ahead p = ahead sweeps_ahead (threads s ! i)"
  shows "balanced u (s\<lparr>threads := (threads s)[i := p]\<rparr>)"
  using balanced_thread [OF assms(1-3), of "s_stats s" p] assms(4-6) by simp

lemma op_balanced:
  assumes "balanced (half_size (slot_size opts) div of_nat PAGE) s" "i < length (threads s)" "threads s ! i = Running wk"
    and "bind_io (in_thread (worker_op fuel K (of_nat i) (slot_size opts) (half_size (slot_size opts)) ram mode adv wk (s_stats s))) (\<lambda>r.
       ret (case r of None \<Rightarrow> s\<lparr>threads := (threads s)[i := Died]\<rparr>
         | Some (wk', st) \<Rightarrow> s\<lparr>threads := (threads s)[i := Running (wk'\<lparr>w_point := next_point (w_point wk)\<rparr>)], s_stats := st\<rparr>)) w = (Ok s', w')"
  shows "balanced (half_size (slot_size opts) div of_nat PAGE) s'"
proof -
  let ?u = "half_size (slot_size opts) div of_nat PAGE"
  have "balanced ?u (s\<lparr>threads := (threads s)[i := Running (wk'\<lparr>w_point := next_point (w_point wk)\<rparr>)], s_stats := st'\<rparr>)"
    if o: "worker_op fuel K (of_nat i) (slot_size opts) (half_size (slot_size opts)) ram mode adv wk (s_stats s) w = (Ok (wk', st'), w')" for wk' st'
  proof (cases "Died \<in> set (threads s)")
    case True
    then show ?thesis using died_stays [OF True, of i] assms(3) by (simp add: balanced_def)
  next
    case False
    then have "list_all early_round (threads s)" using assms(1) by (simp add: balanced_def)
    then have "early_round (Running wk)" using assms(2,3) by (metis list_all_length)
    note c = worker_op_counts [OF o this]
    show ?thesis by (rule balanced_thread [OF assms(1,2)]) (use c assms(3) in \<open>simp_all add: ahead_def\<close>)
  qed
  then show ?thesis
    using assms(4) balanced_died [OF assms(2), of ?u] by (auto simp: bind_io_eq_Ok_iff in_thread_eq_Ok_iff simp del: next_point.simps)
qed

lemma finish_balanced:
  assumes "balanced u s" "i < length (threads s)" "threads s ! i = Running wk" "w_point wk = HotSweep 0"
    and "bind_io (in_thread f) (\<lambda>r. ret (s\<lparr>threads := (threads s)[i := (case r of None \<Rightarrow> Died | Some _ \<Rightarrow> Finished)]\<rparr>)) w = (Ok s', w')"
  shows "balanced u s'"
  using assms(5) balanced_died [OF assms(2)] balanced_keep [OF assms(1,2), of Finished] assms(3,4)
  by (auto simp: bind_io_eq_Ok_iff in_thread_eq_Ok_iff ahead_def)

lemma worker_turn_balanced:
  assumes "worker_turn fuel K opts ram deadline i s w = (Ok s', w')" "balanced (half_size (slot_size opts) div of_nat PAGE) s"
  shows "balanced (half_size (slot_size opts) div of_nat PAGE) s'"
proof (cases "i < length (threads s)")
  case i: True
  have start: "w_point wk = HotSweep 0" if "worker_setup fuel K k slot half ram w = (Ok wk, w1)" for k slot half wk w w1
    using that by (auto simp: worker_setup_def Let_def bind_io_eq_Ok_iff then_io_eq_Ok_iff)
  have n: "\<not> length (threads s) \<le> i" using i by simp
  show ?thesis
  proof (cases "threads s ! i")
    case Fresh
    then show ?thesis using assms(1) i
      by (auto simp: worker_turn_def Let_def bind_io_eq_Ok_iff in_thread_eq_Ok_iff ahead_def HOT_SWEEPS_PER_CYCLE_def
          intro!: balanced_keep [OF assms(2)] balanced_died dest!: start)
  next
    case (Running wk)
    note e = assms(1) [unfolded worker_turn_def Let_def Running phase.case if_not_P [OF n]]
    show ?thesis
    proof (cases "w_point wk = HotSweep 0")
      case True
      then show ?thesis
        using e [unfolded if_P [OF True]] op_balanced [OF assms(2) i Running] finish_balanced [OF assms(2) i Running True]
        unfolding bind_io_eq_Ok_iff [where f = "now K"] by (auto split: if_splits)
    next
      case False
      show ?thesis using op_balanced [OF assms(2) i Running] e [unfolded if_not_P [OF False]] .
    qed
  qed (use assms i in \<open>simp_all add: worker_turn_def\<close>)
qed (use assms in \<open>simp add: worker_turn_def Let_def\<close>)

lemma soak_turn_balanced:
  assumes "soak_turn fuel K opts ram deadline t s w = (Ok s', w')" "balanced (half_size (slot_size opts) div of_nat PAGE) s"
  shows "balanced (half_size (slot_size opts) div of_nat PAGE) s'"
proof (cases t)
  case (WorkerTurn i)
  then show ?thesis using worker_turn_balanced assms by (simp add: soak_turn_def)
qed (use assms in \<open>auto simp: soak_turn_def bind_io_eq_Ok_iff then_io_eq_Ok_iff balanced_def split: if_splits option.splits sum.splits\<close>)

lemma soak_fold_balanced:
  "fold_io sched (soak_turn fuel K opts ram deadline) s w = (Ok s', w') \<Longrightarrow> balanced (half_size (slot_size opts) div of_nat PAGE) s
    \<Longrightarrow> balanced (half_size (slot_size opts) div of_nat PAGE) s'"
  by (induction sched arbitrary: s w) (auto simp: bind_io_eq_Ok_iff dest: soak_turn_balanced)

section \<open>The totals\<close>

lemma finished_owe_nothing: "\<forall>p\<in>set ts. p = Finished \<Longrightarrow> sum_list (map (ahead f) ts) = 0"
  by (induction ts) (auto simp: ahead_def)

lemma totals:
  assumes "fold_io sched (soak_turn fuel K opts ram deadline)
      \<lparr>threads = replicate n Fresh, s_stats = no_stats, burst = None\<rparr> w = (Ok s, w')"
    and "\<forall>p\<in>set (threads s). p = Finished"
  shows "page_checks (s_stats s) = half_size (slot_size opts) div of_nat PAGE * (6 * reclaims (s_stats s))"
    and "st_sweeps (s_stats s) = 5 * reclaims (s_stats s)" "reclaims (s_stats s) = of_nat (length (reclaimed_mib (s_stats s)))"
proof -
  let ?u = "half_size (slot_size opts) div of_nat PAGE"
  have "balanced ?u \<lparr>threads = replicate n Fresh, s_stats = no_stats, burst = None\<rparr>"
    unfolding balanced_def by (simp add: no_stats_def list_all_iff sum_list_replicate ahead_def)
  then have "balanced ?u s" using soak_fold_balanced [OF assms(1)] by blast
  moreover have "Died \<notin> set (threads s)" using assms(2) by auto
  ultimately show "page_checks (s_stats s) = ?u * (6 * reclaims (s_stats s))" "st_sweeps (s_stats s) = 5 * reclaims (s_stats s)"
    "reclaims (s_stats s) = of_nat (length (reclaimed_mib (s_stats s)))"
    using finished_owe_nothing [OF assms(2)] by (simp_all add: balanced_def)
qed

end
