(* ===== verification/Interleaving.thy ===== *)
theory Interleaving
  imports Prelude
begin

text \<open>
  Threads that share a state, run one turn at a time by a schedule. The interface is in the style
  of rely and guarantee: a turn keeps the assertion of its own thread and brings it closer to its
  end, and changes the rest of the state only as far as its guarantee says, under which the
  assertion of every other thread is stable. From that, every schedule runs through, and a
  schedule that gives each thread enough turns brings every thread to its end.
\<close>

locale interleaving =
  fixes turn :: "'t \<Rightarrow> 's \<Rightarrow> 's option"
    and owner :: "'t \<Rightarrow> nat option"
    and n :: nat
    and shared :: "'s \<Rightarrow> bool"
    and local :: "nat \<Rightarrow> 's \<Rightarrow> bool"
    and rank :: "nat \<Rightarrow> 's \<Rightarrow> nat"
    and guar :: "nat option \<Rightarrow> 's \<Rightarrow> 's \<Rightarrow> bool"
  assumes runs: "shared s \<Longrightarrow> \<forall>i<n. local i s \<Longrightarrow> \<exists>s'. turn t s = Some s' \<and> shared s' \<and> guar (owner t) s s'"
    and own: "shared s \<Longrightarrow> local i s \<Longrightarrow> i < n \<Longrightarrow> owner t = Some i \<Longrightarrow> turn t s = Some s' \<Longrightarrow>
      local i s' \<and> rank i s' \<le> rank i s - 1"
    and stable: "shared s \<Longrightarrow> guar j s s' \<Longrightarrow> i < n \<Longrightarrow> j \<noteq> Some i \<Longrightarrow> local i s \<Longrightarrow>
      local i s' \<and> rank i s' \<le> rank i s"
begin

primrec run :: "'t list \<Rightarrow> 's \<Rightarrow> 's option" where
  "run [] s = Some s"
| "run (t # ts) s = (case turn t s of None \<Rightarrow> None | Some s' \<Rightarrow> run ts s')"

abbreviation turns_of :: "nat \<Rightarrow> 't list \<Rightarrow> nat" where
  "turns_of i ts \<equiv> length (filter (\<lambda>t. owner t = Some i) ts)"

lemma turn_keeps:
  assumes "shared s" "\<forall>i<n. local i s" "turn t s = Some s'"
  shows "shared s'" "i < n \<Longrightarrow> local i s' \<and> rank i s' \<le> rank i s - (if owner t = Some i then 1 else 0)"
proof -
  have g: "shared s'" "guar (owner t) s s'" using runs [OF assms(1,2), of t] assms(3) by auto
  show "shared s'" by (fact g(1))
  show "local i s' \<and> rank i s' \<le> rank i s - (if owner t = Some i then 1 else 0)" if "i < n"
    using own [OF assms(1) _ that _ assms(3)] stable [OF assms(1) g(2) that] assms(2) that by (cases "owner t = Some i") auto
qed

lemma schedule_runs:
  assumes "shared s" "\<forall>i<n. local i s"
  shows "\<exists>s'. run ts s = Some s' \<and> shared s' \<and> (\<forall>i<n. local i s' \<and> rank i s' \<le> rank i s - turns_of i ts)"
  using assms
proof (induction ts arbitrary: s)
  case (Cons t ts)
  obtain s1 where s1: "turn t s = Some s1" using runs [OF Cons.prems, of t] by auto
  note k = turn_keeps [OF Cons.prems s1]
  obtain s' where s': "run ts s1 = Some s'" "shared s'" "\<forall>i<n. local i s' \<and> rank i s' \<le> rank i s1 - turns_of i ts"
    using Cons.IH [of s1] k by blast
  have "rank i s' \<le> rank i s - turns_of i (t # ts)" if "i < n" for i
    using s'(3) k(2) [OF that] that by (fastforce split: if_splits)
  then show ?case using s1 s' by auto
qed simp

lemma enough_turns:
  assumes "shared s" "\<forall>i<n. local i s" "\<forall>i<n. rank i s \<le> turns_of i ts"
  shows "\<exists>s'. run ts s = Some s' \<and> shared s' \<and> (\<forall>i<n. local i s' \<and> rank i s' = 0)"
  using schedule_runs [OF assms(1,2), of ts] assms(3) by fastforce

end

end
