(* ===== verification/Soak_Sound.thy ===== *)
theory Soak_Sound
  imports Soak_Worker Soak_Account Interleaving Platform
begin

text \<open>
  The soak as a whole, under every schedule: on a host that keeps its contract the workers never
  see a mismatch, whichever calls fail, and a schedule that gives every worker enough turns brings
  the run to its report.
\<close>

section \<open>How far a worker is from its end\<close>

fun point_pos :: "point \<Rightarrow> nat" where
  "point_pos (HotSweep n) = 2 * n"
| "point_pos (HotVerify n) = 2 * n + 1"
| "point_pos ColdSweep = 8"
| "point_pos ColdBefore = 9"
| "point_pos ColdUnmap = 10"
| "point_pos ColdRelease = 11"
| "point_pos ColdRemap = 12"
| "point_pos ColdAfter = 13"
| "point_pos ColdFill = 14"
| "point_pos ColdVerify = 15"
| "point_pos ColdSleep = 16"
| "point_pos ColdRecheck = 17"

text \<open>Every cycle of eighteen operations sleeps for a quarter of a second.\<close>

definition cycles_left :: "nat \<Rightarrow> nat \<Rightarrow> nat" where
  "cycles_left deadline t = (deadline - t + 249999999) div 250000000"

definition point_rank :: "nat \<Rightarrow> nat \<Rightarrow> point \<Rightarrow> nat" where
  "point_rank deadline t p =
    (if p = HotSweep 0 then 18 * cycles_left deadline t + 1
     else if p = ColdRecheck then 18 * cycles_left deadline t + 2
     else (18 - point_pos p) + 18 * (cycles_left deadline t - 1) + 1)"

definition phase_rank :: "nat \<Rightarrow> nat \<Rightarrow> phase \<Rightarrow> nat" where
  "phase_rank deadline t ph = (case ph of
       Fresh \<Rightarrow> 18 * cycles_left deadline t + 2
     | Running wk \<Rightarrow> point_rank deadline t (w_point wk)
     | _ \<Rightarrow> 0)"

lemma cycles_mono: "t \<le> t' \<Longrightarrow> cycles_left d t' \<le> cycles_left d t"
  unfolding cycles_left_def by (intro div_le_mono) simp

lemma cycles_sleep: "t + 250000000 \<le> t' \<Longrightarrow> cycles_left d t' \<le> cycles_left d t - 1"
proof (cases "d - t < 250000000")
  case False
  assume "t + 250000000 \<le> t'"
  then have "d - t' + 249999999 \<le> d - t + 249999999 - 250000000" using False by simp
  then have "cycles_left d t' \<le> (d - t + 249999999 - 250000000) div 250000000" unfolding cycles_left_def by (rule div_le_mono)
  also have "\<dots> = cycles_left d t - 1" using False by (simp add: cycles_left_def)
  finally show ?thesis .
qed (simp add: cycles_left_def)

lemma cycles_pos: "t < d \<Longrightarrow> 0 < cycles_left d t"
  by (simp add: cycles_left_def div_greater_zero_iff)

lemma rank_mono: "t \<le> t' \<Longrightarrow> phase_rank d t' ph \<le> phase_rank d t ph"
  using cycles_mono [of t t' d] by (auto simp: phase_rank_def point_rank_def split: phase.split)

lemma rank_step:
  assumes "t \<le> t'" "hot_round p < HOT_SWEEPS_PER_CYCLE" "p = HotSweep 0 \<Longrightarrow> t < d" "p = ColdSleep \<Longrightarrow> t + 250000000 \<le> t'"
  shows "point_rank d t' (next_point p) \<le> point_rank d t p - 1"
proof -
  have m: "cycles_left d t' \<le> cycles_left d t" using assms(1) by (rule cycles_mono)
  show ?thesis
  proof (cases p)
    case (HotSweep n)
    then show ?thesis using m assms(2,3) cycles_pos [of t d] by (cases n) (auto simp: point_rank_def HOT_SWEEPS_PER_CYCLE_def)
  next
    case ColdSleep
    then show ?thesis using assms(4) cycles_sleep [of t t' d] by (simp add: point_rank_def)
  qed (use m assms(2) in \<open>auto simp: point_rank_def HOT_SWEEPS_PER_CYCLE_def\<close>)
qed

section \<open>A worker's turn\<close>

definition soak_shared :: "'x kernel \<Rightarrow> 'x hv_view \<Rightarrow> ('x \<Rightarrow> nat) \<Rightarrow> nat \<Rightarrow> nat \<Rightarrow> nat \<Rightarrow> options \<Rightarrow> nat \<Rightarrow> soak_state \<times> 'x world \<Rightarrow> bool" where
  "soak_shared K V clk fuel code ram opts deadline = (\<lambda>(s, w). faithful_host K V clk \<and> paged_slots opts \<and> deadline < 2 ^ 64
     \<and> length (threads s) = unat (soak_vcpus opts) \<and> mismatches (s_stats s) = 0
     \<and> soak_vm V code ram opts w \<and> v_cancels V (ext w) < fuel \<and> (succeeds K opts \<longrightarrow> Died \<notin> set (threads s)))"

text \<open>What a turn of worker \<open>i\<close> does to the run and to the world.\<close>

definition turn_post :: "'x kernel \<Rightarrow> 'x hv_view \<Rightarrow> ('x \<Rightarrow> nat) \<Rightarrow> nat \<Rightarrow> options \<Rightarrow> nat \<Rightarrow> nat \<Rightarrow> soak_state \<Rightarrow> 'x world
    \<Rightarrow> soak_state option \<Rightarrow> 'x world \<Rightarrow> bool" where
  "turn_post K V clk ram opts deadline i s w r w' \<longleftrightarrow> touches V ram opts i w w' \<and> v_cancels V (ext w') \<le> v_cancels V (ext w)
     \<and> clk (ext w) \<le> clk (ext w') \<and> (\<exists>p s'. r = Some s' \<and> threads s' = (threads s)[i := p] \<and> mismatches (s_stats s') = mismatches (s_stats s)
       \<and> (succeeds K opts \<longrightarrow> p = Died \<longrightarrow> threads s ! i = Died) \<and> phase_ok K V ram opts i p w' \<and> phase_rank deadline (clk (ext w')) p \<le> phase_rank deadline (clk (ext w)) (threads s ! i) - 1)"

lemma turn_postI:
  assumes "touches V ram opts i w w'" "v_cancels V (ext w') \<le> v_cancels V (ext w)" "clk (ext w) \<le> clk (ext w')"
    and "threads s' = (threads s)[i := p]" "succeeds K opts \<Longrightarrow> p = Died \<Longrightarrow> threads s ! i = Died" "mismatches (s_stats s') = mismatches (s_stats s)" "phase_ok K V ram opts i p w'"
    and "phase_rank deadline (clk (ext w')) p \<le> phase_rank deadline (clk (ext w)) (threads s ! i) - 1"
  shows "turn_post K V clk ram opts deadline i s w (Some s') w'"
  using assms unfolding turn_post_def by blast

lemma turn_post_dead:
  assumes "touches V ram opts i w w'" "v_cancels V (ext w') \<le> v_cancels V (ext w)" "clk (ext w) \<le> clk (ext w')"
    and "p = Died \<and> \<not> succeeds K opts \<or> p = Finished"
  shows "turn_post K V clk ram opts deadline i s w (Some (s\<lparr>threads := (threads s)[i := p]\<rparr>)) w'"
  using assms by (intro turn_postI [where p = p]) (auto simp: phase_ok_def phase_rank_def)

lemma setup_turn:
  assumes S: "soak_shared K V clk fuel code ram opts deadline (s, w)" and i: "i < unat (soak_vcpus opts)"
    and ok: "phase_ok K V ram opts i (threads s ! i) w" and f: "threads s ! i = Fresh"
  shows "ends (worker_turn fuel K opts ram deadline i s) w (turn_post K V clk ram opts deadline i s w)"
proof -
  have A: "faithful_host K V clk" "paged_slots opts" "soak_vm V code ram opts w" "v_cancels V (ext w) < fuel" "i < length (threads s)"
    using S i by (simp_all add: soak_shared_def)
  have u: "uses K (worker_setup fuel K (of_nat i) (slot_size opts) (half_of opts) ram)" by (rule uses_worker)
  have live: "turn_post K V clk ram opts deadline i s w (Some (s\<lparr>threads := (threads s)[i := Running wk]\<rparr>)) w'"
    if "touches V ram opts i w w'" "worker_ok K V ram opts i wk w'" "w_point wk = HotSweep 0"
      "v_cancels V (ext w') \<le> v_cancels V (ext w)" "clk (ext w) \<le> clk (ext w')" for wk w'
    using that f cycles_mono [OF that(5), of deadline]
    by (intro turn_postI [where p = "Running wk"]) (simp_all add: phase_ok_def phase_rank_def point_rank_def)
  have n: "\<not> length (threads s) \<le> i" using A(5) by simp
  show ?thesis
    unfolding worker_turn_def Let_def f phase.case if_not_P [OF n] ends_bind ends_thread
    by (rule ends_mono [OF ends_uses [OF A(1) u setup_ends [OF A(1) i A(2,3) ok [unfolded f] A(4)]]])
      (auto simp: setup_post_def intro: live turn_post_dead split: option.split)
qed

text \<open>A worker inside its loop: one operation from a world the clock has been read in.\<close>

lemma op_turn:
  assumes S: "soak_shared K V clk fuel code ram opts deadline (s, w)" and i: "i < unat (soak_vcpus opts)"
    and st: "still V w0 w" "v_cancels V (ext w) \<le> v_cancels V (ext w0)" "clk (ext w0) \<le> clk (ext w)"
    and ok: "worker_ok K V ram opts i wk w" and r: "threads s ! i = Running wk" and early: "w_point wk = HotSweep 0 \<Longrightarrow> clk (ext w0) < deadline"
  shows "ends (in_thread (worker_op fuel K (of_nat i) (slot_size opts) (half_of opts) ram (reclaim_mode opts) adv wk (s_stats s))) w
     (\<lambda>x. case x of None \<Rightarrow> \<lambda>_. False | Some y \<Rightarrow> turn_post K V clk ram opts deadline i s w0 (Some (case y of None \<Rightarrow> s\<lparr>threads := (threads s)[i := Died]\<rparr>
        | Some (wk', st') \<Rightarrow> s\<lparr>threads := (threads s)[i := Running (wk'\<lparr>w_point := next_point (w_point wk)\<rparr>)], s_stats := st'\<rparr>)))"
    (is "ends (in_thread ?op) w ?Q")
proof -
  have A: "faithful_host K V clk" "op_pre K V clk code ram opts fuel i wk w" "i < length (threads s)"
    using S i ok by (simp_all add: soak_shared_def op_pre_def)
  have u: "uses K ?op" by (rule uses_worker)
  have fin: "?Q (Some y) w'" if p: "op_post K V clk ram opts i wk (s_stats s) w y w'"
      and c: "v_cancels V (ext w') \<le> v_cancels V (ext w)" "clk (ext w) \<le> clk (ext w')" for y w'
  proof -
    have t: "touches V ram opts i w0 w'" using p touches_trans [OF touches_still [OF st(1)]] by (auto simp: op_post_def)
    have c0: "v_cancels V (ext w') \<le> v_cancels V (ext w0)" "clk (ext w0) \<le> clk (ext w')" using c st by simp_all
    show ?thesis
    proof (cases y)
      case None
      then show ?thesis using t c0 p by (auto simp: op_post_def intro: turn_post_dead)
    next
      case (Some z)
      obtain wk' st' where z: "z = (wk', st')" by fastforce
      have o: "worker_ok K V ram opts i (wk'\<lparr>w_point := next_point (w_point wk)\<rparr>) w'" "mismatches st' = mismatches (s_stats s)"
        "w_point wk = ColdSleep \<Longrightarrow> clk (ext w) + 250000000 \<le> clk (ext w')" using p Some z by (auto simp: op_post_def)
      have "point_rank deadline (clk (ext w')) (next_point (w_point wk)) \<le> point_rank deadline (clk (ext w0)) (w_point wk) - 1"
        using rank_step [OF c0(2) _ early] o(3) ok st(3) by (fastforce simp: worker_ok_def)
      then show ?thesis unfolding Some z
        using t c0 o r by (auto simp: phase_ok_def phase_rank_def
          intro!: turn_postI [where p = "Running (wk'\<lparr>w_point := next_point (w_point wk)\<rparr>)"])
    qed
  qed
  show ?thesis
    unfolding ends_thread by (rule ends_mono [OF ends_uses [OF A(1) u worker_op_ends [OF A(2)]]]) (use fin in blast)
qed

text \<open>The two ends of a turn in the loop: the operation with its bookkeeping, and the end at the deadline.\<close>

abbreviation after_op :: "soak_state \<Rightarrow> nat \<Rightarrow> worker \<Rightarrow> (worker \<times> stats) option \<Rightarrow> soak_state" where
  "after_op s i wk y \<equiv> (case y of None \<Rightarrow> s\<lparr>threads := (threads s)[i := Died]\<rparr>
     | Some (wk', st') \<Rightarrow> s\<lparr>threads := (threads s)[i := Running (wk'\<lparr>w_point := next_point (w_point wk)\<rparr>)], s_stats := st'\<rparr>)"

lemma step_turn:
  assumes S: "soak_shared K V clk fuel code ram opts deadline (s, w)" and i: "i < unat (soak_vcpus opts)"
    and ok: "worker_ok K V ram opts i wk w" and r: "threads s ! i = Running wk"
    and st: "still V w w1" "v_cancels V (ext w1) \<le> v_cancels V (ext w)" "clk (ext w) \<le> clk (ext w1)"
    and early: "w_point wk = HotSweep 0 \<Longrightarrow> clk (ext w) < deadline"
  shows "ends (bind_io (in_thread (worker_op fuel K (of_nat i) (slot_size opts) (half_of opts) ram (reclaim_mode opts) adv wk (s_stats s)))
      (\<lambda>y. ret (after_op s i wk y))) w1 (turn_post K V clk ram opts deadline i s w)"
proof -
  have S1: "soak_shared K V clk fuel code ram opts deadline (s, w1)" using S st(1,2) by (simp add: soak_shared_def still_def)
  have ok1: "worker_ok K V ram opts i wk w1" using ok phase_still [OF st(1), of K ram opts i "Running wk"] by (simp add: phase_ok_def)
  show ?thesis unfolding ends_bind
    by (rule ends_mono [OF op_turn [OF S1 i st ok1 r early]]) (auto split: option.splits)
qed

lemma finish_turn:
  assumes H: "faithful_host K V clk" and st: "still V w w1" "v_cancels V (ext w1) \<le> v_cancels V (ext w)" "clk (ext w) \<le> clk (ext w1)"
  shows "ends (bind_io (in_thread (check_sys K (HvVcpuDestroy v) a)) (\<lambda>r.
      ret (s\<lparr>threads := (threads s)[i := (case r of None \<Rightarrow> Died | Some _ \<Rightarrow> Finished)]\<rparr>))) w1 (turn_post K V clk ram opts deadline i s w)"
proof -
  have "turn_post K V clk ram opts deadline i s w (Some (s\<lparr>threads := (threads s)[i := ph]\<rparr>)) w2"
    if "sys K (HvVcpuDestroy v) w1 = (Ok q, w2)" "ph = Died \<and> \<not> succeeds K opts \<or> ph = Finished" for q w2 ph
    using touches_still [OF still_trans [OF st(1) call_still [OF H that(1)]]] call_progress(1,2) [OF H that(1)] st that(2)
    by (intro turn_post_dead) (auto intro: le_trans)
  then show ?thesis unfolding ends_bind ends_thread check_sys_def
    by (intro ends_sys) (use call_succeeds(1) [of K opts "HvVcpuDestroy v" w1 _ _ v] in auto)
qed

lemma loop_turn:
  assumes S: "soak_shared K V clk fuel code ram opts deadline (s, w)" and i: "i < unat (soak_vcpus opts)"
    and ok: "worker_ok K V ram opts i wk w" and r: "threads s ! i = Running wk"
  shows "ends (worker_turn fuel K opts ram deadline i s) w (turn_post K V clk ram opts deadline i s w)"
proof -
  have H: "faithful_host K V clk" "deadline < 2 ^ 64" and n: "\<not> length (threads s) \<le> i" using S i by (simp_all add: soak_shared_def)
  note U = worker_turn_def Let_def r phase.case if_not_P [OF n]
  show ?thesis
  proof (cases "w_point wk = HotSweep 0")
    case False
    then show ?thesis unfolding U if_not_P [OF False] by (intro step_turn [OF S i ok r]) simp_all
  next
    case True
    obtain p w1 where s1: "sys K Now w = (Ok p, w1)" using sys_total by blast
    have t: "ends (now K) w Q = Q (Some (unat (rv p))) w1" for Q using s1 by (simp add: ends_def now_def bind_io_def ret_def)
    have st: "still V w w1" by (rule call_still [OF H(1) s1]) simp_all
    note c = call_progress(1,2) [OF H(1) s1] and rd = call_progress(4) [OF H(1) s1 refl]
    note U = U if_P [OF True] ends_bind [where f = "now K"] t option.case
    show ?thesis
    proof (cases "unat (rv p) < deadline")
      case early: True
      then have "clk (ext w) < deadline" using rd H(2) by auto
      then show ?thesis unfolding U if_P [OF early] by (intro step_turn [OF S i ok r st c])
    next
      case False
      show ?thesis unfolding U if_not_P [OF False] by (rule finish_turn [OF H(1) st c])
    qed
  qed
qed

lemma worker_turn_ends:
  assumes S: "soak_shared K V clk fuel code ram opts deadline (s, w)" and i: "i < unat (soak_vcpus opts)"
    and ok: "phase_ok K V ram opts i (threads s ! i) w"
  shows "ends (worker_turn fuel K opts ram deadline i s) w (turn_post K V clk ram opts deadline i s w)"
proof (cases "threads s ! i")
  case Fresh
  then show ?thesis using setup_turn [OF S i ok] by simp
next
  case (Running wk)
  then show ?thesis using loop_turn [OF S i] ok by (simp add: phase_ok_def)
next
  case Finished
  then have "threads s = (threads s)[i := Finished]" using list_update_id [of "threads s" i] by simp
  then show ?thesis using S i Finished by (auto simp: worker_turn_def Let_def soak_shared_def phase_ok_def phase_rank_def
      intro!: turn_postI [where p = Finished] touches_still)
next
  case Died
  then have "threads s = (threads s)[i := Died]" using list_update_id [of "threads s" i] by simp
  then show ?thesis using S i Died by (auto simp: worker_turn_def Let_def soak_shared_def phase_ok_def phase_rank_def
      intro!: turn_postI [where p = Died] touches_still)
qed

section \<open>The other turns\<close>

text \<open>An operation that returns and leaves the guest's part of the world alone.\<close>

definition calm :: "'x hv_view \<Rightarrow> ('x, 'a) io \<Rightarrow> ('a \<Rightarrow> bool) \<Rightarrow> bool" where
  "calm V f R \<longleftrightarrow> (\<forall>w. ends f w (\<lambda>r w'. still V w w' \<and> (\<exists>a. r = Some a \<and> R a)))"

lemma calm_ret: "R a \<Longrightarrow> calm V (ret a) R"
  by (simp add: calm_def)

lemma calm_bind: "calm V f (\<lambda>_. True) \<Longrightarrow> (\<And>a. calm V (g a) R) \<Longrightarrow> calm V (bind_io f g) R"
  unfolding calm_def ends_bind
proof
  fix w assume f: "\<forall>w. ends f w (\<lambda>r w'. still V w w' \<and> (\<exists>a. r = Some a \<and> True))"
    and g: "\<And>a. \<forall>w. ends (g a) w (\<lambda>r w'. still V w w' \<and> (\<exists>b. r = Some b \<and> R b))"
  have g': "ends (g a) w' (\<lambda>r w'. still V w w' \<and> (\<exists>b. r = Some b \<and> R b))" if "still V w w'" for a w'
    by (rule ends_mono [OF g [rule_format]]) (use still_trans [OF that] in auto)
  show "ends f w (\<lambda>r w'. case r of Some a \<Rightarrow> ends (g a) w' (\<lambda>r w'. still V w w' \<and> (\<exists>b. r = Some b \<and> R b))
      | None \<Rightarrow> still V w w' \<and> (\<exists>b. None = Some b \<and> R b))"
    by (rule ends_mono [OF f [rule_format]]) (use g' in auto)
qed

lemma calm_then: "calm V f (\<lambda>_. True) \<Longrightarrow> calm V g R \<Longrightarrow> calm V (then_io f g) R"
  unfolding then_io_def by (rule calm_bind)

lemma calm_println: "calm V (println a as) (\<lambda>_. True)"
  by (simp add: calm_def still_def)

lemma calm_sys:
  assumes "faithful_host K V clk" "quiet c" "\<And>v. c \<noteq> HvVcpuRun v"
  shows "calm V (sys K c) (\<lambda>_. True)" "calm V (sys_ignore K c) (\<lambda>_. True)"
proof -
  show s: "calm V (sys K c) (\<lambda>_. True)"
    unfolding calm_def by (intro allI ends_sys) (use call_still [OF assms(1) _ assms(2,3)] in simp)
  show "calm V (sys_ignore K c) (\<lambda>_. True)" unfolding sys_ignore_def by (intro calm_bind s calm_ret) simp
qed

lemma calm_read:
  assumes "faithful_host K V clk"
  shows "calm V (ledger_read K) (\<lambda>_. True)" "calm V (now K) (\<lambda>_. True)" "calm V (next_line K pid) (\<lambda>_. True)"
proof -
  show "calm V (ledger_read K) (\<lambda>_. True)" unfolding calm_def by (intro allI ends_mono [OF ledger_ends [OF assms]]) auto
  show "calm V (now K) (\<lambda>_. True)" unfolding now_def by (intro calm_bind calm_sys(1) [OF assms] calm_ret) simp_all
  have "calm V (\<lambda>w. (Ok (k_line K (ext w)), w)) (\<lambda>_. True)" by (simp add: calm_def ends_def)
  then show "calm V (next_line K pid) (\<lambda>_. True)" unfolding next_line_def by (intro calm_bind calm_sys(1) [OF assms]) simp_all
qed

lemma calm_guard:
  assumes "faithful_host K V clk"
  shows "calm V (drop_guard K pid) (\<lambda>_. True)" "calm V (apply_pressure K gb) (\<lambda>_. True)"
  unfolding drop_guard_def apply_pressure_def
  by (auto intro!: calm_then calm_bind calm_read [OF assms] calm_sys [OF assms] calm_ret)

lemma main_turn_calm:
  assumes "faithful_host K V clk" "t = ProgressTurn \<or> t = PressureTurn"
  shows "calm V (soak_turn fuel K opts ram deadline t s) (\<lambda>s'. threads s' = threads s \<and> s_stats s' = s_stats s)"
  unfolding soak_turn_def using assms(2)
  by (auto intro!: calm_then calm_bind calm_read [OF assms(1)] calm_sys [OF assms(1)] calm_guard [OF assms(1)] calm_println calm_ret
      split: if_split option.split sum.split)

section \<open>The run\<close>

fun owner :: "turn \<Rightarrow> nat option" where
  "owner (WorkerTurn i) = Some i"
| "owner _ = None"

definition soak_step :: "nat \<Rightarrow> 'x kernel \<Rightarrow> options \<Rightarrow> nat \<Rightarrow> nat \<Rightarrow> turn \<Rightarrow> soak_state \<times> 'x world \<Rightarrow> (soak_state \<times> 'x world) option" where
  "soak_step fuel K opts ram deadline t = (\<lambda>(s, w). case soak_turn fuel K opts ram deadline t s w of (Ok s', w') \<Rightarrow> Some (s', w') | _ \<Rightarrow> None)"

definition soak_local :: "'x kernel \<Rightarrow> 'x hv_view \<Rightarrow> nat \<Rightarrow> options \<Rightarrow> nat \<Rightarrow> soak_state \<times> 'x world \<Rightarrow> bool" where
  "soak_local K V ram opts i = (\<lambda>(s, w). phase_ok K V ram opts i (threads s ! i) w)"

definition soak_rank :: "('x \<Rightarrow> nat) \<Rightarrow> nat \<Rightarrow> nat \<Rightarrow> soak_state \<times> 'x world \<Rightarrow> nat" where
  "soak_rank clk deadline i = (\<lambda>(s, w). phase_rank deadline (clk (ext w)) (threads s ! i))"

definition soak_guar :: "'x hv_view \<Rightarrow> ('x \<Rightarrow> nat) \<Rightarrow> nat \<Rightarrow> options \<Rightarrow> nat option \<Rightarrow> soak_state \<times> 'x world \<Rightarrow> soak_state \<times> 'x world \<Rightarrow> bool" where
  "soak_guar V clk ram opts o1 = (\<lambda>(s, w) (s', w'). clk (ext w) \<le> clk (ext w') \<and> (\<forall>i. o1 \<noteq> Some i \<longrightarrow> threads s' ! i = threads s ! i)
     \<and> (still V w w' \<or> (\<exists>j<unat (soak_vcpus opts). o1 = Some j \<and> touches V ram opts j w w')))"

lemma soak_step_runs:
  assumes S: "soak_shared K V clk fuel code ram opts deadline (s, w)" and L: "\<forall>i<unat (soak_vcpus opts). owner t = Some i \<longrightarrow> soak_local K V ram opts i (s, w)"
  shows "\<exists>x. soak_step fuel K opts ram deadline t (s, w) = Some x \<and> soak_shared K V clk fuel code ram opts deadline x
     \<and> soak_guar V clk ram opts (owner t) (s, w) x
     \<and> (\<forall>i<unat (soak_vcpus opts). owner t = Some i \<longrightarrow> soak_local K V ram opts i x \<and> soak_rank clk deadline i x \<le> soak_rank clk deadline i (s, w) - 1)"
proof -
  have H: "faithful_host K V clk" using S by (simp add: soak_shared_def)
  have step: "\<exists>s' w'. soak_step fuel K opts ram deadline t (s, w) = Some (s', w') \<and> P (Some s') w'"
    if "ends (soak_turn fuel K opts ram deadline t s) w P" "\<And>w'. \<not> P None w'" for P
    using that by (auto simp: ends_def soak_step_def split: prod.splits outcome.splits)
  have u: "uses K (soak_turn fuel K opts ram deadline t s)" by (rule uses_soak_turn)
  show ?thesis
  proof (cases "\<exists>i<unat (soak_vcpus opts). t = WorkerTurn i")
    case True
    then obtain i where i: "i < unat (soak_vcpus opts)" "t = WorkerTurn i" by blast
    have "ends (soak_turn fuel K opts ram deadline t s) w (turn_post K V clk ram opts deadline i s w)"
      using worker_turn_ends [OF S i(1)] L i by (simp add: soak_turn_def soak_local_def)
    from step [OF this] obtain s' w' where x: "soak_step fuel K opts ram deadline t (s, w) = Some (s', w')"
      "turn_post K V clk ram opts deadline i s w (Some s') w'" by (auto simp: turn_post_def)
    then obtain p where p: "touches V ram opts i w w'" "v_cancels V (ext w') \<le> v_cancels V (ext w)" "clk (ext w) \<le> clk (ext w')"
      "threads s' = (threads s)[i := p]" "mismatches (s_stats s') = mismatches (s_stats s)" "phase_ok K V ram opts i p w'"
      "succeeds K opts \<longrightarrow> p = Died \<longrightarrow> threads s ! i = Died" "phase_rank deadline (clk (ext w')) p \<le> phase_rank deadline (clk (ext w)) (threads s ! i) - 1" by (auto simp: turn_post_def)
    have "soak_vm V code ram opts w'" using touches_vm [OF p(1) i(1)] S by (simp add: soak_shared_def)
    moreover have "succeeds K opts \<longrightarrow> Died \<notin> set (threads s')"
    proof
      assume k: "succeeds K opts"
      then have d: "Died \<notin> set (threads s)" and "i < length (threads s)" using S i(1) by (simp_all add: soak_shared_def)
      then have "threads s ! i \<noteq> Died" using nth_mem by metis
      then have "p \<noteq> Died" using p(7) k by blast
      then show "Died \<notin> set (threads s')" using d set_update_subset_insert [of "threads s" i p] p(4) by auto
    qed
    ultimately have "soak_shared K V clk fuel code ram opts deadline (s', w')" using S p(2,4,5) by (simp add: soak_shared_def)
    moreover have "threads s' ! i = p" using S i p(4) by (simp add: soak_shared_def)
    ultimately show ?thesis using x(1) p i by (auto simp: soak_guar_def soak_local_def soak_rank_def)
  next
    case False
    have "calm V (soak_turn fuel K opts ram deadline t s) (\<lambda>s'. threads s' = threads s \<and> s_stats s' = s_stats s)"
    proof (cases t)
      case (WorkerTurn i)
      then have "length (threads s) \<le> i" using False S by (auto simp: soak_shared_def)
      then show ?thesis using WorkerTurn by (simp add: soak_turn_def worker_turn_def Let_def calm_def)
    qed (use main_turn_calm [OF H] in auto)
    then have "ends (soak_turn fuel K opts ram deadline t s) w (\<lambda>r w'. still V w w' \<and> (\<exists>s'. r = Some s' \<and> threads s' = threads s \<and> s_stats s' = s_stats s))"
      by (simp add: calm_def)
    from step [OF ends_uses [OF H u this]] obtain s' w' where "soak_step fuel K opts ram deadline t (s, w) = Some (s', w')"
      "still V w w'" "threads s' = threads s" "s_stats s' = s_stats s" "v_cancels V (ext w') \<le> v_cancels V (ext w)" "clk (ext w) \<le> clk (ext w')"
      by auto
    then show ?thesis using S False by (cases t) (auto simp: soak_guar_def soak_shared_def still_def)
  qed
qed

interpretation soak: interleaving "soak_step fuel K opts ram deadline" owner "unat (soak_vcpus opts)"
  "soak_shared K V clk fuel code ram opts deadline" "soak_local K V ram opts" "soak_rank clk deadline" "soak_guar V clk ram opts"
  for fuel K opts ram deadline V clk code
proof (unfold_locales, goal_cases)
  case (1 s t)
  then show ?case using soak_step_runs [of K V clk fuel code ram opts deadline "fst s" "snd s" t] by auto
next
  case (2 s i t s')
  then show ?case using soak_step_runs [of K V clk fuel code ram opts deadline "fst s" "snd s" t] by auto
next
  case (3 s j s' i)
  obtain p w p' w' where s: "s = (p, w)" "s' = (p', w')" by fastforce
  show ?case
    using 3 phase_still [of V w w' K ram opts i "threads p ! i"] phase_stable [of V ram opts _ w w' i code K "threads p ! i"]
      rank_mono [of "clk (ext w)" "clk (ext w')" deadline "threads p ! i"]
    unfolding s soak_guar_def soak_local_def soak_rank_def soak_shared_def by auto
qed

lemma soak_run_fold:
  "soak.run fuel K opts ram deadline sched (s, w) =
     (case fold_io sched (soak_turn fuel K opts ram deadline) s w of (Ok s', w') \<Rightarrow> Some (s', w') | _ \<Rightarrow> None)"
  by (induction sched arbitrary: s w)
    (simp_all add: ret_def bind_io_def soak_step_def split: prod.split outcome.split)

lemma rank_zero: "phase_rank d t p = 0 \<longleftrightarrow> p = Finished \<or> p = Died"
  by (auto simp: phase_rank_def point_rank_def split: phase.split)

text \<open>A run that starts on fresh, mapped guest RAM.\<close>

lemma fresh_phases:
  assumes "guest_ready ram (ram_bytes opts) code (v_s2 V (ext w)) (wmem w)" "\<forall>y\<ge>ram. y < ram + ram_bytes opts \<longrightarrow> wmem w y = 0"
    and "i < unat (soak_vcpus opts)"
  shows "phase_ok K V ram opts i Fresh w"
proof -
  have m: "mapped_ram V ram a b w" if "b \<le> ram_bytes opts" for a b
    using assms(1) that by (auto simp: guest_window_def mapped_ram_def)
  have "pages_hold ram (hot_off opts i) (cold_off opts i) 0 w"
    unfolding pages_hold_def
  proof
    fix off assume "off \<in> set (step_by (hot_off opts i) (cold_off opts i) PAGE)"
    then have "off + PAGE \<le> cold_off opts i" using page_room half_bound(2) [of "slot_size opts"] by (fastforce simp: cold_hot)
    then have "off + 8 \<le> ram_bytes opts" using slot_bounds(2) [OF assms(3)] by (simp add: PAGE_def)
    then show "read64 (wmem w) (ram + off) = 0" by (intro read64_zero) (use assms(2) in auto)
  qed
  then show ?thesis
    using m slot_bounds(2) [OF assms(3)] by (simp add: phase_ok_def is_mapped_def is_filled_def ranges_nat [OF assms(3)])
qed

lemma turns_count: "length (filter (\<lambda>t. owner t = Some i) sched) = count_list sched (WorkerTurn i)"
proof -
  have "owner t = Some i \<longleftrightarrow> t = WorkerTurn i" for t by (cases t) auto
  then show ?thesis by (induction sched) auto
qed

lemma workers_end:
  assumes S: "soak_shared K V clk fuel code ram opts d (s, w)" and fresh: "threads s = replicate (unat (soak_vcpus opts)) Fresh"
    and L: "\<forall>i<unat (soak_vcpus opts). phase_ok K V ram opts i Fresh w"
    and N: "\<forall>i<unat (soak_vcpus opts). 18 * cycles_left d (clk (ext w)) + 2 \<le> count_list sched (WorkerTurn i)"
  shows "\<exists>s' w'. fold_io sched (soak_turn fuel K opts ram d) s w = (Ok s', w') \<and> mismatches (s_stats s') = 0
     \<and> list_all (\<lambda>p. p = Finished \<or> p = Died) (threads s') \<and> (succeeds K opts \<longrightarrow> Died \<notin> set (threads s'))"
proof -
  have l: "\<forall>i<unat (soak_vcpus opts). soak_local K V ram opts i (s, w)" using fresh L by (simp add: soak_local_def)
  have r: "\<forall>i<unat (soak_vcpus opts). soak_rank clk d i (s, w) \<le> length (filter (\<lambda>t. owner t = Some i) sched)"
    using fresh N unfolding turns_count by (simp add: soak_rank_def phase_rank_def)
  obtain x where x: "soak.run fuel K opts ram d sched (s, w) = Some x" "soak_shared K V clk fuel code ram opts d x"
    "\<forall>i<unat (soak_vcpus opts). soak_rank clk d i x = 0" using soak.enough_turns [OF S l r] by blast
  obtain s' w' where e: "x = (s', w')" by fastforce
  then have "fold_io sched (soak_turn fuel K opts ram d) s w = (Ok s', w')"
    using x(1) unfolding soak_run_fold by (auto split: prod.splits outcome.splits)
  moreover have "list_all (\<lambda>p. p = Finished \<or> p = Died) (threads s')"
    using x(2,3) rank_zero unfolding e soak_shared_def soak_rank_def by (auto simp: list_all_length)
  ultimately show ?thesis using x(2) by (auto simp: e soak_shared_def)
qed

text \<open>The end of the run: the last guard is dropped, and a run without mismatches says so.\<close>

lemma clean_report:
  assumes "mismatches st = 0"
  shows "\<exists>w' l. then_io (case b of Some (Inr pid) \<Rightarrow> drop_guard K pid | _ \<Rightarrow> ret ()) (soak_report st) w = (Ok (), w')
     \<and> stdout w' = l @ [Line totals_text
         [ArgNat (unat (page_checks st)), ArgNat 0, ArgNat (unat (reclaims st)), ArgF64 (sum_list (reclaimed_mib st) / 1024)],
       Line clean_text [ArgNat (unat (page_checks st)), defect_rate (page_checks st)]]"
proof -
  have "\<exists>w1. (case b of Some (Inr pid) \<Rightarrow> drop_guard K pid | _ \<Rightarrow> ret ()) w = (Ok (), w1)"
    using drop_guard_reaps [of K _ w] by (auto simp: ret_def split: option.split sum.split)
  then show ?thesis using assms by (auto simp: soak_report_def then_io_def bind_io_def println_def)
qed

text \<open>A world the soak may start in: guest RAM is fresh and mapped, and the clock fits 64 bits until the deadline.\<close>

definition soak_start :: "'x hv_view \<Rightarrow> ('x \<Rightarrow> nat) \<Rightarrow> nat \<Rightarrow> nat \<Rightarrow> nat \<Rightarrow> options \<Rightarrow> 'x world \<Rightarrow> bool" where
  "soak_start V clk fuel code ram opts w \<longleftrightarrow> guest_ready ram (ram_bytes opts) code (v_s2 V (ext w)) (wmem w)
     \<and> (\<forall>y\<ge>ram. y < ram + ram_bytes opts \<longrightarrow> wmem w y = 0) \<and> v_cancels V (ext w) < fuel
     \<and> clk (ext w) + unat (soak_minutes opts * 60) * 1000000000 < 2 ^ 64"

text \<open>A schedule that gives each worker 72 turns for every second of the run, and two more.\<close>

definition long_enough :: "options \<Rightarrow> turn list \<Rightarrow> bool" where
  "long_enough opts sched \<longleftrightarrow> (\<forall>i<unat (soak_vcpus opts). 72 * unat (soak_minutes opts * 60) + 2 \<le> count_list sched (WorkerTurn i))"

lemma soak_run_ends:
  assumes H: "faithful_host K V clk" "paged_slots opts" and W: "soak_start V clk fuel code ram opts w" and N: "long_enough opts sched"
  shows "\<exists>d s' w2 w3. fold_io sched (soak_turn fuel K opts ram d)
        \<lparr>threads = replicate (unat (soak_vcpus opts)) Fresh, s_stats = no_stats, burst = None\<rparr> w2 = (Ok s', w3)
     \<and> soak_run fuel K sched ram opts w = then_io (case burst s' of Some (Inr pid) \<Rightarrow> drop_guard K pid | _ \<Rightarrow> ret ()) (soak_report (s_stats s')) w3
     \<and> mismatches (s_stats s') = 0 \<and> (succeeds K opts \<longrightarrow> (\<forall>p\<in>set (threads s'). p = Finished))"
proof -
  let ?n = "unat (soak_vcpus opts)" and ?L = "unat (soak_minutes opts * 60) * 1000000000"
  let ?s = "\<lparr>threads = replicate ?n Fresh, s_stats = no_stats, burst = None\<rparr>" and ?d = "clk (ext w) + ?L"
  have T: "?d < 2 ^ 64" and F: "v_cancels V (ext w) < fuel" using W by (simp_all add: soak_start_def)
  obtain p w1 where s1: "sys K Now w = (Ok p, w1)" using sys_total by blast
  have st: "still V w w1" by (rule call_still [OF H(1) s1]) simp_all
  note c = call_progress(1,2) [OF H(1) s1] and rd = call_progress(4) [OF H(1) s1 refl]
  have t: "now K w = (Ok (clk (ext w)), w1)" using s1 rd T by (simp add: now_def bind_io_def ret_def)
  define w2 where "w2 = w1\<lparr>stdout := stdout w1 @ [Line soak_text
       [ArgNat ?n, ArgNat (unat (size_gb opts)), ArgNat (unat (soak_minutes opts)),
        ArgStr (reclaim_mode_name (reclaim_mode opts)), ArgF64 (mib (half_of opts)), ArgF64 (mib (half_of opts))]]\<rparr>"
  have g: "guest_ready ram (ram_bytes opts) code (v_s2 V (ext w2)) (wmem w2)" "\<forall>y\<ge>ram. y < ram + ram_bytes opts \<longrightarrow> wmem w2 y = 0"
    using W st by (simp_all add: soak_start_def still_def w2_def)
  have "soak_vm V code ram opts w2" using g(1) by (auto simp: guest_window_def)
  then have S: "soak_shared K V clk fuel code ram opts ?d (?s, w2)" using H F T c by (simp add: soak_shared_def w2_def no_stats_def)
  have "cycles_left ?d (clk (ext w2)) \<le> 4 * unat (soak_minutes opts * 60)"
    using cycles_mono [OF c(2), of ?d] by (simp add: cycles_left_def w2_def)
  then have N': "\<forall>i<?n. 18 * cycles_left ?d (clk (ext w2)) + 2 \<le> count_list sched (WorkerTurn i)"
    using N by (fastforce simp: long_enough_def)
  obtain s' w3 where e: "fold_io sched (soak_turn fuel K opts ram ?d) ?s w2 = (Ok s', w3)" "mismatches (s_stats s') = 0"
    "list_all (\<lambda>p. p = Finished \<or> p = Died) (threads s')" "succeeds K opts \<longrightarrow> Died \<notin> set (threads s')"
    using workers_end [OF S _ _ N'] fresh_phases [OF g] by auto
  have D: "?d div 1000000000 < 2 ^ 63" using T by simp
  have "soak_run fuel K sched ram opts w = then_io (case burst s' of Some (Inr pid) \<Rightarrow> drop_guard K pid | _ \<Rightarrow> ret ()) (soak_report (s_stats s')) w3"
    using H(2) t e(1,3) D by (simp add: soak_run_def Let_def then_io_def bind_io_def println_def assert_io_def ret_def paged_slots_def w2_def)
  moreover have "succeeds K opts \<longrightarrow> (\<forall>p\<in>set (threads s'). p = Finished)" using e(3,4) by (auto simp: list_all_iff)
  ultimately show ?thesis using e(1,2) by blast
qed

section \<open>No false alarm\<close>

text \<open>
  C6. On a host that keeps its contract the soak ends and reports no corruption, under every schedule
  that gives each worker enough turns, whatever calls that create or destroy a vCPU, map, unmap or
  release fail. Guest RAM starts mapped and zero, the deadline lies within the 64-bit clock, and the
  options are such that a slot is a whole number of pages (\<open>paged_slots\<close>), of at least 32 pages: 3 GiB for
  five vCPUs, which the program accepts, is not covered.
\<close>

theorem soak_no_false_alarm:
  assumes "faithful_host K V clk" "paged_slots opts" "soak_start V clk fuel code ram opts w" "long_enough opts sched"
  shows "\<exists>w' checks. soak_run fuel K sched ram opts w = (Ok (), w')
     \<and> last (stdout w') = Line clean_text [ArgNat (unat checks), defect_rate checks]"
proof -
  obtain d s' w2 w3 where e: "fold_io sched (soak_turn fuel K opts ram d)
        \<lparr>threads = replicate (unat (soak_vcpus opts)) Fresh, s_stats = no_stats, burst = None\<rparr> w2 = (Ok s', w3)"
    "soak_run fuel K sched ram opts w = then_io (case burst s' of Some (Inr pid) \<Rightarrow> drop_guard K pid | _ \<Rightarrow> ret ()) (soak_report (s_stats s')) w3"
    "mismatches (s_stats s') = 0"
    using soak_run_ends [OF assms] by blast
  then show ?thesis using clean_report [OF e(3), where b = "burst s'" and K = K and w = w3] e(2) by auto
qed

text \<open>
  C7. When besides no call fails, the numbers of the report are exact: six checks of every page of a
  half slot for each of the reclaim cycles it names, and no mismatch. As before the slots are whole
  pages, guest RAM starts mapped and zero, and every worker gets enough turns.
\<close>

theorem soak_report_exact:
  assumes "faithful_host K V clk" "paged_slots opts" "soak_start V clk fuel code ram opts w" "long_enough opts sched" "succeeds K opts"
  shows "\<exists>w' l cycles released. soak_run fuel K sched ram opts w = (Ok (), w')
     \<and> stdout w' = l @ [Line totals_text
         [ArgNat (unat (half_size (slot_size opts) div of_nat PAGE * (6 * cycles))), ArgNat 0, ArgNat (unat cycles), ArgF64 released],
       Line clean_text [ArgNat (unat (half_size (slot_size opts) div of_nat PAGE * (6 * cycles))), defect_rate (half_size (slot_size opts) div of_nat PAGE * (6 * cycles))]]"
proof -
  obtain d s' w2 w3 where e: "fold_io sched (soak_turn fuel K opts ram d)
        \<lparr>threads = replicate (unat (soak_vcpus opts)) Fresh, s_stats = no_stats, burst = None\<rparr> w2 = (Ok s', w3)"
    "soak_run fuel K sched ram opts w = then_io (case burst s' of Some (Inr pid) \<Rightarrow> drop_guard K pid | _ \<Rightarrow> ret ()) (soak_report (s_stats s')) w3"
    "mismatches (s_stats s') = 0" "\<forall>p\<in>set (threads s'). p = Finished"
    using soak_run_ends [OF assms(1-4)] assms(5) by blast
  show ?thesis using clean_report [OF e(3), where b = "burst s'" and K = K and w = w3] e(2) totals(1) [OF e(1,4)] by auto
qed


lemma plat_quiet: "plat_sys c x m = (p, x', m') \<Longrightarrow> quiet c \<Longrightarrow> \<forall>v. c \<noteq> HvVcpuRun v \<Longrightarrow> m' = m \<and> tbl x' = tbl x"
  by (cases c) auto

lemma plat_faithful: "faithful_host plat_kernel plat_view clock"
proof -
  have "effect_law plat_kernel plat_view"
    unfolding effect_law_def using plat_quiet
    by (auto simp: plat_kernel_def plat_view_def success_def differs_in_def split: if_splits)
  moreover have u: "ucast (ucast k :: u64) = k" for k :: u32 by (rule bit_word_eqI) (simp add: bit_ucast_iff)
  moreover have "progress_law plat_kernel plat_view clock"
    unfolding progress_law_def
  proof (intro allI impI)
    fix c x m p x' m' assume "k_sys plat_kernel c x m = (p, x', m')"
    then show "v_cancels plat_view x' \<le> v_cancels plat_view x \<and> clock x + (case c of Sleep ms \<Rightarrow> ms * 1000000 | _ \<Rightarrow> 0) \<le> clock x' \<and>
     (c = Now \<longrightarrow> unat (rv p) = min (clock x) (2 ^ 64 - 1)) \<and> (\<forall>k. c = TaskInfo TASK_VM_INFO k \<longrightarrow> rc p = 0 \<and> ucast (rv p) = k) \<and>
     (c = HvVcpuCreate \<longrightarrow> rc p = 0 \<longrightarrow> vcpu_contract plat_kernel plat_view (rv p))"
      using plat_contract by (cases c) (auto simp: plat_view_def plat_kernel_def success_def plat_run_def unat_of_nat64 u split: if_splits option.splits)
  qed
  ultimately show ?thesis by (simp add: faithful_host_def)
qed

definition soak_options :: options where
  "soak_options = default_options\<lparr>size_gb := 1, vcpus := 2, soak_minutes := 1\<rparr>"

lemma soak_options_start:
  "\<exists>mem. soak_start plat_view clock 1 0x4000 0x8000 soak_options (boot 0x4000 0x8000 0x40000000 0 mem)"
proof -
  obtain w1 :: "plat world" where w1: "code_loaded 0x4000 (wmem w1)" "\<forall>x. x < 0x4000 \<or> 0x4000 + PAGE \<le> x \<longrightarrow> wmem w1 x = 0"
    using write_code_page_result [where K = plat_kernel and code = "0x4000" and w = "boot 0x4000 0x8000 0x40000000 0 (\<lambda>_. 0)"]
    by (auto simp: plat_kernel_def boot_def)
  have v: "push_bit 30 (size_gb soak_options) = (0x40000000 :: usize)" "soak_minutes soak_options = 1"
    by (simp_all add: soak_options_def default_options_def push_bit_eq_mult)
  have "guest_ready 0x8000 (unat (0x40000000 :: usize)) 0x4000 (vm_s2 0x4000 0x8000 0x40000000) (wmem w1)"
    by (rule vm_s2_ready [OF w1(1)]) (simp_all add: PAGE_def RAM_GPA_def)
  then show ?thesis unfolding soak_start_def v
    using w1(2) by (intro exI [of _ "wmem w1"]) (auto simp: plat_view_def boot_def PAGE_def)
qed

lemma soak_options_ok: "paged_slots soak_options" "long_enough soak_options (replicate 4322 (WorkerTurn 0) @ PressureTurn # replicate 4322 (WorkerTurn 1))"
    "succeeds plat_kernel soak_options"
proof -
  have v: "soak_vcpus soak_options = 2" "push_bit 30 (size_gb soak_options) = (0x40000000 :: usize)" "soak_minutes soak_options = 1"
    by (simp_all add: soak_vcpus_def soak_options_def default_options_def push_bit_eq_mult)
  then have "slot_size soak_options = 0x20000000" by (simp add: slot_size_def)
  then show "paged_slots soak_options" by (simp add: paged_slots_def PAGE_def)
  have c: "count_list (replicate n x) y = (if x = y then n else 0)" for n :: nat and x y :: turn by (induction n) auto
  have "i = 0 \<or> i = 1" if "i < unat (soak_vcpus soak_options)" for i using that unfolding v by (simp add: less_2_cases_iff)
  then show "long_enough soak_options (replicate 4322 (WorkerTurn 0) @ PressureTurn # replicate 4322 (WorkerTurn 1))"
    unfolding long_enough_def v(3) by (fastforce simp: c)
  show "succeeds plat_kernel soak_options"
    by (auto simp: succeeds_def plat_kernel_def success_def soak_options_def default_options_def)
qed

theorem soak_no_false_alarm_witness:
  "\<exists>mem w' checks. soak_run 1 plat_kernel (replicate 4322 (WorkerTurn 0) @ PressureTurn # replicate 4322 (WorkerTurn 1)) 0x8000 soak_options
       (boot 0x4000 0x8000 0x40000000 0 mem) = (Ok (), w')
     \<and> last (stdout w') = Line clean_text [ArgNat (unat checks), defect_rate checks]"
  using soak_no_false_alarm [OF plat_faithful soak_options_ok(1) _ soak_options_ok(2)] soak_options_start by blast

theorem soak_report_exact_witness:
  "\<exists>mem w' cycles. soak_run 1 plat_kernel (replicate 4322 (WorkerTurn 0) @ PressureTurn # replicate 4322 (WorkerTurn 1)) 0x8000 soak_options
       (boot 0x4000 0x8000 0x40000000 0 mem) = (Ok (), w')
     \<and> last (stdout w') = Line clean_text [ArgNat (unat (0x4000 * (6 * cycles :: u64))), defect_rate (0x4000 * (6 * cycles :: u64))]"
proof -
  obtain mem where m: "soak_start plat_view clock 1 0x4000 0x8000 soak_options (boot 0x4000 0x8000 0x40000000 0 mem)" using soak_options_start by blast
  have h: "half_size (slot_size soak_options) div of_nat PAGE = 0x4000"
    by (simp add: half_size_def slot_size_def soak_vcpus_def soak_options_def default_options_def push_bit_eq_mult PAGE_def)
  show ?thesis
    using soak_report_exact [OF plat_faithful soak_options_ok(1) m soak_options_ok(2,3), unfolded h]
    by (elim exE conjE) (intro exI conjI, assumption, simp)
qed

end
