(* ===== verification/Background.thy ===== *)
theory Background
  imports Fleet_Sim Soak_Frame
begin

text \<open>
  A thread in the background of another: it may do what the relation \<open>R\<close> allows, which leaves the
  assertions of the main thread alone, and it makes no mark. Operations of the main thread lead
  from one assertion to the next and make the marks they are said to make.
\<close>

fun mark_event :: "line \<Rightarrow> string list" where
  "mark_event (Line f [_, ArgStr e]) = (if f = ''MARK,{:.1},{event}'' then [e] else [])"
| "mark_event _ = []"

definition marks :: "'x world \<Rightarrow> string list" where
  "marks w = concat (map mark_event (stdout w))"

definition pause :: "('x world \<Rightarrow> 'x world \<Rightarrow> bool) \<Rightarrow> 'x world \<Rightarrow> 'x world \<Rightarrow> bool" where
  "pause R w w' \<longleftrightarrow> R w w' \<and> marks w' = marks w"

definition persists :: "('x world \<Rightarrow> 'x world \<Rightarrow> bool) \<Rightarrow> ('x world \<Rightarrow> bool) \<Rightarrow> bool" where
  "persists R I \<longleftrightarrow> (\<forall>w w'. R w w' \<longrightarrow> I w \<longrightarrow> I w')"

definition idles :: "('x world \<Rightarrow> 'x world \<Rightarrow> bool) \<Rightarrow> ('x, 'a) io \<Rightarrow> bool" where
  "idles R f \<longleftrightarrow> (\<forall>w. ends f w (\<lambda>_ w'. pause R w w'))"

text \<open>Calls that do no more than \<open>R\<close> allows.\<close>

definition idle_call :: "('x world \<Rightarrow> 'x world \<Rightarrow> bool) \<Rightarrow> 'x kernel \<Rightarrow> call \<Rightarrow> bool" where
  "idle_call R K c \<longleftrightarrow> (\<forall>w p w'. sys K c w = (Ok p, w') \<longrightarrow> R w w')"

text \<open>An operation that returns, from one assertion to another, and the marks it makes.\<close>

definition goes :: "('x world \<Rightarrow> bool) \<Rightarrow> ('x, unit) io \<Rightarrow> ('x world \<Rightarrow> bool) \<Rightarrow> string list \<Rightarrow> bool" where
  "goes I f J es \<longleftrightarrow> (\<forall>w. I w \<longrightarrow> (\<exists>w'. f w = (Ok (), w') \<and> J w' \<and> marks w' = marks w @ es))"

inductive all_go :: "('x world \<Rightarrow> 'x world \<Rightarrow> bool) \<Rightarrow> ('x world \<Rightarrow> bool) \<Rightarrow> ('x, unit) io list \<Rightarrow> ('x world \<Rightarrow> bool) \<Rightarrow> string list \<Rightarrow> bool" for R where
  none: "persists R I \<Longrightarrow> all_go R I [] I []"
| more: "persists R I \<Longrightarrow> goes I f M es \<Longrightarrow> all_go R M fs J es' \<Longrightarrow> es'' = es @ es' \<Longrightarrow> all_go R I (f # fs) J es''"

lemma all_go_append: "all_go R I fs M es \<Longrightarrow> all_go R M fs' J es' \<Longrightarrow> all_go R I (fs @ fs') J (es @ es')"
  by (induction rule: all_go.induct) (auto intro: all_go.intros)

lemma all_go_chain:
  assumes "persists R (I n)" "\<And>i. i < n \<Longrightarrow> all_go R (I i) (h i) (I (Suc i)) [e i]"
  shows "all_go R (I 0) (concat (map h [0..<n])) (I n) (map e [0..<n])"
  using assms
proof (induction n)
  case (Suc n)
  have s: "all_go R (I n) (h n) (I (Suc n)) [e n]" using Suc.prems by simp
  then have "persists R (I n)" by (cases rule: all_go.cases) simp_all
  then show ?case using all_go_append [OF Suc.IH s] Suc.prems by simp
qed (simp add: none)

lemma goes_call:
  assumes "\<And>w p w'. I w \<Longrightarrow> sys K c w = (Ok p, w') \<Longrightarrow> rc p = 0 \<and> J w'"
    and "\<And>p w. rc p = 0 \<Longrightarrow> f p w = (Ok (), w)"
  shows "goes I (bind_io (sys K c) f) J []"
  unfolding goes_def
proof (intro allI impI)
  fix w assume I: "I w"
  obtain p w1 where s: "sys K c w = (Ok p, w1)" using sys_total by blast
  then have "rc p = 0" "J w1" "marks w1 = marks w" using assms(1) [OF I s] sys_result(2) [OF s] by (simp_all add: marks_def)
  then show "\<exists>w'. bind_io (sys K c) f w = (Ok (), w') \<and> J w' \<and> marks w' = marks w @ []"
    using s assms(2) by (intro exI [of _ w1]) (simp add: bind_io_def)
qed

lemma sys_pause: "idle_call R K c \<Longrightarrow> sys K c w = (Ok p, w') \<Longrightarrow> pause R w w'"
  using sys_result(2) [of K c w p w'] by (auto simp: idle_call_def pause_def marks_def)

text \<open>What is asked of \<open>R\<close>: it is a preorder, and printing is allowed.\<close>

locale background =
  fixes R :: "'x world \<Rightarrow> 'x world \<Rightarrow> bool"
  assumes refl: "R w w"
    and trans: "R w w' \<Longrightarrow> R w' w'' \<Longrightarrow> R w w''"
    and prints: "R w w' \<Longrightarrow> R w (w'\<lparr>stdout := ls\<rparr>)"
begin

lemma pause_refl: "pause R w w"
  by (simp add: pause_def refl)

lemma pause_trans: "pause R w w' \<Longrightarrow> pause R w' w'' \<Longrightarrow> pause R w w''"
  by (auto simp: pause_def intro: trans)

lemma idles_bind: "idles R f \<Longrightarrow> (\<And>a. idles R (g a)) \<Longrightarrow> idles R (bind_io f g)"
  unfolding idles_def ends_bind
proof
  fix w assume f: "\<forall>w. ends f w (\<lambda>_ w'. pause R w w')" and g: "\<And>a. \<forall>w. ends (g a) w (\<lambda>_ w'. pause R w w')"
  have "ends (g a) w' (\<lambda>_ w'. pause R w w')" if "pause R w w'" for a w'
    by (rule ends_mono [OF g [rule_format]]) (use pause_trans [OF that] in auto)
  then show "ends f w (\<lambda>r w'. case r of None \<Rightarrow> pause R w w' | Some a \<Rightarrow> ends (g a) w' (\<lambda>_ w'. pause R w w'))"
    by (intro ends_mono [OF f [rule_format]]) (auto split: option.split)
qed

lemma idles_then: "idles R f \<Longrightarrow> idles R g \<Longrightarrow> idles R (then_io f g)"
  unfolding then_io_def by (rule idles_bind)

lemma idles_ret: "idles R (ret a)" "idles R (assert_io b m)" "mark_event (Line s as) = [] \<Longrightarrow> idles R (println s as)"
  using refl prints by (auto simp: idles_def pause_def marks_def)

lemma idles_read: "idles R (\<lambda>w. (Ok (f w), w))"
  by (simp add: idles_def ends_def pause_refl)

lemma idles_sys: "idle_call R K c \<Longrightarrow> idles R (sys K c)" "idle_call R K c \<Longrightarrow> idles R (sys_ignore K c)"
proof -
  show s: "idles R (sys K c)" if "idle_call R K c" unfolding idles_def by (intro allI ends_sys) (rule sys_pause [OF that])
  show "idles R (sys_ignore K c)" if "idle_call R K c" unfolding sys_ignore_def by (intro idles_bind s idles_ret that)
qed

lemma idles_now: "idle_call R K Now \<Longrightarrow> idles R (now K)"
  unfolding now_def by (intro idles_bind idles_sys idles_ret)

lemmas idles_intros = idles_bind idles_then idles_ret idles_read idles_sys idles_now

lemma rounds_idle:
  assumes "idles R body"
  shows "\<exists>up' w'. rounds_of n body up w = (Ok up', w') \<and> pause R w w'"
proof (induction n arbitrary: up w)
  case (Suc n)
  show ?case
  proof (cases up)
    case True
    have "ends (in_thread body) w (\<lambda>r w'. r \<noteq> None \<and> pause R w w')" unfolding ends_thread using assms by (simp add: idles_def)
    then obtain r w1 where r: "in_thread body w = (Ok r, w1)" "pause R w w1"
      by (cases "in_thread body w") (auto simp: ends_def split: outcome.splits)
    obtain up' w' where w': "rounds_of n body (r \<noteq> None) w1 = (Ok up', w')" "pause R w1 w'" using Suc by blast
    show ?thesis using True r w' pause_trans [OF r(2) w'(2)] by (auto simp: bind_io_def)
  qed (simp add: ret_def pause_refl exI [of _ False])
qed (simp add: ret_def pause_refl)

lemma beside_goes:
  assumes "idles R body" "all_go R I fs J es" "I w"
  shows "\<exists>up' w'. beside body fs pace up w = (Ok up', w') \<and> J w' \<and> marks w' = marks w @ es"
  using assms(2,3)
proof (induction arbitrary: w pace up rule: all_go.induct)
  case (none I)
  then show ?case using rounds_idle [OF assms(1), of "next_rounds pace" up w] by (auto simp: persists_def pause_def)
next
  case (more I f M es fs J es' es'')
  obtain up1 w1 where w1: "rounds_of (next_rounds pace) body up w = (Ok up1, w1)" "pause R w w1" using rounds_idle [OF assms(1)] by blast
  then have "I w1" using more.prems more.hyps(1) unfolding persists_def pause_def by blast
  then obtain w2 where w2: "f w1 = (Ok (), w2)" "M w2" "marks w2 = marks w1 @ es" using more.hyps(2) by (auto simp: goes_def)
  obtain up' w' where "beside body fs (tl pace) up1 w2 = (Ok up', w')" "J w'" "marks w' = marks w2 @ es'" using more.IH [OF w2(2)] by blast
  then show ?case using w1 w2 more.hyps(4) by (auto simp: bind_io_def then_io_def pause_def)
qed

lemma goes_mark:
  assumes "idle_call R K Now" "persists R I"
  shows "goes I (mark K t0 e) I [e]"
  unfolding goes_def
proof (intro allI impI)
  fix w assume I: "I w"
  obtain p w1 where s: "sys K Now w = (Ok p, w1)" using sys_total by blast
  have p: "pause R w w1" by (rule sys_pause [OF assms(1) s])
  let ?w = "w1\<lparr>stdout := stdout w1 @ [Line ''MARK,{:.1},{event}'' [ArgF64 (as_secs (unat (rv p) - t0)), ArgStr e]]\<rparr>"
  have "R w ?w" using p prints by (simp add: pause_def)
  then have "I ?w" using assms(2) I by (auto simp: persists_def)
  then show "\<exists>w'. mark K t0 e w = (Ok (), w') \<and> I w' \<and> marks w' = marks w @ [e]"
    using s p by (intro exI [of _ ?w]) (simp add: mark_def now_def bind_io_def ret_def println_def marks_def pause_def)
qed

lemma goes_sleep:
  assumes "idle_call R K (Sleep ms)" "persists R I"
  shows "goes I (sys_ignore K (Sleep ms)) I []"
  unfolding goes_def
proof (intro allI impI)
  fix w assume I: "I w"
  obtain p w1 where s: "sys K (Sleep ms) w = (Ok p, w1)" using sys_total by blast
  have "pause R w w1" by (rule sys_pause [OF assms(1) s])
  then show "\<exists>w'. sys_ignore K (Sleep ms) w = (Ok (), w') \<and> I w' \<and> marks w' = marks w @ []"
    using s assms(2) I by (intro exI [of _ w1]) (auto simp: sys_ignore_def bind_io_def ret_def pause_def persists_def)
qed

text \<open>A mark and a sleep, as every step of the two fleet runs ends.\<close>

lemma mark_and_sleep:
  assumes "idle_call R K Now" "idle_call R K (Sleep ms)" "persists R I"
  shows "all_go R I [mark K t0 e, sys_ignore K (Sleep ms)] I [e]"
  by (rule more [OF assms(3) goes_mark more [OF assms(3) goes_sleep none]]) (use assms in simp_all)

end

end
