(* ===== verification/Fleet_Correct.thy ===== *)
theory Fleet_Correct
  imports Background Soak_Sound
begin

text \<open>
  The fleet simulation on a host that keeps its contract: it runs to its end whatever the sampler
  does beside it, its marks come in their order and complete, and all of guest RAM is mapped again.
\<close>

section \<open>What the sampler leaves alone\<close>

definition rests :: "'x hv_view \<Rightarrow> 'x world \<Rightarrow> 'x world \<Rightarrow> bool" where
  "rests V w w' \<longleftrightarrow> still V w w' \<and> v_cancels V (ext w') \<le> v_cancels V (ext w)"

interpretation hv: background "rests V" for V
  by unfold_locales (auto simp: rests_def still_def)

lemma quiet_rests: "faithful_host K V clk \<Longrightarrow> quiet c \<Longrightarrow> (\<And>v. c \<noteq> HvVcpuRun v) \<Longrightarrow> idle_call (rests V) K c"
  unfolding idle_call_def rests_def by (intro allI impI conjI call_still call_progress(1))

lemma sample_idles:
  assumes "faithful_host K V clk"
  shows "idles (rests V) (sample K t0)"
  unfolding sample_def ledger_read_def Let_def
  by (intro hv.idles_intros quiet_rests [OF assms]) simp_all

text \<open>Guest RAM is mapped and the code page in place; the same with one region taken out.\<close>

definition ready :: "'x hv_view \<Rightarrow> nat \<Rightarrow> nat \<Rightarrow> options \<Rightarrow> nat \<Rightarrow> 'x world \<Rightarrow> bool" where
  "ready V code ram opts fuel w \<longleftrightarrow> guest_ready ram (ram_bytes opts) code (v_s2 V (ext w)) (wmem w) \<and> v_cancels V (ext w) < fuel"

definition ready_but :: "'x hv_view \<Rightarrow> nat \<Rightarrow> nat \<Rightarrow> options \<Rightarrow> nat \<Rightarrow> u64 \<Rightarrow> usize \<Rightarrow> 'x world \<Rightarrow> bool" where
  "ready_but V code ram opts fuel gpa len w \<longleftrightarrow> (\<exists>s. guest_ready ram (ram_bytes opts) code s (wmem w) \<and> v_s2 V (ext w) = s2_unmap gpa len s)
     \<and> v_cancels V (ext w) < fuel"

lemma ready_persists: "persists (rests V) (ready V code ram opts fuel)" "persists (rests V) (ready_but V code ram opts fuel gpa len)"
  by (auto simp: persists_def ready_def ready_but_def rests_def still_def)

lemma goes_touch:
  assumes "vcpu_contract K V vcpu" "good_range a b (ram_bytes opts)"
  shows "goes (ready V code ram opts fuel) (run_touch_range fuel K vcpu a b) (ready V code ram opts fuel) []"
  unfolding goes_def
proof (intro allI impI)
  fix w assume "ready V code ram opts fuel w"
  then have "pass_pre K V vcpu ram (ram_bytes opts) code fuel a b w" using assms by (simp add: ready_def window_pre_def)
  from run_touch_range_result [OF this] \<open>ready V code ram opts fuel w\<close>
  show "\<exists>w'. run_touch_range fuel K vcpu a b w = (Ok (), w') \<and> ready V code ram opts fuel w' \<and> marks w' = marks w @ []"
    by (auto simp: kept_in_def ready_def marks_def)
qed

lemma ready_mapped:
  assumes "guest_ready ram sz code s m" "unat off + unat len \<le> sz" "unat off + unat len < 2 ^ 64"
  shows "mapped_at s (RAM_GPA + off) len (ram + unat off)"
  unfolding mapped_at_def
proof (intro allI impI)
  fix a assume a: "a - (RAM_GPA + off) < len"
  let ?d = "a - (RAM_GPA + off)"
  have e: "a = RAM_GPA + of_nat (unat off + unat ?d)" by simp
  have "unat off + unat ?d < sz" using a assms(2) by (simp add: word_less_nat_alt)
  then have "s (RAM_GPA + of_nat (unat off + unat ?d)) = Some (ram + (unat off + unat ?d), RW)" using assms(1) unfolding guest_window_def by blast
  then show "s a = Some (ram + unat off + unat ?d, RW)" using e by (simp add: add.assoc)
qed

lemma goes_unmap:
  assumes "faithful_host K V clk" "succeeds K opts"
  shows "goes (ready V code ram opts fuel) (unmap_range K gpa region a) (ready_but V code ram opts fuel gpa region) []"
  unfolding unmap_range_def check_sys_def
proof (rule goes_call)
  fix w p w' assume w: "ready V code ram opts fuel w" and s: "sys K (HvVmUnmap gpa region) w = (Ok p, w')"
  have "rc p = 0" using call_succeeds(1) [OF assms(2) s] by simp
  then show "rc p = 0 \<and> ready_but V code ram opts fuel gpa region w'"
    using w call_unmap [OF assms(1) s] call_progress(1) [OF assms(1) s] by (auto simp: ready_def ready_but_def)
qed (simp add: check_def ret_def)

lemma goes_advise:
  assumes "faithful_host K V clk" "succeeds K opts" "off + unat region \<le> ram_bytes opts"
  shows "goes (ready_but V code ram opts fuel gpa len) (advise K (ram + off) region adv a) (ready_but V code ram opts fuel gpa len) []"
  unfolding advise_def
proof (rule goes_call)
  fix w p w' assume w: "ready_but V code ram opts fuel gpa len w" and s: "sys K (Madvise (ram + off) region adv) w = (Ok p, w')"
  obtain s' where g: "guest_ready ram (ram_bytes opts) code s' (wmem w)" "v_s2 V (ext w) = s2_unmap gpa len s'" using w by (auto simp: ready_but_def)
  have r: "differs_in (ram + off) (unat region) (wmem w) (wmem w')" "v_s2 V (ext w') = v_s2 V (ext w)" using call_release [OF assms(1) s] by blast+
  have "code + PAGE \<le> ram + off \<or> ram + off + unat region \<le> code" using g(1) assms(3) by (auto simp: guest_window_def)
  then have "code_loaded code (wmem w') = code_loaded code (wmem w)" by (rule code_loaded_cong [OF r(1)])
  then have "guest_ready ram (ram_bytes opts) code s' (wmem w')" using g(1) by (simp add: guest_window_def)
  then show "rc p = 0 \<and> ready_but V code ram opts fuel gpa len w'"
    using w g(2) r(2) call_succeeds(1) [OF assms(2) s] call_progress(1) [OF assms(1) s] by (auto simp: ready_but_def)
qed (simp add: assert_io_def ret_def)

lemma goes_map:
  assumes "faithful_host K V clk" "succeeds K opts" "unat off + unat region \<le> ram_bytes opts" "unat off + unat region < 2 ^ 64"
  shows "goes (ready_but V code ram opts fuel (RAM_GPA + off) region) (map_rw K (ram + unat off) (RAM_GPA + off) region a) (ready V code ram opts fuel) []"
  unfolding map_rw_def RW_def [symmetric] check_sys_def
proof (rule goes_call)
  let ?down = "ready_but V code ram opts fuel (RAM_GPA + off) region"
  fix w p w' assume w: "?down w" and s: "sys K (HvVmMap (ram + unat off) (RAM_GPA + off) region RW) w = (Ok p, w')"
  obtain s' where g: "guest_ready ram (ram_bytes opts) code s' (wmem w)" "v_s2 V (ext w) = s2_unmap (RAM_GPA + off) region s'" using w by (auto simp: ready_but_def)
  have z: "rc p = 0" using call_succeeds(1) [OF assms(2) s] by simp
  have "v_s2 V (ext w') = s'" "wmem w' = wmem w"
    using call_map [OF assms(1) s] z g(2) remap_restores [OF ready_mapped [OF g(1) assms(3,4)]] by simp_all
  then show "rc p = 0 \<and> ready V code ram opts fuel w'" using w g(1) z call_progress(1) [OF assms(1) s] by (auto simp: ready_but_def ready_def)
qed (simp add: check_def ret_def)

section \<open>A fleet\<close>

text \<open>A host that keeps its contract and refuses nothing, and a vCPU of its.\<close>

definition willing :: "'x kernel \<Rightarrow> 'x hv_view \<Rightarrow> ('x \<Rightarrow> nat) \<Rightarrow> options \<Rightarrow> u64 \<Rightarrow> bool" where
  "willing K V clk opts vcpu \<longleftrightarrow> faithful_host K V clk \<and> succeeds K opts \<and> vcpu_contract K V vcpu"

text \<open>A fleet that fits, computed without wrap-around.\<close>

definition fleet_room :: "options \<Rightarrow> bool" where
  "fleet_room opts \<longleftrightarrow> unat (push_bit 20 (service_mib opts)) * unat (services opts) < 2 ^ 64 \<and> push_bit 20 (service_mib opts) \<noteq> 0 \<and> fleet_fits opts"

lemma push_bit_dvd: "n \<le> 64 \<Longrightarrow> 2 ^ n dvd unat (push_bit n (x :: usize))"
proof -
  assume "n \<le> 64"
  then have "2 ^ n dvd (2 :: nat) ^ 64" by (rule le_imp_power_dvd)
  then have "2 ^ n dvd (unat x * 2 ^ n) mod 2 ^ 64" by (intro dvd_mod) simp_all
  then show ?thesis by (simp only: unsigned_push_bit_eq take_bit_eq_mod len_num0 len_num1 len_bit0) (simp add: push_bit_eq_mult)
qed

lemma service_room:
  assumes "fleet_room opts" "i < unat (services opts)"
  defines "r \<equiv> push_bit 20 (service_mib opts)"
  shows "unat (of_nat i * r) + unat r \<le> ram_bytes opts" "unat (of_nat i * r) + unat r < 2 ^ 64"
    "good_range (of_nat i * r) ((of_nat i + 1) * r) (ram_bytes opts)"
proof -
  have fit: "unat r * unat (services opts) < 2 ^ 64" "r * services opts \<le> push_bit 30 (size_gb opts)" "r \<noteq> 0"
    using assms(1) by (simp_all add: fleet_room_def fleet_fits_def r_def)
  note R = region_inside [OF fit(1,2) assms(2)]
  show le: "unat (of_nat i * r) + unat r \<le> ram_bytes opts" using R by simp
  show lt: "unat (of_nat i * r) + unat r < 2 ^ 64" using R unat_lt64 [of "push_bit 30 (size_gb opts) :: usize"] by simp
  have "2 ^ 20 dvd unat r" unfolding r_def by (rule push_bit_dvd) simp
  then have "2 ^ 20 dvd unat (of_nat i * r)" using R(1) by (simp only: dvd_mult)
  moreover have "PAGE dvd 2 ^ 20" by (simp add: PAGE_def)
  ultimately have d: "PAGE dvd unat (of_nat i * r)" by (rule dvd_trans [rotated])
  have s: "(of_nat i + 1) * r = of_nat i * r + r" by (simp add: distrib_right)
  have "unat (of_nat i * r + r) = unat (of_nat i * r) + unat r" using lt by (simp add: unat_word_ariths)
  moreover have "0 < unat r" using fit(3) by (simp add: unat_gt_0)
  ultimately show "good_range (of_nat i * r) ((of_nat i + 1) * r) (ram_bytes opts)"
    unfolding s using le d by (simp add: good_range_def word_less_nat_alt)
qed

lemma service_goes:
  assumes "willing K V clk opts vcpu" "fleet_room opts" "i < unat (services opts)"
  defines "r \<equiv> push_bit 20 (service_mib opts)"
  shows "all_go (rests V) (ready V code ram opts fuel) (service_start fuel K vcpu t0 r (of_nat i)) (ready V code ram opts fuel) [''service-start-'' @ show_nat (Suc i)]"
    and "all_go (rests V) (ready V code ram opts fuel) (service_stop K t0 ram r (of_nat i)) (ready V code ram opts fuel) [''service-stop-'' @ show_nat (Suc i)]"
proof -
  have H: "faithful_host K V clk" "succeeds K opts" "vcpu_contract K V vcpu" using assms(1) by (simp_all add: willing_def)
  note R = service_room [OF assms(2,3), folded r_def]
  note p = ready_persists(1) [of V code ram opts fuel] and q = ready_persists(2) [of V code ram opts fuel "RAM_GPA + of_nat i * r" r]
  have "Suc i < 2 ^ 64" using assms(3) unat_lt64 [of "services opts"] by simp
  then have n: "unat (of_nat i + 1 :: usize) = Suc i" using unat_of_nat64 [of "Suc i"] by (simp add: add.commute)
  note c = quiet_rests [OF H(1)]
  have t: "all_go (rests V) (ready V code ram opts fuel) [mark K t0 e, sys_ignore K (Sleep ms)] (ready V code ram opts fuel) [e]" for e ms
    by (rule hv.mark_and_sleep [OF c c p]) simp_all
  show "all_go (rests V) (ready V code ram opts fuel) (service_start fuel K vcpu t0 r (of_nat i)) (ready V code ram opts fuel) [''service-start-'' @ show_nat (Suc i)]"
    unfolding service_start_def n by (rule more [OF p goes_touch [OF H(3) R(3)] t]) simp
  show "all_go (rests V) (ready V code ram opts fuel) (service_stop K t0 ram r (of_nat i)) (ready V code ram opts fuel) [''service-stop-'' @ show_nat (Suc i)]"
    unfolding service_stop_def Let_def n
    by (rule more [OF p goes_unmap [OF H(1,2)] more [OF q goes_advise [OF H(1,2) R(1)] more [OF q goes_map [OF H(1,2) R(1,2)] t]]]) simp_all
qed

definition fleet_marks :: "nat \<Rightarrow> string list" where
  "fleet_marks n = [''boot''] @ map (\<lambda>i. ''service-start-'' @ show_nat (Suc i)) [0..<n] @ [''hold'']
     @ map (\<lambda>i. ''service-stop-'' @ show_nat (Suc i)) [0..<n] @ [''tail'', ''end'']"

lemma fleet_ops_go:
  assumes "willing K V clk opts vcpu" "fleet_room opts"
  shows "all_go (rests V) (ready V code ram opts fuel) (fleet_ops fuel K vcpu ram opts t0) (ready V code ram opts fuel) (fleet_marks (unat (services opts)))"
proof -
  let ?I = "ready V code ram opts fuel" and ?r = "push_bit 20 (service_mib opts)" and ?n = "unat (services opts)"
  have H: "faithful_host K V clk" using assms(1) by (simp add: willing_def)
  note p = ready_persists(1) [of V code ram opts fuel] and c = quiet_rests [OF H]
  have pair: "all_go (rests V) ?I [mark K t0 e, sys_ignore K (Sleep ms)] ?I [e]" for e ms by (rule hv.mark_and_sleep [OF c c p]) simp_all
  have final: "all_go (rests V) ?I [mark K t0 ''end''] ?I [''end'']" by (rule more [OF p hv.goes_mark [OF c p] none [OF p]]) simp_all
  have each: "all_go (rests V) ?I (concat (map f (map of_nat [0..<?n]))) ?I (map e [0..<?n])"
    if "\<And>i. i < ?n \<Longrightarrow> all_go (rests V) ?I (f (of_nat i)) ?I [e i]" for f :: "usize \<Rightarrow> ('a, unit) io list" and e
    using all_go_chain [where I = "\<lambda>_. ?I" and n = ?n and h = "\<lambda>i. f (of_nat i)" and e = e] p that by (simp add: o_def)
  have tail: "all_go (rests V) ?I ([mark K t0 ''tail'', sys_ignore K (Sleep 30000)] @ [mark K t0 ''end'']) ?I ([''tail''] @ [''end''])"
    by (rule all_go_append [OF pair final])
  show ?thesis
    unfolding fleet_ops_def fleet_marks_def Let_def
    using tail by (intro all_go_append [OF pair] all_go_append [OF each] service_goes [OF assms]) simp_all
qed

text \<open>
  C19. The fleet simulation runs to its end, however the sampler thread is scheduled beside it: on a
  host that keeps its contract and fails no call, and for a fleet that fits in guest RAM without
  wrap-around and whose regions are not empty (\<^verbatim>\<open>--service-mib 0\<close>, which the program accepts, is not
  covered), its marks are those of the boot, of every service started, of the hold, of every service
  stopped, of the tail and of the end, in that order and once each, and it leaves all of guest RAM
  mapped and the guest's code in place.
\<close>

theorem fleet_completes:
  assumes "willing K V clk opts vcpu" "fleet_room opts" "ready V code ram opts fuel w"
  shows "\<exists>w'. fleet_run fuel K pace vcpu ram opts w = (Ok (), w')
     \<and> marks w' = marks w @ fleet_marks (unat (services opts)) \<and> ready V code ram opts fuel w'"
proof -
  have H: "faithful_host K V clk" using assms(1) by (simp add: willing_def)
  obtain q w1 where s: "sys K Now w = (Ok q, w1)" using sys_total by blast
  have p: "pause (rests V) w w1" by (rule sys_pause [OF quiet_rests [OF H] s]) simp_all
  then have "ready V code ram opts fuel w1" using assms(3) ready_persists(1) [of V code ram opts fuel] unfolding persists_def pause_def by blast
  from hv.beside_goes [OF sample_idles [OF H] fleet_ops_go [OF assms(1,2)] this, of "unat (rv q)" "unat (rv q)" pace True]
  obtain u w' where "beside (sample K (unat (rv q))) (fleet_ops fuel K vcpu ram opts (unat (rv q))) pace True w1 = (Ok u, w')"
    "ready V code ram opts fuel w'" "marks w' = marks w1 @ fleet_marks (unat (services opts))" by blast
  then show ?thesis
    using assms(2) s p by (intro exI [of _ w']) (simp add: fleet_run_def fleet_room_def now_def bind_io_def then_io_def assert_io_def ret_def pause_def)
qed

text \<open>Three services of 256 MiB in 1 GiB, on the platform model.\<close>

definition fleet_options :: options where
  "fleet_options = default_options\<lparr>size_gb := 1, services := 3, service_mib := 256\<rparr>"

theorem fleet_completes_witness:
  "\<exists>mem w'. fleet_run 1 plat_kernel [1, 0, 2] 0 0x8000 fleet_options (boot 0x4000 0x8000 0x40000000 0 mem) = (Ok (), w')
     \<and> marks w' = [''boot'', ''service-start-1'', ''service-start-2'', ''service-start-3'', ''hold'',
         ''service-stop-1'', ''service-stop-2'', ''service-stop-3'', ''tail'', ''end'']"
proof -
  let ?w = "\<lambda>mem. boot 0x4000 0x8000 0x40000000 0 mem"
  have v: "ram_bytes fleet_options = ram_bytes soak_options" "unat (services fleet_options) = 3" "push_bit 20 (service_mib fleet_options) = 0x10000000"
    "push_bit 30 (size_gb fleet_options) = (0x40000000 :: usize)" "services fleet_options = 3"
    by (simp_all add: fleet_options_def soak_options_def default_options_def push_bit_eq_mult)
  obtain mem where "soak_start plat_view clock 1 0x4000 0x8000 soak_options (?w mem)" using soak_options_start by blast
  then have m: "ready plat_view 0x4000 0x8000 fleet_options 1 (?w mem)" by (simp add: soak_start_def ready_def v(1))
  have k: "willing plat_kernel plat_view clock fleet_options 0"
    using plat_faithful plat_contract by (auto simp: willing_def succeeds_def plat_kernel_def success_def fleet_options_def default_options_def)
  have r: "fleet_room fleet_options" unfolding fleet_room_def fleet_fits_def v by simp
  have e: "[0..<3] = [0, 1, 2 :: nat]" by (simp add: upt_rec)
  have d: "show_nat (Suc 0) = ''1''" "show_nat (Suc 1) = ''2''" "show_nat (Suc 2) = ''3''" by code_simp+
  have "marks (?w mem) = []" by (simp add: marks_def boot_def)
  then show ?thesis
    using fleet_completes [OF k r m, of "[1, 0, 2]", unfolded v(2) fleet_marks_def e, simplified list.map d append.simps] by auto
qed

end
