(* ===== verification/Guest_Init.thy ===== *)
theory Guest_Init
  imports Calls
begin

text \<open>
  \<^verbatim>\<open>guest-init/src/main.rs\<close>: PID 1 of the Linux guest, a command server on the console. The
  kernel parameter stands for the guest's Linux here. A console line, the text of
  \<^verbatim>\<open>/proc/meminfo\<close> and the error number of a failed mount are what it reports after the call.
  A forked child runs the same code from the fork on, so the model follows the child too when
  the fork answers 0: a child that leaves its loop does so by \<^verbatim>\<open>_exit\<close>. The server loop and the
  child's loop have fuel.
\<close>

unbundle bit_operations_syntax

definition GIB :: usize where "GIB = push_bit 30 1"
definition STRIDE :: nat where "STRIDE = 4096"
definition EBUSY :: u64 where "EBUSY = 16"

definition store8 :: "nat \<Rightarrow> u8 \<Rightarrow> ('x, unit) io" where
  "store8 a v = (\<lambda>w. (Ok (), w\<lparr>wmem := (wmem w)(a := v)\<rparr>))"

definition read_text :: "'x kernel \<Rightarrow> ('x, string) io" where
  "read_text K = (\<lambda>w. (Ok (k_text K (ext w)), w))"

definition mount :: "'x kernel \<Rightarrow> string \<Rightarrow> string \<Rightarrow> ('x, unit) io" where
  "mount K fstype dir =
     then_io (sys_ignore K (CreateDirAll dir))
    (bind_io (sys K (Mount fstype dir)) (\<lambda>p.
     when_io (rc p \<noteq> 0 \<and> rv p \<noteq> EBUSY) (throw (Explicit ''mount''))))"

text \<open>\<^verbatim>\<open>for _ in 0..100\<close>: try to open the node, sleep, and give up after the last try.\<close>

primrec open_tries :: "nat \<Rightarrow> 'x kernel \<Rightarrow> bool \<Rightarrow> ('x, unit) io" where
  "open_tries 0 K wr = throw (Explicit ''/dev/hvc0 never appeared'')"
| "open_tries (Suc n) K wr = bind_io (sys K (OpenConsole wr)) (\<lambda>p.
     if rc p = 0 then ret () else then_io (sys_ignore K (Sleep 100)) (open_tries n K wr))"

definition open_console :: "'x kernel \<Rightarrow> bool \<Rightarrow> ('x, unit) io" where
  "open_console K wr = open_tries 100 K wr"

text \<open>\<^verbatim>\<open>str::lines\<close>: a line that ends in a newline also loses one carriage return before it, and an
  empty last piece is no line.\<close>

definition strip_cr :: "string \<Rightarrow> string" where
  "strip_cr s = (if s \<noteq> [] \<and> last s = char_of (13::nat) then butlast s else s)"

definition lines_of :: "string \<Rightarrow> string list" where
  "lines_of s = (let ps = split_on (char_of (10::nat)) s in
     map strip_cr (butlast ps) @ (if last ps = [] then [] else [last ps]))"

text \<open>\<^verbatim>\<open>trim_end_matches("kB")\<close>\<close>

function trim_kb :: "string \<Rightarrow> string" where
  "trim_kb s = (if 2 \<le> length s \<and> drop (length s - 2) s = ''kB'' then trim_kb (take (length s - 2) s) else s)"
  by pat_completeness auto
termination by (relation "measure length") auto

declare trim_kb.simps [simp del]

definition find_available :: "string list \<Rightarrow> u64 outcome" where
  "find_available ls = (case List.find (\<lambda>l. strip_prefix ''MemAvailable:'' l \<noteq> None) ls of
       None \<Rightarrow> Panic (Explicit ''MemAvailable not in /proc/meminfo'')
     | Some l \<Rightarrow> (case parse_u64 (trim (trim_kb (trim (the (strip_prefix ''MemAvailable:'' l))))) of
           None \<Rightarrow> Panic (Expect ''parse MemAvailable'')
         | Some n \<Rightarrow> Ok n))"

definition lift :: "'a outcome \<Rightarrow> ('x, 'a) io" where
  "lift r = (case r of Ok a \<Rightarrow> ret a | Panic p \<Rightarrow> throw p | OutOfFuel \<Rightarrow> out_of_fuel)"

definition mem_available_kib :: "'x kernel \<Rightarrow> ('x, u64) io" where
  "mem_available_kib K = bind_io (sys K ReadMeminfo) (\<lambda>p.
     if rc p \<noteq> 0 then throw (Expect ''read /proc/meminfo'')
     else bind_io (read_text K) (\<lambda>t. lift (find_available (lines_of t))))"

section \<open>A fleet child\<close>

text \<open>One slice of the working set made warm again, and the loop over the slices.\<close>

definition warm_slice :: "nat \<Rightarrow> usize \<Rightarrow> usize \<Rightarrow> ('x, unit) io" where
  "warm_slice base part slot =
    (let start = slot * part in
     for_io (step_by (unat start) (unat (start + part)) STRIDE) (\<lambda>off. store8 (base + off) 0x5A))"

primrec warm_loop :: "nat \<Rightarrow> 'x kernel \<Rightarrow> nat \<Rightarrow> usize \<Rightarrow> usize \<Rightarrow> ('x, int) io" where
  "warm_loop 0 K base part slot = out_of_fuel"
| "warm_loop (Suc fuel) K base part slot =
     then_io (warm_slice base part slot)
    (then_io (sys_ignore K (Sleep 500)) (warm_loop fuel K base part ((slot + 1) mod 8)))"

definition touch_bytes :: "nat \<Rightarrow> usize \<Rightarrow> ('x, unit) io" where
  "touch_bytes base len = for_io (step_by 0 (unat len) STRIDE) (\<lambda>off. store8 (base + off) 0xA5)"

definition fleet_child :: "nat \<Rightarrow> 'x kernel \<Rightarrow> usize \<Rightarrow> ('x, int) io" where
  "fleet_child fuel K m =
    (let len = push_bit 20 m in
     bind_io (sys K (Mmap 0 len [MAP_ANON, MAP_PRIVATE])) (\<lambda>p.
     if rv p = MAP_FAILED then then_io (sys_ignore K (ExitProcess 1)) (ret 1)
     else then_io (touch_bytes (unat (rv p)) len)
                  (warm_loop fuel K (unat (rv p)) (len div 8) 0)))"

section \<open>The command server\<close>

record init_state =
  held :: "(nat \<times> usize) list"
  fleet :: "u64 list"

text \<open>What a command ends in: a reply and the new state, or, in a forked child, its exit.\<close>

datatype served = Reply string init_state | ChildExit int

definition cmd_touch :: "'x kernel \<Rightarrow> string \<Rightarrow> init_state \<Rightarrow> ('x, served) io" where
  "cmd_touch K n s =
    (let gib = (case parse_u64 (trim n) of None \<Rightarrow> 0 | Some v \<Rightarrow> v); len = gib * GIB in
     bind_io (sys K (Mmap 0 len [MAP_ANON, MAP_PRIVATE])) (\<lambda>p.
     then_io (assert_io (rv p \<noteq> MAP_FAILED) ''guest mmap failed'')
    (then_io (touch_bytes (unat (rv p)) len)
             (ret (Reply (''TOUCHED '' @ show_nat (unat gib)) (s\<lparr>held := held s @ [(unat (rv p), len)]\<rparr>))))))"

definition cmd_free :: "'x kernel \<Rightarrow> init_state \<Rightarrow> ('x, served) io" where
  "cmd_free K s = then_io (for_io (held s) (\<lambda>(p, n). sys_ignore K (Munmap p n)))
     (ret (Reply ''FREED'' (s\<lparr>held := []\<rparr>)))"

definition cmd_mem :: "'x kernel \<Rightarrow> init_state \<Rightarrow> ('x, served) io" where
  "cmd_mem K s = bind_io (mem_available_kib K) (\<lambda>n. ret (Reply (''MEM '' @ show_nat (unat n)) s))"

text \<open>\<^verbatim>\<open>for _ in 0..k\<close> with \<^verbatim>\<open>fork\<close>; in a child the rest is the child's life.\<close>

primrec fork_loop :: "nat \<Rightarrow> nat \<Rightarrow> 'x kernel \<Rightarrow> usize \<Rightarrow> init_state \<Rightarrow> ('x, served) io" where
  "fork_loop 0 fuel K m s = ret (Reply (''FLEET-STARTED '' @ show_nat (length (fleet s))) s)"
| "fork_loop (Suc k) fuel K m s = bind_io (sys K Fork) (\<lambda>p.
     if rc p = - 1 then throw (Explicit ''fork'')
     else if rc p = 0 then bind_io (fleet_child fuel K m) (\<lambda>st. ret (ChildExit st))
     else fork_loop k fuel K m (s\<lparr>fleet := fleet s @ [of_int (rc p)]\<rparr>))"

definition word_arg :: "string list \<Rightarrow> nat \<Rightarrow> usize" where
  "word_arg ws i = (if i < length ws then (case parse_u64 (ws ! i) of None \<Rightarrow> 0 | Some v \<Rightarrow> v) else 0)"

definition cmd_start :: "nat \<Rightarrow> 'x kernel \<Rightarrow> string \<Rightarrow> init_state \<Rightarrow> ('x, served) io" where
  "cmd_start fuel K rest s = (let ws = split_whitespace rest in fork_loop (unat (word_arg ws 0)) fuel K (word_arg ws 1) s)"

text \<open>\<^verbatim>\<open>fleet.drain(..stop)\<close> panics when there are fewer than \<^verbatim>\<open>stop\<close> children.\<close>

definition cmd_stop :: "'x kernel \<Rightarrow> nat \<Rightarrow> init_state \<Rightarrow> ('x, served) io" where
  "cmd_stop K stop s =
    (if length (fleet s) < stop then throw (Explicit ''range end index out of range'')
     else then_io (for_io (take stop (fleet s)) (\<lambda>pid. then_io (sys_ignore K (Kill pid)) (sys_ignore K (WaitChild pid))))
       (let s' = s\<lparr>fleet := drop stop (fleet s)\<rparr> in ret (Reply (''FLEET-STOPPED '' @ show_nat (length (fleet s'))) s')))"

definition serve :: "nat \<Rightarrow> 'x kernel \<Rightarrow> string \<Rightarrow> init_state \<Rightarrow> ('x, served) io" where
  "serve fuel K line s = (case strip_prefix ''touch '' line of
       Some n \<Rightarrow> cmd_touch K n s
     | None \<Rightarrow>
        (if line = ''free'' then cmd_free K s
         else if line = ''mem'' then cmd_mem K s
         else (case strip_prefix ''fleet start '' line of
             Some rest \<Rightarrow> cmd_start fuel K rest s
           | None \<Rightarrow>
              (if line = ''fleet stop-one'' \<or> line = ''fleet stop''
               then cmd_stop K (if line = ''fleet stop'' then length (fleet s) else 1) s
               else ret (Reply (''ERR unknown command: '' @ line) s)))))"

definition write_console :: "'x kernel \<Rightarrow> string \<Rightarrow> ('x, unit) io" where
  "write_console K line = bind_io (sys K (ConsoleWrite line)) (\<lambda>p.
     if rc p = 0 then ret () else throw (Expect ''writeln''))"

text \<open>
  One line of the console: response code 0 is a line, 1 the end of the input, anything else a
  read error. \<open>None\<close> ends the loop.
\<close>

definition console_line :: "'x kernel \<Rightarrow> ('x, string option) io" where
  "console_line K = bind_io (sys K ConsoleRead) (\<lambda>p.
     if rc p = 0 then bind_io (read_text K) (\<lambda>t. ret (Some (trim t)))
     else if rc p = 1 then ret None
     else throw (Expect ''console line''))"

datatype init_end = Eof init_state | InChild int

primrec serve_loop :: "nat \<Rightarrow> 'x kernel \<Rightarrow> init_state \<Rightarrow> ('x, init_end) io" where
  "serve_loop 0 K s = out_of_fuel"
| "serve_loop (Suc fuel) K s = bind_io (console_line K) (\<lambda>l. case l of
       None \<Rightarrow> ret (Eof s)
     | Some line \<Rightarrow>
         (if line = [] then serve_loop fuel K s
          else bind_io (serve fuel K line s) (\<lambda>r. case r of
              ChildExit st \<Rightarrow> ret (InChild st)
            | Reply reply s' \<Rightarrow> then_io (write_console K (''RATCHET '' @ reply)) (serve_loop fuel K s'))))"

definition init_main :: "nat \<Rightarrow> 'x kernel \<Rightarrow> ('x, init_end) io" where
  "init_main fuel K =
     then_io (mount K ''devtmpfs'' ''/dev'')
    (then_io (mount K ''proc'' ''/proc'')
    (then_io (open_console K True)
    (then_io (open_console K False)
    (then_io (write_console K ''RATCHET READY'')
             (serve_loop fuel K \<lparr>held = [], fleet = []\<rparr>)))))"

section \<open>Lemmas\<close>

lemma for_io_store8:
  "for_io is (\<lambda>i. store8 (a i) v) w = (Ok (), w\<lparr>wmem := fold (\<lambda>i m. m(a i := v)) is (wmem w)\<rparr>)"
  by (induction "is" arbitrary: w) (simp_all add: io_defs store8_def)

text \<open>The bytes written: those of the offsets, and no others.\<close>

lemma fold_bytes: "fold (\<lambda>i m. m(a i := v)) is m = (\<lambda>x. if x \<in> a ` set is then v else m x)"
  by (induction "is" arbitrary: m) (auto simp: fun_eq_iff)

lemma touch_bytes_result:
  "touch_bytes base n w = (Ok (), w\<lparr>wmem := (\<lambda>x. if x \<in> (\<lambda>off. base + off) ` set (step_by 0 (unat n) STRIDE) then 0xA5 else wmem w x)\<rparr>)"
  unfolding touch_bytes_def for_io_store8 fold_bytes by simp

end
