(* ===== verification/Matrix.thy ===== *)
theory Matrix
  imports Alloc_Shape Guest_Init
begin

text \<open>
  \<^verbatim>\<open>hv-reclaim/src/alloc_shape.rs\<close>, the parent's side: one child process per cell of the matrix,
  the line each child prints, and the verdicts. The numbers of a row are rationals: the text of
  a cell has one decimal, and the infinities and not-a-number of the floating-point parser have no
  counterpart here, nor has the rounding of the two comparisons.
\<close>

unbundle bit_operations_syntax

section \<open>Numbers with one decimal\<close>

text \<open>\<^verbatim>\<open>{:.1}\<close>: tenths, ties to even, the sign of the argument kept.\<close>

definition tenths :: "rat \<Rightarrow> int" where
  "tenths x = (let f = \<lfloor>10 * x\<rfloor>; r = 10 * x - of_int f in
     if r < 1 / 2 then f else if r > 1 / 2 then f + 1 else if even f then f else f + 1)"

definition show_tenths :: "nat \<Rightarrow> string" where
  "show_tenths n = show_nat (n div 10) @ ''.'' @ show_nat (n mod 10)"

definition fmt1 :: "rat \<Rightarrow> string" where
  "fmt1 x = (if x < 0 then ''-'' else []) @ show_tenths (nat \<bar>tenths x\<bar>)"

text \<open>
  \<^verbatim>\<open>format!\<close> for the two placeholders of a cell's line, \<^verbatim>\<open>{}\<close> and \<^verbatim>\<open>{:.1}\<close>: each takes
  the next argument.
\<close>

fun show_arg :: "arg \<Rightarrow> string" where
  "show_arg (ArgStr s) = s"
| "show_arg (ArgNat n) = show_nat n"
| "show_arg (ArgF64 x) = fmt1 x"
| "show_arg (ArgInt i) = (if i < 0 then ''-'' else []) @ show_nat (nat \<bar>i\<bar>)"

fun format :: "string \<Rightarrow> arg list \<Rightarrow> string" where
  "format [] as = []"
| "format (c # f) as = (if c = CHR ''{'' then
       (case as of [] \<Rightarrow> [] | a # as' \<Rightarrow> show_arg a @ format (drop 1 (dropWhile (\<lambda>c. c \<noteq> CHR ''}'') f)) as')
     else c # format f as)"

fun line_text :: "line \<Rightarrow> string" where
  "line_text (Line f as) = format f as"

text \<open>\<^verbatim>\<open>str::parse::<f64>()\<close> on finite decimal numbers.\<close>

definition parse_mantissa :: "string \<Rightarrow> rat option" where
  "parse_mantissa s = (let ip = takeWhile (\<lambda>c. c \<noteq> CHR ''.'') s; fp = drop 1 (dropWhile (\<lambda>c. c \<noteq> CHR ''.'') s) in
     if ip = [] \<and> fp = [] then None
     else (case (parse_digits 0 ip, parse_digits 0 fp) of
        (Some a, Some b) \<Rightarrow> Some (of_nat a + of_nat b / 10 ^ length fp)
      | _ \<Rightarrow> None))"

definition parse_exponent :: "string \<Rightarrow> rat option" where
  "parse_exponent s = (case parse_nat (if take 1 s = ''-'' \<or> take 1 s = ''+'' then drop 1 s else s) of
       None \<Rightarrow> None
     | Some n \<Rightarrow> Some (if take 1 s = ''-'' then 1 / 10 ^ n else 10 ^ n))"

definition is_exp :: "char \<Rightarrow> bool" where
  "is_exp c \<longleftrightarrow> c = CHR ''e'' \<or> c = CHR ''E''"

definition parse_f64 :: "string \<Rightarrow> rat option" where
  "parse_f64 s =
    (let t = (if take 1 s = ''-'' \<or> take 1 s = ''+'' then drop 1 s else s);
         m = takeWhile (\<lambda>c. \<not> is_exp c) t; e = dropWhile (\<lambda>c. \<not> is_exp c) t in
     case (parse_mantissa m, if e = [] then Some 1 else parse_exponent (drop 1 e)) of
       (Some v, Some f) \<Rightarrow> Some (if take 1 s = ''-'' then - (v * f) else v * f)
     | _ \<Rightarrow> None)"

section \<open>Rows\<close>

record matrix_row =
  r_shape :: shape
  r_toucher :: toucher
  r_sequence :: sequence
  r_status :: string
  r_delta_mib :: rat
  r_before_mib :: rat
  r_host_idle_mib :: rat
  r_reusable_mib :: rat

definition field_f64 :: "string list \<Rightarrow> nat \<Rightarrow> rat" where
  "field_f64 f i = (if i < length f then (case parse_f64 (f ! i) of None \<Rightarrow> 0 | Some v \<Rightarrow> v) else 0)"

definition parse_row :: "shape \<Rightarrow> toucher \<Rightarrow> sequence \<Rightarrow> string \<Rightarrow> matrix_row outcome" where
  "parse_row s t q line = (let f = split_whitespace line in
     if length f \<le> 5 then Panic (Explicit ''index out of bounds'')
     else Ok \<lparr>r_shape = s, r_toucher = t, r_sequence = q, r_status = f ! 4, r_delta_mib = field_f64 f 5,
        r_before_mib = field_f64 f 6, r_host_idle_mib = field_f64 f 7, r_reusable_mib = field_f64 f 8\<rparr>)"

text \<open>The matrix, in the order of the three nested loops.\<close>

definition matrix_cells :: "(shape \<times> toucher \<times> sequence) list" where
  "matrix_cells = [(s, t, q). s \<leftarrow> [MmapPrivate, MmapShared, HvAllocate], t \<leftarrow> [HostToucher, GuestToucher],
     q \<leftarrow> [InPlace, UnmapFirst, UnmapOnly]]"

definition matrix_cell :: "'x kernel \<Rightarrow> usize \<Rightarrow> shape \<times> toucher \<times> sequence \<Rightarrow> matrix_row list \<Rightarrow> ('x, matrix_row list) io" where
  "matrix_cell K gb c rows = (case c of (s, t, q) \<Rightarrow>
     bind_io (sys K (SpawnCell (cell_spec s t q gb))) (\<lambda>p.
     if rc p \<noteq> 0 then throw (Expect ''spawn cell'')
     else bind_io (read_text K) (\<lambda>out.
       case List.find (\<lambda>l. strip_prefix ''CELL '' l \<noteq> None) (lines_of out) of
         None \<Rightarrow> throw (Explicit ''cell produced no result'')
       | Some line \<Rightarrow> bind_io (lift (parse_row s t q line)) (\<lambda>r. ret (rows @ [r])))))"

definition row_charged :: "matrix_row \<Rightarrow> rat" where
  "row_charged r = r_before_mib r - r_host_idle_mib r"

definition row_released :: "matrix_row \<Rightarrow> bool" where
  "row_released r \<longleftrightarrow> row_charged r \<ge> 64 \<and> r_delta_mib r \<le> - (row_charged r * (1 / 2))"

definition released_label :: "matrix_row \<Rightarrow> string" where
  "released_label r = (if row_charged r < 64 then ''n/a''
     else if r_delta_mib r \<le> - (row_charged r * (1 / 2)) then ''YES'' else ''no'')"

definition print_row :: "matrix_row \<Rightarrow> ('x, unit) io" where
  "print_row r = println ''{:<16} {:<7} {:<12} {:>8} {:>9.1} {:>+9.1} {:>+9.1} {:>9}''
     [ArgStr (shape_name (r_shape r)), ArgStr (toucher_name (r_toucher r)), ArgStr (sequence_name (r_sequence r)), ArgStr (r_status r),
      ArgF64 (row_charged r), ArgF64 (r_reusable_mib r), ArgF64 (r_delta_mib r), ArgStr (released_label r)]"

definition find_cell :: "matrix_row list \<Rightarrow> shape \<Rightarrow> toucher \<Rightarrow> sequence \<Rightarrow> matrix_row outcome" where
  "find_cell rows s t q = (case List.find (\<lambda>r. r_shape r = s \<and> r_toucher r = t \<and> r_sequence r = q) rows of
       None \<Rightarrow> Panic (Expect ''cell present'')
     | Some r \<Rightarrow> Ok r)"

section \<open>Verdicts\<close>

definition precondition_text :: string where
  "precondition_text =
     ''  1. Allocation shape IS the precondition: in-place advice releases\<newline>''
   @ ''     guest-touched pages in at least one shape. Monitors using another\<newline>''
   @ ''     shape are violating it.''"

definition no_precondition_text :: string where
  "no_precondition_text =
     ''  1. Allocation shape is NOT what separates the two camps: in-place\<newline>''
   @ ''     advice releases nothing on guest-touched pages in any shape tested,\<newline>''
   @ ''     including Apple's own hv_vm_allocate.''"

definition verdict_1 :: "matrix_row list \<Rightarrow> line" where
  "verdict_1 rows = (if \<exists>r\<in>set rows. r_toucher r = GuestToucher \<and> r_sequence r = InPlace \<and> row_released r
     then Line precondition_text [] else Line no_precondition_text [])"

definition nothing_text :: string where
  "nothing_text =
     ''  2. hv_vm_allocate memory is charged ({hv_charged:.0} MiB) and released by\<newline>''
   @ ''     NOTHING here --- not the advice, not the unmap, and not on\<newline>''
   @ ''     host-touched pages either. madvise returns success throughout. The\<newline>''
   @ ''     platform's own documented allocator for guest RAM, whose stated\<newline>''
   @ ''     benefit is accurate accounting, has no partial-release path at all.''"

definition verdict_2 :: "matrix_row list \<Rightarrow> matrix_row \<Rightarrow> line" where
  "verdict_2 rows hv = (if \<exists>r\<in>set rows. r_shape r = HvAllocate \<and> row_released r
     then Line ''  2. hv_vm_allocate memory can be released by at least one sequence.'' []
     else Line nothing_text [ArgF64 (row_charged hv)])"

definition advice_text :: string where
  "advice_text =
     ''  3. The advice is NOT what releases guest memory. Unmapping alone\<newline>''
   @ ''     returns {:+.1} MiB against {:+.1} with the advice, and `reusable` stays\<newline>''
   @ ''     at {:+.1} either way --- a reusable-marking release would move it. The\<newline>''
   @ ''     control holds: unmap alone releases nothing host-touched ({:+.1} MiB).\<newline>''
   @ ''     The two mechanisms are disjoint: advice releases host-touched pages,\<newline>''
   @ ''     stage-2 teardown releases guest-touched ones. Every monitor shipping\<newline>''
   @ ''     unmap + advise + remap is carrying a no-op middle step.''"

definition verdict_3 :: "matrix_row \<Rightarrow> matrix_row \<Rightarrow> matrix_row \<Rightarrow> line list" where
  "verdict_3 with_advice without host_only = (if row_released without \<and> row_released with_advice \<and> \<not> row_released host_only
     then [Line advice_text [ArgF64 (r_delta_mib without), ArgF64 (r_delta_mib with_advice),
       ArgF64 (r_reusable_mib without), ArgF64 (r_delta_mib host_only)]] else [])"

definition print_lines :: "line list \<Rightarrow> ('x, unit) io" where
  "print_lines ls = for_io ls (\<lambda>l. case l of Line fmt args \<Rightarrow> println fmt args)"

text \<open>The table and the verdicts below it.\<close>

definition judge :: "matrix_row list \<Rightarrow> ('x, unit) io" where
  "judge rows =
     then_io (println ''{:<16} {:<7} {:<12} {:>8} {:>9} {:>9} {:>9} {:>9}''
       [ArgStr ''allocation'', ArgStr ''touched'', ArgStr ''sequence'', ArgStr ''madvise'', ArgStr ''charged'', ArgStr ''reusable'', ArgStr ''delta'', ArgStr ''released''])
    (then_io (for_io rows print_row)
    (then_io (println ''\<newline>verdict:'' [])
    (then_io (print_lines [verdict_1 rows])
    (bind_io (lift (find_cell rows HvAllocate GuestToucher InPlace)) (\<lambda>hv.
     then_io (print_lines [verdict_2 rows hv])
    (bind_io (lift (find_cell rows MmapPrivate GuestToucher UnmapFirst)) (\<lambda>with_advice.
     bind_io (lift (find_cell rows MmapPrivate GuestToucher UnmapOnly)) (\<lambda>without.
     bind_io (lift (find_cell rows MmapPrivate HostToucher UnmapOnly)) (\<lambda>host_only.
     print_lines (verdict_3 with_advice without host_only))))))))))"

definition alloc_text :: string where
  "alloc_text =
     ''alloc-shape discriminator: {size_gb} GiB guest RAM per cell, one child process per cell\<newline>''
   @ ''(phys_footprint is task-wide, so cells must not share a task)\<newline>''"

definition alloc_run :: "'x kernel \<Rightarrow> usize \<Rightarrow> ('x, unit) io" where
  "alloc_run K gb =
     then_io (println alloc_text [ArgNat (unat gb)])
    (bind_io (sys K CurrentExe) (\<lambda>e.
     if rc e \<noteq> 0 then throw (Expect ''current_exe'')
     else bind_io (fold_io matrix_cells (matrix_cell K gb) []) judge))"

end
