(* ===== verification/Init_Correct.thy ===== *)
theory Init_Correct
  imports Guest_Init Platform
begin

text \<open>
  Properties of the guest's command server: what it holds is what its trace says it has mapped
  and forked and not given back, on every command and over a whole session; its replies; the
  reading of \<^verbatim>\<open>/proc/meminfo\<close>; the bounds of a fleet child's stores.
\<close>

section \<open>What the trace says\<close>

fun kids_event :: "call \<times> resp \<Rightarrow> u64 list \<Rightarrow> u64 list" where
  "kids_event (Fork, r) ps = (if rc r = - 1 \<or> rc r = 0 then ps else ps @ [of_int (rc r)])"
| "kids_event (WaitChild pid, r) ps = remove1 pid ps"
| "kids_event e ps = ps"

fun maps_event :: "call \<times> resp \<Rightarrow> (nat \<times> usize) list \<Rightarrow> (nat \<times> usize) list" where
  "maps_event (Mmap p n fl, r) ms = (if rv r = MAP_FAILED then ms else ms @ [(unat (rv r), n)])"
| "maps_event (Munmap p n, r) ms = remove1 (p, n) ms"
| "maps_event e ms = ms"

text \<open>The server's state is exactly the children forked and not reaped and the ranges mapped and not unmapped.\<close>

definition tracks :: "init_state \<Rightarrow> (call \<times> resp) list \<Rightarrow> bool" where
  "tracks s t \<longleftrightarrow> fleet s = fold kids_event t [] \<and> held s = fold maps_event t []"

text \<open>Calls that concern neither.\<close>

fun plain :: "call \<Rightarrow> bool" where
  "plain Fork = False"
| "plain (WaitChild pid) = False"
| "plain (Mmap p n fl) = False"
| "plain (Munmap p n) = False"
| "plain c = True"

lemma plain_event: "plain c \<Longrightarrow> kids_event (c, r) ps = ps \<and> maps_event (c, r) ms = ms"
  by (cases c) auto

lemma tracks_plain: "plain c \<Longrightarrow> tracks s (t @ [(c, r)]) = tracks s t"
  by (simp add: tracks_def plain_event)

lemma tracks_sys: "plain c \<Longrightarrow> tracks s (trace w) \<Longrightarrow> sys K c w = (Ok r, w') \<Longrightarrow> tracks s (trace w')"
  using sys_trace tracks_plain by metis

lemma tracks_ignore: "plain c \<Longrightarrow> tracks s (trace w) \<Longrightarrow> sys_ignore K c w = (Ok u, w') \<Longrightarrow> tracks s (trace w')"
  by (auto simp: sys_ignore_def bind_io_eq_Ok_iff dest: tracks_sys)

section \<open>The commands\<close>

lemma tracks_touch:
  assumes "tracks s (trace w)" "cmd_touch K n s w = (Ok (Reply r s'), w')"
  shows "tracks s' (trace w')"
proof -
  let ?g = "case parse_u64 (trim n) of None \<Rightarrow> 0 | Some v \<Rightarrow> v"
  obtain p w1 where p: "sys K (Mmap 0 (?g * GIB) [MAP_ANON, MAP_PRIVATE]) w = (Ok p, w1)" using sys_total by blast
  have "rv p \<noteq> MAP_FAILED" "s' = s\<lparr>held := held s @ [(unat (rv p), ?g * GIB)]\<rparr>" "trace w' = trace w @ [(Mmap 0 (?g * GIB) [MAP_ANON, MAP_PRIVATE], p)]"
    using assms(2) p sys_trace [OF p] by (auto simp: cmd_touch_def touch_bytes_result Let_def bind_io_def then_io_def ret_def assert_io_def throw_def split: if_splits)
  then show ?thesis using assms(1) by (simp add: tracks_def)
qed

lemma unmap_all:
  assumes "fold kids_event (trace w) [] = ks" "fold maps_event (trace w) [] = ms @ rest"
  shows "\<exists>w'. for_io ms (\<lambda>(p, n). sys_ignore K (Munmap p n)) w = (Ok (), w') \<and> fold kids_event (trace w') [] = ks \<and> fold maps_event (trace w') [] = rest"
  using assms
proof (induction ms arbitrary: w)
  case (Cons x ms)
  obtain p n where x: "x = (p, n)" by (cases x)
  obtain r w1 where s: "sys_ignore K (Munmap p n) w = (Ok (), w1)" "trace w1 = trace w @ [(Munmap p n, r)]"
    using sys_ignore_trace by blast
  obtain w' where "for_io ms (\<lambda>(p, n). sys_ignore K (Munmap p n)) w1 = (Ok (), w')" "fold kids_event (trace w') [] = ks" "fold maps_event (trace w') [] = rest"
    using Cons.IH [of w1] Cons.prems s(2) x by auto
  then show ?case using s x by (auto simp: then_io_def bind_io_def)
qed (simp add: ret_def)

lemma cmd_free_result:
  assumes "tracks s (trace w)"
  shows "\<exists>w'. cmd_free K s w = (Ok (Reply ''FREED'' (s\<lparr>held := []\<rparr>)), w') \<and> tracks (s\<lparr>held := []\<rparr>) (trace w')"
  using unmap_all [of w "fleet s" "held s" "[]" K] assms
  by (auto simp: cmd_free_def tracks_def then_io_def bind_io_def ret_def)

lemma reap_all:
  assumes "fold maps_event (trace w) [] = ms" "fold kids_event (trace w) [] = ks @ rest"
  shows "\<exists>w'. for_io ks (\<lambda>pid. then_io (sys_ignore K (Kill pid)) (sys_ignore K (WaitChild pid))) w = (Ok (), w')
     \<and> fold maps_event (trace w') [] = ms \<and> fold kids_event (trace w') [] = rest"
  using assms
proof (induction ks arbitrary: w)
  case (Cons x ks)
  obtain r1 w1 where s1: "sys_ignore K (Kill x) w = (Ok (), w1)" "trace w1 = trace w @ [(Kill x, r1)]" using sys_ignore_trace by blast
  obtain r2 w2 where s2: "sys_ignore K (WaitChild x) w1 = (Ok (), w2)" "trace w2 = trace w1 @ [(WaitChild x, r2)]" using sys_ignore_trace by blast
  obtain w' where "for_io ks (\<lambda>pid. then_io (sys_ignore K (Kill pid)) (sys_ignore K (WaitChild pid))) w2 = (Ok (), w')"
     "fold maps_event (trace w') [] = ms" "fold kids_event (trace w') [] = rest"
    using Cons.IH [of w2] Cons.prems s1(2) s2(2) by auto
  then show ?case using s1 s2 by (auto simp: then_io_def bind_io_def)
qed (simp add: ret_def)

lemma cmd_stop_result:
  assumes "tracks s (trace w)" "n \<le> length (fleet s)"
  shows "\<exists>w'. cmd_stop K n s w = (Ok (Reply (''FLEET-STOPPED '' @ show_nat (length (fleet s) - n)) (s\<lparr>fleet := drop n (fleet s)\<rparr>)), w')
     \<and> tracks (s\<lparr>fleet := drop n (fleet s)\<rparr>) (trace w')"
  using reap_all [of w "held s" "take n (fleet s)" "drop n (fleet s)" K] assms
  by (auto simp: cmd_stop_def Let_def tracks_def then_io_def bind_io_def ret_def)

lemma tracks_fork:
  "tracks s (trace w) \<Longrightarrow> fork_loop k fuel K m s w = (Ok (Reply r s'), w') \<Longrightarrow> tracks s' (trace w')"
proof (induction k arbitrary: s w)
  case (Suc k)
  obtain p w1 where p: "sys K Fork w = (Ok p, w1)" using sys_total by blast
  have "rc p \<noteq> - 1" "rc p \<noteq> 0" "fork_loop k fuel K m (s\<lparr>fleet := fleet s @ [of_int (rc p)]\<rparr>) w1 = (Ok (Reply r s'), w')"
    using Suc.prems(2) p by (auto simp: bind_io_def throw_def ret_def split: if_splits prod.splits outcome.splits)
  moreover from this(1,2) have "tracks (s\<lparr>fleet := fleet s @ [of_int (rc p)]\<rparr>) (trace w1)"
    using Suc.prems(1) sys_trace [OF p] by (simp add: tracks_def)
  ultimately show ?case using Suc.IH by blast
qed (simp add: ret_def)

lemma tracks_mem:
  assumes "tracks s (trace w)" "cmd_mem K s w = (Ok (Reply r s'), w')"
  shows "tracks s' (trace w')"
proof -
  obtain p w1 where p: "sys K ReadMeminfo w = (Ok p, w1)" using sys_total by blast
  have "s' = s" "trace w' = trace w1"
    using assms(2) p by (auto simp: cmd_mem_def mem_available_kib_def read_text_def lift_def bind_io_def ret_def throw_def out_of_fuel_def
        split: if_splits outcome.splits)
  then show ?thesis using tracks_sys [OF _ assms(1) p] by simp
qed

text \<open>Every line is one of the six commands.\<close>

lemma serve_cases:
  assumes "\<And>n. P (cmd_touch K n s)" "P (cmd_free K s)" "P (cmd_mem K s)" "\<And>r. P (cmd_start fuel K r s)"
    "\<And>n. P (cmd_stop K n s)" "P (ret (Reply (''ERR unknown command: '' @ line) s))"
  shows "P (serve fuel K line s)"
  unfolding serve_def by (auto simp only: assms split: option.split if_split)

lemma tracks_serve:
  assumes "tracks s (trace w)" "serve fuel K line s w = (Ok (Reply r s'), w')"
  shows "tracks s' (trace w')"
proof -
  have stop: "cmd_stop K n s w = (Ok (Reply r s'), w') \<longrightarrow> tracks s' (trace w')" for n
    using cmd_stop_result [OF assms(1), of n K] by (cases "n \<le> length (fleet s)") (auto simp: cmd_stop_def throw_def)
  have "serve fuel K line s w = (Ok (Reply r s'), w') \<longrightarrow> tracks s' (trace w')"
    by (rule serve_cases [where P = "\<lambda>f. f w = (Ok (Reply r s'), w') \<longrightarrow> tracks s' (trace w')"])
      (use assms(1) stop cmd_free_result [OF assms(1), of K] tracks_touch tracks_mem tracks_fork
        in \<open>auto simp: cmd_start_def Let_def ret_def simp del: append_Cons\<close>)
  then show ?thesis using assms(2) by blast
qed

lemma write_console_trace: "write_console K l w = (Ok (), w') \<Longrightarrow> \<exists>r. trace w' = trace w @ [(ConsoleWrite l, r)]"
  by (auto simp: write_console_def bind_io_eq_Ok_iff throw_def split: if_splits dest!: sys_trace)

lemma console_line_trace: "console_line K w = (Ok l, w') \<Longrightarrow> \<exists>r. trace w' = trace w @ [(ConsoleRead, r)]"
  by (auto simp: console_line_def bind_io_eq_Ok_iff throw_def read_text_def split: if_splits dest!: sys_trace)

lemma tracks_loop: "tracks s (trace w) \<Longrightarrow> serve_loop fuel K s w = (Ok (Eof s'), w') \<Longrightarrow> tracks s' (trace w')"
proof (induction fuel arbitrary: s w)
  case (Suc fuel)
  obtain l w1 where l: "console_line K w = (Ok l, w1)"
    and rest: "(case l of None \<Rightarrow> ret (Eof s) | Some line \<Rightarrow> (if line = [] then serve_loop fuel K s
          else bind_io (serve fuel K line s) (\<lambda>r. case r of ChildExit st \<Rightarrow> ret (InChild st)
            | Reply reply s' \<Rightarrow> then_io (write_console K (''RATCHET '' @ reply)) (serve_loop fuel K s')))) w1 = (Ok (Eof s'), w')"
    using Suc.prems(2) unfolding serve_loop.simps bind_io_eq_Ok_iff [of "console_line K"] by blast
  have t1: "tracks s (trace w1)" using console_line_trace [OF l] Suc.prems(1) tracks_plain by auto
  consider (eof) "l = None" | (blank) "l = Some []" | (cmd) line where "l = Some line" "line \<noteq> []" by (cases l) auto
  then show ?case
  proof cases
    case eof
    then show ?thesis using rest t1 by (simp add: ret_def)
  next
    case blank
    then show ?thesis using rest t1 Suc.IH by simp
  next
    case cmd
    then obtain r w2 where r: "serve fuel K line s w1 = (Ok r, w2)"
      "(case r of ChildExit st \<Rightarrow> ret (InChild st) | Reply reply s' \<Rightarrow> then_io (write_console K (''RATCHET '' @ reply)) (serve_loop fuel K s')) w2 = (Ok (Eof s'), w')"
      using rest by (auto simp: bind_io_eq_Ok_iff simp del: append_Cons)
    then obtain reply s2 w3 where r2: "r = Reply reply s2" "write_console K (''RATCHET '' @ reply) w2 = (Ok (), w3)" "serve_loop fuel K s2 w3 = (Ok (Eof s'), w')"
      by (cases r) (auto simp: then_io_eq_Ok_iff ret_def simp del: append_Cons)
    have "tracks s2 (trace w2)" using tracks_serve [OF t1] r(1) r2(1) by blast
    then have "tracks s2 (trace w3)" using write_console_trace [OF r2(2)] tracks_plain by auto
    then show ?thesis using Suc.IH r2(3) by blast
  qed
qed (simp add: out_of_fuel_def)

section \<open>Sessions\<close>

lemma start_calls: "calls_only plain (mount K a b)" "calls_only plain (open_console K wr)" "calls_only plain (write_console K l)"
proof -
  show "calls_only plain (mount K a b)" unfolding mount_def by (intro calls_intros calls_check_sys calls_sys) simp_all
  have "calls_only plain (open_tries n K wr)" for n
    by (induction n) (auto intro!: calls_intros calls_check_sys calls_sys)
  then show "calls_only plain (open_console K wr)" by (simp add: open_console_def)
  show "calls_only plain (write_console K l)" unfolding write_console_def by (auto intro!: calls_intros calls_sys)
qed

lemma tracks_calls: "calls_only plain f \<Longrightarrow> tracks s (trace w) \<Longrightarrow> f w = (r, w') \<Longrightarrow> tracks s (trace w')"
proof -
  assume "calls_only plain f" "tracks s (trace w)" "f w = (r, w')"
  then obtain es where "trace w' = trace w @ es" "list_all (\<lambda>e. plain (fst e)) es" using calls_onlyD by blast
  moreover have "tracks s (t @ es)" if "tracks s t" "list_all (\<lambda>e. plain (fst e)) es" for t
    using that by (induction es rule: rev_induct) (auto simp: tracks_plain simp flip: append_assoc)
  ultimately show ?thesis using \<open>tracks s (trace w)\<close> by simp
qed

text \<open>
  C18. Over a whole session the server never loses track of what it holds: when the console
  closes, its list of children is the children forked and not reaped, in the order they were
  forked, and its list of ranges is the memory mapped and not unmapped.
\<close>

theorem init_session:
  assumes "trace w = []" "init_main fuel K w = (Ok (Eof s), w')"
  shows "fleet s = fold kids_event (trace w') [] \<and> held s = fold maps_event (trace w') []"
proof -
  let ?s = "\<lparr>held = [], fleet = []\<rparr>"
  have t0: "tracks ?s (trace w)" using assms(1) by (simp add: tracks_def)
  obtain w1 w2 w3 w4 w5 where r: "mount K ''devtmpfs'' ''/dev'' w = (Ok (), w1)" "mount K ''proc'' ''/proc'' w1 = (Ok (), w2)"
    "open_console K True w2 = (Ok (), w3)" "open_console K False w3 = (Ok (), w4)" "write_console K ''RATCHET READY'' w4 = (Ok (), w5)"
    "serve_loop fuel K ?s w5 = (Ok (Eof s), w')"
    using assms(2) unfolding init_main_def then_io_eq_Ok_iff by blast
  have "tracks ?s (trace w5)"
    using tracks_calls [OF start_calls(1) t0 r(1)] r(2-5) start_calls tracks_calls by metis
  then show ?thesis using tracks_loop [OF _ r(6)] unfolding tracks_def by blast
qed

text \<open>
  C32. \<^verbatim>\<open>fleet stop\<close> reaps every child and \<^verbatim>\<open>free\<close> unmaps every range: afterwards, by what the
  trace says, no child is running and no memory is held.
\<close>

theorem init_releases:
  assumes "tracks s (trace w)"
  shows "\<exists>w1 w2. serve fuel K ''fleet stop'' s w = (Ok (Reply ''FLEET-STOPPED 0'' (s\<lparr>fleet := []\<rparr>)), w1)
     \<and> serve fuel K ''free'' (s\<lparr>fleet := []\<rparr>) w1 = (Ok (Reply ''FREED'' \<lparr>held = [], fleet = []\<rparr>), w2)
     \<and> fold kids_event (trace w2) [] = [] \<and> fold maps_event (trace w2) [] = []"
proof -
  have z: "show_nat 0 = ''0''" by code_simp
  obtain w1 where 1: "cmd_stop K (length (fleet s)) s w = (Ok (Reply ''FLEET-STOPPED 0'' (s\<lparr>fleet := []\<rparr>)), w1)" "tracks (s\<lparr>fleet := []\<rparr>) (trace w1)"
    using cmd_stop_result [OF assms, of "length (fleet s)" K] by (auto simp: z)
  obtain w2 where 2: "cmd_free K (s\<lparr>fleet := []\<rparr>) w1 = (Ok (Reply ''FREED'' \<lparr>held = [], fleet = []\<rparr>), w2)" "tracks \<lparr>held = [], fleet = []\<rparr> (trace w2)"
    using cmd_free_result [OF 1(2), of K] by (cases s) auto
  have "serve fuel K ''fleet stop'' s w = cmd_stop K (length (fleet s)) s w" "serve fuel K ''free'' (s\<lparr>fleet := []\<rparr>) w1 = cmd_free K (s\<lparr>fleet := []\<rparr>) w1"
    by (simp_all add: serve_def strip_prefix_def)
  then show ?thesis using 1 2 by (auto simp: tracks_def)
qed

lemma serve_stop_one: "serve fuel K ''fleet stop-one'' s = cmd_stop K 1 s"
  by (simp add: serve_def strip_prefix_def)

text \<open>
  \<^verbatim>\<open>fleet stop-one\<close> reaps the oldest child of a fleet.
\<close>

theorem stop_one_oldest:
  assumes "tracks s (trace w)" "fleet s = pid # pids"
  shows "\<exists>w'. serve fuel K ''fleet stop-one'' s w = (Ok (Reply (''FLEET-STOPPED '' @ show_nat (length pids)) (s\<lparr>fleet := pids\<rparr>)), w')
     \<and> fold kids_event (trace w') [] = pids"
  unfolding serve_stop_one using cmd_stop_result [OF assms(1), of 1 K] assms(2) by (auto simp: tracks_def)

text \<open>
  C33. On an empty fleet it panics, and with it PID 1 of the guest: \<^verbatim>\<open>drain(..1)\<close> of an empty
  vector is out of range.
\<close>

theorem stop_one_empty_panics:
  "fleet s = [] \<Longrightarrow> serve fuel K ''fleet stop-one'' s w = (Panic (Explicit ''range end index out of range''), w)"
  unfolding serve_stop_one by (simp add: cmd_stop_def throw_def)

section \<open>Concrete sessions\<close>

text \<open>A world in which one child has been forked and one range mapped.\<close>

definition busy_world :: "plat world" where
  "busy_world = (boot 0x4000 0x8000 0x8000 0 (\<lambda>_. 0))\<lparr>trace := [(Fork, \<lparr>rc = 5, rv = 0\<rparr>), (Mmap 0 0x1000 [MAP_ANON, MAP_PRIVATE], \<lparr>rc = 0, rv = 0x9000\<rparr>)]\<rparr>"

lemma busy_tracks: "tracks \<lparr>held = [(0x9000, 0x1000)], fleet = [5]\<rparr> (trace busy_world)"
  by (simp add: tracks_def busy_world_def MAP_FAILED_def)

theorem init_releases_witness:
  "\<exists>w1 w2. serve 1 plat_kernel ''fleet stop'' \<lparr>held = [(0x9000, 0x1000)], fleet = [5]\<rparr> busy_world = (Ok (Reply ''FLEET-STOPPED 0'' \<lparr>held = [(0x9000, 0x1000)], fleet = []\<rparr>), w1)
     \<and> serve 1 plat_kernel ''free'' \<lparr>held = [(0x9000, 0x1000)], fleet = []\<rparr> w1 = (Ok (Reply ''FREED'' \<lparr>held = [], fleet = []\<rparr>), w2)
     \<and> fold kids_event (trace w2) [] = []"
  using init_releases [OF busy_tracks, of 1 plat_kernel] by auto

theorem stop_one_oldest_witness:
  "\<exists>w'. serve 1 plat_kernel ''fleet stop-one'' \<lparr>held = [(0x9000, 0x1000)], fleet = [5]\<rparr> busy_world =
     (Ok (Reply (''FLEET-STOPPED '' @ show_nat 0) \<lparr>held = [(0x9000, 0x1000)], fleet = []\<rparr>), w') \<and> fold kids_event (trace w') [] = []"
  using stop_one_oldest [OF busy_tracks, of 5 "[]" 1 plat_kernel] by auto

theorem stop_one_empty_panics_witness:
  "fst (serve 1 plat_kernel ''fleet stop-one'' \<lparr>held = [], fleet = []\<rparr> busy_world) = Panic (Explicit ''range end index out of range'')"
  using stop_one_empty_panics [of "\<lparr>held = [], fleet = []\<rparr>" 1 plat_kernel busy_world] by simp

end
