(* ===== verification/Init_Fleet.thy ===== *)
theory Init_Fleet
  imports Init_Correct
begin

text \<open>
  The command server continued: reading the free memory, the stores of a fleet child, and the
  life of a fleet under the commands the driver of \<^verbatim>\<open>vz-ratchet\<close> sends.
\<close>

section \<open>Reading the free memory\<close>

lemma show_nat_no_ws: "c \<in> set (show_nat n) \<Longrightarrow> \<not> is_ws c"
  using set_show_nat by force

lemma dropWhile_word: "s \<noteq> [] \<Longrightarrow> (\<And>c. c \<in> set s \<Longrightarrow> \<not> is_ws c) \<Longrightarrow> dropWhile is_ws (s @ t) = s @ t"
  by (cases s) auto

lemma trim_end_blanks: "(\<And>c. c \<in> set t \<Longrightarrow> is_ws c) \<Longrightarrow> s = [] \<or> \<not> is_ws (last s) \<Longrightarrow> trim_end (s @ t) = s"
  using trim_end_no_ws [of s] dropWhile_append2 [of "rev t" is_ws "rev s"] by (simp add: trim_end_def)

lemma trim_blanks:
  assumes "\<And>c. c \<in> set a \<Longrightarrow> is_ws c" "\<And>c. c \<in> set b \<Longrightarrow> is_ws c" "s \<noteq> []" "\<not> is_ws (hd s)" "\<not> is_ws (last s)"
  shows "trim (a @ s @ b) = s"
proof -
  have "dropWhile is_ws (a @ s @ b) = s @ b" using assms(1,3,4) by (cases s) auto
  then show ?thesis using trim_end_blanks [OF assms(2)] assms(5) by (simp add: trim_def)
qed

lemma blank: "is_ws CHR '' ''" "\<not> is_ws CHR ''B''"
  by (simp_all add: is_ws_def)

lemma show_nat_ends: "\<not> is_ws (hd (show_nat n))" "\<not> is_ws (last (show_nat n))"
  using show_nat_no_ws [of "hd (show_nat n)" n] show_nat_no_ws [of "last (show_nat n)" n] by simp_all

lemma trim_kb_number: "trim (trim_kb (trim (replicate k CHR '' '' @ show_nat n @ '' kB''))) = show_nat n"
proof -
  have "trim (replicate k CHR '' '' @ (show_nat n @ '' kB'') @ []) = show_nat n @ '' kB''"
    by (rule trim_blanks) (use show_nat_ends [of n] in \<open>auto simp: blank split: if_splits\<close>)
  moreover have "trim_kb (show_nat n @ '' kB'') = show_nat n @ '' ''"
  proof -
    have "trim_kb (show_nat n @ '' kB'') = trim_kb (show_nat n @ '' '')" by (subst trim_kb.simps) simp
    also have "\<dots> = show_nat n @ '' ''" by (subst trim_kb.simps) (auto simp: drop_Cons' Suc_diff_le)
    finally show ?thesis .
  qed
  moreover have "trim ([] @ show_nat n @ '' '') = show_nat n"
    by (rule trim_blanks) (use show_nat_ends [of n] in \<open>auto simp: blank\<close>)
  ultimately show ?thesis by simp
qed

lemma find_skip: "(\<And>l. l \<in> set xs \<Longrightarrow> \<not> P l) \<Longrightarrow> P y \<Longrightarrow> List.find P (xs @ y # ys) = Some y"
  by (induction xs) auto

text \<open>
  C39. The number of \<^verbatim>\<open>/proc/meminfo\<close>'s first \<^verbatim>\<open>MemAvailable:\<close> line is read exactly, however wide
  the blanks before it, whatever lines come before and after, if it fits into 64 bits.
\<close>

theorem mem_available_exact:
  assumes "\<And>l. l \<in> set before \<Longrightarrow> strip_prefix ''MemAvailable:'' l = None" "n < 2 ^ 64"
  shows "find_available (before @ (''MemAvailable:'' @ replicate k CHR '' '' @ show_nat n @ '' kB'') # after) = Ok (of_nat n)"
proof -
  let ?l = "''MemAvailable:'' @ replicate k CHR '' '' @ show_nat n @ '' kB''"
  have p: "strip_prefix ''MemAvailable:'' ?l = Some (replicate k CHR '' '' @ show_nat n @ '' kB'')" by (rule strip_prefix_append)
  have "List.find (\<lambda>l. strip_prefix ''MemAvailable:'' l \<noteq> None) (before @ ?l # after) = Some ?l"
    by (rule find_skip) (use assms(1) p in simp_all)
  then show ?thesis
    using p trim_kb_number [of k n] parse_u64_show [OF assms(2)] by (simp add: find_available_def del: append_Cons)
qed

theorem mem_available_exact_witness:
  "find_available [''MemTotal:  6291456 kB'', ''MemAvailable:   123456 kB'', ''Cached: 0 kB''] = Ok 123456"
proof -
  have s: "show_nat 123456 = ''123456''" by (simp add: show_nat.simps digit_def char_of_def bit_0)
  have r: "replicate 3 CHR '' '' = ''   ''" by (simp add: numeral_3_eq_3)
  have p: "strip_prefix ''MemAvailable:'' l = None" if "l \<in> set [''MemTotal:  6291456 kB'']" for l
    using that by (simp add: strip_prefix_def)
  have "(123456 :: nat) < 2 ^ 64" "(of_nat 123456 :: u64) = 123456" by simp_all
  then show ?thesis
    using mem_available_exact [where before = "[''MemTotal:  6291456 kB'']" and n = 123456 and k = 3 and after = "[''Cached: 0 kB'']", OF p]
    unfolding s r append.simps by metis
qed

section \<open>A fleet child\<close>

text \<open>
  A fleet child writes only into its own working set: whichever of its eight slices it keeps
  warm, every byte outside its mapping is unchanged, and the next slice is again one of the eight.
\<close>

theorem warm_slice_bounded:
  assumes "slot < 8" "x < base \<or> base + unat len \<le> x"
  shows "\<exists>w'. warm_slice base (len div 8) slot w = (Ok (), w') \<and> wmem w' x = wmem w x \<and> (slot + 1) mod 8 < (8 :: usize)"
proof -
  let ?p = "len div 8"
  have p: "unat ?p = unat len div 8" by (simp add: unat_div)
  have s: "unat slot < 8" using assms(1) by (simp add: word_less_nat_alt)
  have le: "unat slot * unat ?p + unat ?p \<le> unat len"
  proof -
    have "unat slot * unat ?p + unat ?p = Suc (unat slot) * unat ?p" by simp
    also have "\<dots> \<le> 8 * unat ?p" using s by (intro mult_le_mono1) simp
    also have "\<dots> \<le> unat len" by (simp add: p)
    finally show ?thesis .
  qed
  then have b: "unat slot * unat ?p + unat ?p < 2 ^ 64" using unat_lt64 [of len] by simp
  have st: "unat (slot * ?p) = unat slot * unat ?p" using b by (simp add: unat_word_ariths)
  have en: "unat (slot * ?p + ?p) = unat slot * unat ?p + unat ?p" using b st by (simp add: unat_word_ariths)
  have "x \<notin> (\<lambda>off. base + off) ` set (step_by (unat (slot * ?p)) (unat (slot * ?p + ?p)) STRIDE)"
    using assms(2) le unfolding st en by (auto simp: set_step_by STRIDE_def)
  moreover have "(slot + 1) mod 8 < (8 :: usize)" by (rule word_mod_less_divisor) simp
  ultimately show ?thesis unfolding warm_slice_def Let_def for_io_store8 fold_bytes by simp
qed

theorem warm_slice_bounded_witness:
  "\<exists>w'. warm_slice 0x9000 (0x10000 div 8) 7 busy_world = (Ok (), w') \<and> wmem w' 0x19000 = wmem busy_world 0x19000 \<and> (7 + 1) mod 8 < (8 :: usize)"
  using warm_slice_bounded [of 7 "0x19000" "0x9000" "0x10000" busy_world] by simp

section \<open>A fleet's life\<close>

text \<open>A sequence of commands, with its replies.\<close>

primrec serve_all :: "nat \<Rightarrow> 'x kernel \<Rightarrow> string list \<Rightarrow> init_state \<Rightarrow> ('x, string list \<times> init_state) io" where
  "serve_all fuel K [] s = ret ([], s)"
| "serve_all fuel K (c # cs) s = bind_io (serve fuel K c s) (\<lambda>r. case r of
       ChildExit st \<Rightarrow> throw (Explicit ''child'')
     | Reply reply s' \<Rightarrow> bind_io (serve_all fuel K cs s') (\<lambda>(rs, s''). ret (reply # rs, s'')))"

lemma serve_all_append:
  "serve_all fuel K cs s w = (Ok (rs, s1), w1) \<Longrightarrow> serve_all fuel K ds s1 w1 = (Ok (qs, t2), w2) \<Longrightarrow>
     serve_all fuel K (cs @ ds) s w = (Ok (rs @ qs, t2), w2)"
proof (induction cs arbitrary: s w rs)
  case (Cons c cs)
  then obtain r w' where r: "serve fuel K c s w = (Ok r, w')" by (auto simp: bind_io_eq_Ok_iff)
  then obtain reply s' where "r = Reply reply s'" using Cons.prems by (cases r) (auto simp: bind_io_def throw_def)
  then obtain rs' where "serve_all fuel K cs s' w' = (Ok (rs', s1), w1)" "rs = reply # rs'"
    using Cons.prems(1) r by (auto simp: bind_io_eq_Ok_iff)
  then show ?case using Cons.IH [OF _ Cons.prems(2)] r \<open>r = Reply reply s'\<close> by (simp add: bind_io_def ret_def)
qed (simp add: ret_def)

definition forks :: "'x kernel \<Rightarrow> bool" where
  "forks K \<longleftrightarrow> (\<forall>x m. 0 < rc (fst (k_sys K Fork x m)))"

lemma split_two: "u \<noteq> [] \<Longrightarrow> v \<noteq> [] \<Longrightarrow> (\<And>c. c \<in> set u \<union> set v \<Longrightarrow> \<not> is_ws c) \<Longrightarrow> split_whitespace (u @ '' '' @ v) = [u, v]"
proof -
  have w: "words_acc acc (u @ xs) = words_acc (rev u @ acc) xs" if "\<And>c. c \<in> set u \<Longrightarrow> \<not> is_ws c" for acc u xs
    using that by (induction u arbitrary: acc) auto
  assume "u \<noteq> []" "v \<noteq> []" "\<And>c. c \<in> set u \<union> set v \<Longrightarrow> \<not> is_ws c"
  then show ?thesis
    using w [of u "[]" "'' '' @ v"] w [of v "[]" "[]"] by (simp add: split_whitespace_def blank)
qed

lemma serve_start:
  "serve fuel K (''fleet start '' @ show_nat k @ '' '' @ show_nat m) s = cmd_start fuel K (show_nat k @ '' '' @ show_nat m) s"
  by (simp add: serve_def strip_prefix_def)

lemma start_one:
  assumes "forks K" "tracks s (trace w)"
  shows "\<exists>pid w'. serve fuel K (''fleet start '' @ show_nat 1 @ '' '' @ show_nat m) s w =
       (Ok (Reply (''FLEET-STARTED '' @ show_nat (Suc (length (fleet s)))) (s\<lparr>fleet := fleet s @ [pid]\<rparr>)), w')
     \<and> tracks (s\<lparr>fleet := fleet s @ [pid]\<rparr>) (trace w')"
proof -
  obtain p w1 where p: "sys K Fork w = (Ok p, w1)" using sys_total by blast
  have rc: "0 < rc p" using p assms(1) unfolding forks_def sys_def by (auto split: prod.splits) (metis fst_conv)
  have sp: "split_whitespace (show_nat 1 @ '' '' @ show_nat m) = [show_nat 1, show_nat m]"
    by (rule split_two) (use show_nat_no_ws in auto)
  have "unat (word_arg [show_nat 1, show_nat m] 0) = 1" by (simp add: word_arg_def parse_u64_show)
  then have "serve fuel K (''fleet start '' @ show_nat 1 @ '' '' @ show_nat m) s w =
      fork_loop (Suc 0) fuel K (word_arg [show_nat 1, show_nat m] 1) s w"
    unfolding serve_start cmd_start_def Let_def sp by simp
  also have "\<dots> = (Ok (Reply (''FLEET-STARTED '' @ show_nat (Suc (length (fleet s)))) (s\<lparr>fleet := fleet s @ [of_int (rc p)]\<rparr>)), w1)"
    using p rc by (simp add: bind_io_def ret_def)
  finally have r: "serve fuel K (''fleet start '' @ show_nat 1 @ '' '' @ show_nat m) s w =
      (Ok (Reply (''FLEET-STARTED '' @ show_nat (Suc (length (fleet s)))) (s\<lparr>fleet := fleet s @ [of_int (rc p)]\<rparr>)), w1)" .
  then show ?thesis using tracks_serve [OF assms(2) r] by blast
qed

lemma start_many:
  assumes "forks K" "tracks s (trace w)"
  shows "\<exists>s' w'. serve_all fuel K (replicate k (''fleet start '' @ show_nat 1 @ '' '' @ show_nat m)) s w =
       (Ok (map (\<lambda>i. ''FLEET-STARTED '' @ show_nat (length (fleet s) + Suc i)) [0..<k], s'), w')
     \<and> tracks s' (trace w') \<and> length (fleet s') = length (fleet s) + k \<and> held s' = held s"
  using assms(2)
proof (induction k arbitrary: s w)
  case (Suc k)
  obtain pid w1 where 1: "serve fuel K (''fleet start '' @ show_nat 1 @ '' '' @ show_nat m) s w =
       (Ok (Reply (''FLEET-STARTED '' @ show_nat (Suc (length (fleet s)))) (s\<lparr>fleet := fleet s @ [pid]\<rparr>)), w1)" (is "serve fuel K ?c s w = _")
    "tracks (s\<lparr>fleet := fleet s @ [pid]\<rparr>) (trace w1)" using start_one [OF assms(1) Suc.prems] by blast
  let ?s = "s\<lparr>fleet := fleet s @ [pid]\<rparr>"
  obtain s' w' where 2: "serve_all fuel K (replicate k ?c) ?s w1 =
       (Ok (map (\<lambda>i. ''FLEET-STARTED '' @ show_nat (length (fleet ?s) + Suc i)) [0..<k], s'), w')"
     "tracks s' (trace w')" "length (fleet s') = length (fleet ?s) + k" "held s' = held ?s" using Suc.IH [OF 1(2)] by blast
  have m: "map f [0..<Suc k] = f 0 # map (\<lambda>i. f (Suc i)) [0..<k]" for f :: "nat \<Rightarrow> string"
    by (simp add: upt_conv_Cons map_Suc_upt [symmetric] del: upt_Suc)
  show ?case
    using 1(1) 2 unfolding m replicate_Suc serve_all.simps
    by (intro exI [of _ s'] exI [of _ w']) (simp add: bind_io_def ret_def)
qed (simp add: ret_def)

lemma stop_many:
  assumes "tracks s (trace w)"
  shows "\<exists>s' w'. serve_all fuel K (replicate (length (fleet s)) ''fleet stop-one'') s w =
       (Ok (map (\<lambda>i. ''FLEET-STOPPED '' @ show_nat i) (rev [0..<length (fleet s)]), s'), w')
     \<and> tracks s' (trace w') \<and> fleet s' = [] \<and> held s' = held s"
  using assms
proof (induction "length (fleet s)" arbitrary: s w)
  case (Suc k)
  obtain w1 where 1: "serve fuel K ''fleet stop-one'' s w = (Ok (Reply (''FLEET-STOPPED '' @ show_nat k) (s\<lparr>fleet := drop 1 (fleet s)\<rparr>)), w1)"
    "tracks (s\<lparr>fleet := drop 1 (fleet s)\<rparr>) (trace w1)"
    using cmd_stop_result [OF Suc.prems, of 1 K] unfolding serve_stop_one Suc.hyps(2) [symmetric] by auto
  let ?s = "s\<lparr>fleet := drop 1 (fleet s)\<rparr>"
  have k: "k = length (fleet ?s)" using Suc.hyps(2) by simp
  obtain s' w' where 2: "serve_all fuel K (replicate (length (fleet ?s)) ''fleet stop-one'') ?s w1 =
       (Ok (map (\<lambda>i. ''FLEET-STOPPED '' @ show_nat i) (rev [0..<length (fleet ?s)]), s'), w')"
     "tracks s' (trace w')" "fleet s' = []" "held s' = held ?s" using Suc.hyps(1) [OF k 1(2)] by blast
  show ?case
    using 1(1) 2 unfolding Suc.hyps(2) [symmetric] k [symmetric] replicate_Suc serve_all.simps
    by (intro exI [of _ s'] exI [of _ w']) (simp add: bind_io_def ret_def)
qed (simp add: ret_def)

lemma fleet_served:
  assumes "forks K" "trace w = []"
  shows "\<exists>w'. serve_all fuel K (replicate k (''fleet start '' @ show_nat 1 @ '' '' @ show_nat m) @ replicate k ''fleet stop-one'')
       \<lparr>held = [], fleet = []\<rparr> w =
       (Ok (map (\<lambda>i. ''FLEET-STARTED '' @ show_nat (Suc i)) [0..<k] @ map (\<lambda>i. ''FLEET-STOPPED '' @ show_nat i) (rev [0..<k]),
          \<lparr>held = [], fleet = []\<rparr>), w')
     \<and> fold kids_event (trace w') [] = []"
proof -
  let ?s = "\<lparr>held = [], fleet = []\<rparr>"
  have t: "tracks ?s (trace w)" using assms(2) by (simp add: tracks_def)
  obtain s1 w1 where 1: "serve_all fuel K (replicate k (''fleet start '' @ show_nat 1 @ '' '' @ show_nat m)) ?s w =
       (Ok (map (\<lambda>i. ''FLEET-STARTED '' @ show_nat (Suc i)) [0..<k], s1), w1)"
     "tracks s1 (trace w1)" "length (fleet s1) = k" "held s1 = []" using start_many [OF assms(1) t, of fuel k m] by auto
  obtain t2 w2 where 2: "serve_all fuel K (replicate k ''fleet stop-one'') s1 w1 =
       (Ok (map (\<lambda>i. ''FLEET-STOPPED '' @ show_nat i) (rev [0..<k]), t2), w2)"
     "tracks t2 (trace w2)" "fleet t2 = []" "held t2 = []" using stop_many [OF 1(2), of fuel K] 1(3,4) by auto
  have "t2 = ?s" using 2(3,4) by (cases t2) simp
  then show ?thesis using serve_all_append [OF 1(1) 2(1)] 2(2,3) by (auto simp: tracks_def)
qed

text \<open>
  C21. The life of a fleet as the driver of \<^verbatim>\<open>vz-ratchet --fleet\<close> commands it: \<open>k\<close> starts of one
  child, then \<open>k\<close> stops of one child. As long as forks succeed every command is answered with the
  size of the whole fleet after it, 1 to \<open>k\<close> and then \<open>k - 1\<close> to 0, the fleet ends empty and no child is
  left running. The header comment of \<^verbatim>\<open>guest-init\<close> promises another reply for a start, the number it
  was asked to start, which would be 1 each time.
\<close>

theorem fleet_life:
  assumes "forks K" "trace w = []"
  shows "\<exists>w'. serve_all fuel K (replicate k (''fleet start '' @ show_nat 1 @ '' '' @ show_nat m) @ replicate k ''fleet stop-one'')
       \<lparr>held = [], fleet = []\<rparr> w =
       (Ok (map (\<lambda>i. ''FLEET-STARTED '' @ show_nat (Suc i)) [0..<k] @ map (\<lambda>i. ''FLEET-STOPPED '' @ show_nat i) (rev [0..<k]),
          \<lparr>held = [], fleet = []\<rparr>), w')
     \<and> fold kids_event (trace w') [] = []"
  by (rule fleet_served [OF assms])

section \<open>A scripted guest\<close>

text \<open>A kernel that feeds the console from a list of lines and numbers its children.\<close>

record script =
  inputs :: "string list"
  text_out :: string
  next_pid :: int

fun script_sys :: "call \<Rightarrow> script \<Rightarrow> mem \<Rightarrow> resp \<times> script \<times> mem" where
  "script_sys ConsoleRead x m = (case inputs x of
       [] \<Rightarrow> (\<lparr>rc = 1, rv = 0\<rparr>, x, m)
     | l # ls \<Rightarrow> (\<lparr>rc = 0, rv = 0\<rparr>, x\<lparr>inputs := ls, text_out := l\<rparr>, m))"
| "script_sys Fork x m = (\<lparr>rc = 1 + \<bar>next_pid x\<bar>, rv = 0\<rparr>, x\<lparr>next_pid := next_pid x + 1\<rparr>, m)"
| "script_sys c x m = (\<lparr>rc = 0, rv = 0x9000\<rparr>, x, m)"

definition script_kernel :: "script kernel" where
  "script_kernel = \<lparr>k_sys = script_sys, k_exit = (\<lambda>_ _. cancel_info), k_vm_info = (\<lambda>_. zero_info),
     k_line = (\<lambda>_. None), k_text = text_out, k_rusage = (\<lambda>_. no_rusage)\<rparr>"

definition script_world :: "string list \<Rightarrow> script world" where
  "script_world ls = \<lparr>ext = \<lparr>inputs = ls, text_out = [], next_pid = 1\<rparr>, wmem = (\<lambda>_. 0), trace = [], stdout = []\<rparr>"

lemma script_forks: "forks script_kernel"
  unfolding forks_def
proof (intro allI)
  fix x :: script and m
  have "0 < 1 + \<bar>next_pid x\<bar>" by linarith
  then show "0 < rc (fst (k_sys script_kernel Fork x m))" by (simp add: script_kernel_def)
qed

theorem fleet_life_witness:
  "\<exists>w'. serve_all 1 script_kernel (replicate 8 (''fleet start '' @ show_nat 1 @ '' '' @ show_nat 256) @ replicate 8 ''fleet stop-one'')
       \<lparr>held = [], fleet = []\<rparr> (script_world []) =
       (Ok (map (\<lambda>i. ''FLEET-STARTED '' @ show_nat (Suc i)) [0..<8] @ map (\<lambda>i. ''FLEET-STOPPED '' @ show_nat i) (rev [0..<8]),
          \<lparr>held = [], fleet = []\<rparr>), w')"
proof -
  have "trace (script_world []) = []" by (simp add: script_world_def)
  from fleet_life [OF script_forks this, of 1 8 256] show ?thesis by blast
qed

theorem init_session_witness:
  "\<exists>s w'. init_main 3 script_kernel (script_world [''bogus'']) = (Ok (Eof s), w')
     \<and> fleet s = fold kids_event (trace w') [] \<and> held s = fold maps_event (trace w') []"
proof -
  have "\<exists>s w'. init_main 3 script_kernel (script_world [''bogus'']) = (Ok (Eof s), w')"
    by (simp add: init_main_def mount_def open_console_def console_line_def read_text_def write_console_def serve_def strip_prefix_def
        trim_def trim_end_def is_ws_def numeral_3_eq_3 io_defs sys_def script_kernel_def script_world_def open_tries.simps(2) [of 99, simplified])
  then obtain s w' where w': "init_main 3 script_kernel (script_world [''bogus'']) = (Ok (Eof s), w')" by blast
  moreover have "trace (script_world [''bogus'']) = []" by (simp add: script_world_def)
  ultimately show ?thesis using init_session [OF _ w'] by blast
qed

end
