(* ===== verification/Cells.thy ===== *)
theory Cells
  imports Discipline
begin

text \<open>
  Properties of one cell of the allocation matrix: the specification a cell is started with
  reads back, and its sequence is disciplined exactly when the memory is unmapped first.
\<close>

section \<open>Discipline of a cell\<close>

lemma uses_cell [uses_intros]: "uses K (mmap_flags K len fl)" "uses K (release_shape K s p len)" "uses K (allocate K s len)"
    "uses K (cell_vm K ram len)" "uses K (touch_cell fuel K t ram len)" "uses K (cell_sequence K q ram len)"
  by (auto simp: mmap_flags_def release_shape_def allocate_def cell_vm_def touch_cell_def cell_sequence_def mark_pages_def
      intro!: uses_intros split: shape.split toucher.split)

lemma uses_run_cell [uses_intros]: "uses K (run_cell fuel K s t q len)"
  unfolding run_cell_def by (intro uses_intros)

text \<open>A pointer that is not null points to fresh memory, now in use.\<close>

definition fresh_at :: "ghost \<Rightarrow> nat \<Rightarrow> usize \<Rightarrow> ghost \<Rightarrow> bool" where
  "fresh_at g p len g' \<longleftrightarrow> s2 g' = s2 g \<and> live g \<subseteq> live g' \<and> (p \<noteq> 0 \<longrightarrow> alive g' p len \<and> bytes p len \<inter> live g = {})"

lemma safe_mmap_flags: "MAP_FIXED \<notin> set fl \<Longrightarrow> safe K g (mmap_flags K len fl) (\<lambda>p g'. fresh_at g p len g')"
  unfolding mmap_flags_def
  by (rule safe_bind [OF safe_mmap]) (auto simp: fresh_at_def alive_def intro!: safe_ret uses_intros)

lemma safe_allocate: "safe K g (allocate K s len) (\<lambda>p g'. fresh_at g p len g')"
proof (cases s)
  case HvAllocate
  have a: "safe K g (sys K (HvVmAllocate len fl)) (\<lambda>p g'. if rc p = 0 then fresh_at g (unat (rv p)) len g' else g' = g)" for fl
    by (rule safe_sys) (auto simp: fresh_at_def alive_def g_event_def)
  show ?thesis
    unfolding HvAllocate allocate_def shape.case
    by (rule safe_bind [OF a]) (auto simp: fresh_at_def intro!: safe_ret uses_intros split: if_splits)
qed (simp_all add: allocate_def safe_mmap_flags)

lemma safe_cell_vm:
  assumes "s2 g = (\<lambda>_. None)" "alive g ram len"
  shows "safe K g (cell_vm K ram len) (\<lambda>code g'. vm_state code ram len g')" (is "safe K g _ ?Q")
proof -
  have fr: "unmapped_vm code ram len g'" if "fresh_at g code (of_nat PAGE) g'" "code \<noteq> 0" for code g'
    using that assms by (auto simp: unmapped_vm_def fresh_at_def alive_def)
  have "safe K g' (then_io (assert_io (code \<noteq> 0) d) (then_io (write_code_page K code) (then_io (check_sys K HvVmCreate a)
      (then_io (check_sys K (HvVmMap code CODE_GPA (of_nat PAGE) (HV_MEMORY_READ OR HV_MEMORY_EXEC)) b)
      (then_io (map_rw K ram RAM_GPA len c) (ret code)))))) ?Q" if "fresh_at g code (of_nat PAGE) g'" for code g' a b c d
    by (rule safe_then [OF safe_assert [where Q = "\<lambda>_ g''. g'' = g' \<and> code \<noteq> 0"]])
      (use fr [OF that] in \<open>auto intro!: safe_weaken [OF safe_install_vm] uses_intros\<close>)
  then show ?thesis
    unfolding cell_vm_def by (intro safe_bind [OF safe_mmap_flags]) (auto intro!: uses_intros)
qed

lemma safe_touch_cell: "keeps_s2 K g (touch_cell fuel K t ram len)"
  unfolding touch_cell_def
  by (cases t) (auto intro!: safe_bind_keep safe_then_keep safe_touch safe_guest safe_intros)

lemma safe_cell_sequence:
  assumes "vm_state code ram len g" "q \<noteq> InPlace"
  shows "keeps_s2 K g (cell_sequence K q ram len)"
proof -
  let ?g = "g\<lparr>s2 := s2_unmap RAM_GPA len (s2 g)\<rparr>"
  note V = vm_stateD [OF assms(1)]
  have c: "clear_of (s2 ?g) ram len" using unmap_clears [OF V(1)] by simp
  have ad: "keeps_s2 K ?g (bind_io (sys K (Madvise ram len MADV_FREE_REUSABLE)) (\<lambda>p. ret (Some p)))"
    by (rule safe_bind_keep [OF safe_sys]) (use c in \<open>auto simp: g_event_def intro: safe_ret\<close>)
  have re: "safe K ?g (map_rw K ram RAM_GPA len b) (\<lambda>_ g'. g' = g)" for b
    by (rule safe_map_rw) (use V in \<open>simp_all add: remap_restores alive_def\<close>)
  have mid: "safe K ?g (bind_io (if q = UnmapOnly then ret None else bind_io (sys K (Madvise ram len MADV_FREE_REUSABLE)) (\<lambda>p. ret (Some p)))
      (\<lambda>r. then_io (when_io (q \<noteq> InPlace) (map_rw K ram RAM_GPA len b)) (ret r))) (\<lambda>_ g'. g' = g)" for b
    using ad assms(2) by (simp add: when_io_def) (auto intro!: safe_bind_keep safe_ret safe_then [OF re] uses_intros)
  show ?thesis
    unfolding cell_sequence_def
  proof (rule safe_then [where R = "\<lambda>_ g'. g' = ?g"])
    show "safe K g (when_io (q \<noteq> InPlace) (unmap_range K RAM_GPA len a)) (\<lambda>_ g'. g' = ?g)" for a
      using assms(2) by (simp add: when_io_def safe_unmap_range)
  qed (simp only: mid, intro uses_intros)
qed

lemma safe_cell_end:
  "safe K g (then_io (check_sys K HvVmDestroy a) (then_io (release_shape K s ram len) (sys_ignore K (Munmap code (of_nat PAGE)))))
     (\<lambda>_ g'. s2 g' = (\<lambda>_. None))"
proof -
  have d: "safe K g (check_sys K HvVmDestroy a) (\<lambda>_ g'. s2 g' = (\<lambda>_. None))"
    by (rule safe_check_sys) (auto simp: g_event_def)
  have m: "safe K g' (sys_ignore K (Munmap p n)) (\<lambda>_ g''. s2 g'' = (\<lambda>_. None))" "safe K g' (sys_ignore K (HvVmDeallocate p n)) (\<lambda>_ g''. s2 g'' = (\<lambda>_. None))"
    if "s2 g' = (\<lambda>_. None)" for g' p n
    by (rule safe_sys_ignore; use that in \<open>auto simp: clear_of_def\<close>)+
  have r: "safe K g' (release_shape K s ram len) (\<lambda>_ g''. s2 g'' = (\<lambda>_. None))" if "s2 g' = (\<lambda>_. None)" for g'
    using m [OF that] by (cases s) (simp_all add: release_shape_def)
  show ?thesis by (rule safe_then [OF d]) (auto intro!: safe_then [OF r] m uses_intros)
qed

lemma safe_run_cell:
  assumes "s2 g = (\<lambda>_. None)" "q \<noteq> InPlace"
  shows "safe K g (run_cell fuel K s t q len) (\<lambda>_ g'. s2 g' = (\<lambda>_. None))"
proof -
  have body: "safe K g' (bind_io (cell_vm K ram len) (\<lambda>code.
       then_io (touch_cell fuel K t ram len)
      (bind_io (ledger_read K) (\<lambda>before. bind_io (cell_sequence K q ram len) (\<lambda>r. bind_io (ledger_read K) (\<lambda>after.
       then_io (println x (y r before after))
      (then_io (check_sys K HvVmDestroy a) (then_io (release_shape K s ram len) (sys_ignore K (Munmap code (of_nat PAGE))))))))))) (\<lambda>_ g'. s2 g' = (\<lambda>_. None))"
    if "s2 g' = (\<lambda>_. None)" "alive g' ram len" for g' ram x y a
    by (rule safe_bind [OF safe_cell_vm [OF that]])
      (auto intro!: safe_bind_keep safe_then_keep safe_touch_cell safe_cell_sequence safe_cell_end safe_ledger_read safe_println assms(2) uses_intros)
  show ?thesis
    unfolding run_cell_def
    by (rule safe_bind_keep [OF safe_ledger_read], rule safe_bind [OF safe_allocate])
      (use assms(1) in \<open>auto simp: fresh_at_def intro!: safe_println body uses_intros\<close>)
qed

lemma safe_step:
  assumes "safe K (ghost_of (trace w)) f Q" "f w = (Ok a, w1)" "trace w' = trace w1 @ es" "honest (trace w')" "disciplined (trace w')"
  shows "Q a (ghost_of (trace w1))"
proof -
  obtain es1 where "trace w1 = trace w @ es1" using uses_trace [OF safe_uses [OF assms(1)], of w] assms(2) by auto
  then have "disciplined (trace w)" "honest (trace w1)" using assms(3-5) disciplined_prefix honest_prefix by (metis append.assoc)+
  then show ?thesis using safe_OkD [OF assms(1) _ refl assms(2)] by blast
qed

lemma calls_not_create:
  "calls_only (\<lambda>c. c \<noteq> HvVmCreate) (ledger_read K)" "calls_only (\<lambda>c. c \<noteq> HvVmCreate) (allocate K s len)"
proof -
  show "calls_only (\<lambda>c. c \<noteq> HvVmCreate) (ledger_read K)"
    unfolding ledger_read_def Let_def by (intro calls_bind calls_sys calls_then calls_ret, simp, rule calls_local) simp
  show "calls_only (\<lambda>c. c \<noteq> HvVmCreate) (allocate K s len)"
    by (cases s) (auto simp: allocate_def mmap_flags_def intro!: calls_intros calls_sys)
qed

text \<open>The cell once its shape is allocated: from the VM to the advice, which comes while the shape is mapped.\<close>

lemma inplace_caught:
  assumes run: "bind_io (cell_vm K ram len) (\<lambda>code. then_io (touch_cell fuel K t ram len) (bind_io (ledger_read K) (\<lambda>before.
        bind_io (cell_sequence K InPlace ram len) (tail code before)))) w2 = (Ok (), w')"
    and ut: "\<And>code before r. uses K (tail code before r)"
    and g: "s2 (ghost_of (trace w2)) = (\<lambda>_. None)" "alive (ghost_of (trace w2)) ram len" "0 < len" "honest (trace w')"
  shows "\<not> disciplined (trace w')"
proof
  assume D: "disciplined (trace w')"
  obtain code w3 w4 before w5 r w6 where 2: "cell_vm K ram len w2 = (Ok code, w3)" "touch_cell fuel K t ram len w3 = (Ok (), w4)"
    "ledger_read K w4 = (Ok before, w5)" "cell_sequence K InPlace ram len w5 = (Ok r, w6)" "tail code before r w6 = (Ok (), w')"
    using run by (auto simp only: bind_io_eq_Ok_iff then_io_eq_Ok_iff)
  obtain e6 where e6: "trace w' = trace w6 @ e6" using uses_trace [OF ut, of code before r w6] 2(5) by auto
  obtain p w5' where m: "sys K (Madvise ram len MADV_FREE_REUSABLE) w5 = (Ok p, w5')" using sys_total by blast
  then have w6: "trace w6 = trace w5 @ [(Madvise ram len MADV_FREE_REUSABLE, p)]"
    using 2(4) sys_trace [OF m] by (auto simp: cell_sequence_def io_defs)
  obtain e4 e5 where e: "trace w4 = trace w3 @ e4" "trace w5 = trace w4 @ e5"
    using uses_trace [of K "touch_cell fuel K t ram len" w3] uses_trace [of K "ledger_read K" w4] 2 by (auto simp: uses_intros)
  have f: "\<exists>es. trace w' = trace w3 @ es" "\<exists>es. trace w' = trace w4 @ es" "\<exists>es. trace w' = trace w5 @ es" using e e6 w6 by simp_all
  have "vm_state code ram len (ghost_of (trace w3))"
    using safe_step [OF safe_cell_vm [OF g(1,2)] 2(1) _ g(4) D] f(1) by blast
  moreover have "ghost_of (trace w4) = ghost_of (trace w3)" "ghost_of (trace w5) = ghost_of (trace w4)"
    using safe_step [OF safe_touch_cell 2(2) _ g(4) D] safe_step [OF safe_ledger_read 2(3) _ g(4) D] f(2,3) by blast+
  ultimately show False using advice_while_mapped [of code ram len "trace w5"] g(3) D e6 w6 by simp
qed

section \<open>The properties\<close>

text \<open>
  A cell that unmaps first, with or without the advice, is disciplined and leaves nothing
  mapped, whatever the shape, the toucher and the answers of the kernel.
\<close>

theorem cell_disciplined:
  assumes "q \<noteq> InPlace" "trace w = []" "run_cell fuel K s t q len w = (r, w')" "honest (trace w')"
  shows "disciplined (trace w') \<and> (r = Ok () \<longrightarrow> s2 (ghost_of (trace w')) = (\<lambda>_. None))"
proof -
  have S: "safe K (ghost_of (trace w)) (run_cell fuel K s t q len) (\<lambda>_ g'. s2 g' = (\<lambda>_. None))"
    by (rule safe_run_cell) (use assms(1,2) in \<open>simp_all add: ghost_of_def no_ghost_def\<close>)
  have D: "disciplined (trace w)" using assms(2) by (simp add: disciplined_def)
  show ?thesis using safeD [OF S D refl assms(3,4)] safe_OkD [OF S D refl _ assms(4)] assms(3) by blast
qed

text \<open>
  C35. A cell that advises in place is the trap: once it has come as far as creating its VM and
  returns, its run is not disciplined.
\<close>

theorem cell_inplace_undisciplined:
  assumes "run_cell fuel K s t InPlace len w = (Ok (), w')" "trace w = []" "0 < len" "honest (trace w')"
    and "HvVmCreate \<in> fst ` set (trace w')"
  shows "\<not> disciplined (trace w')"
proof
  assume D: "disciplined (trace w')"
  define tail where "tail = (\<lambda>(l :: ledger) ram code (before :: ledger) r. bind_io (ledger_read K) (\<lambda>after.
       then_io (println ''CELL {} {} {} {} {:.1} {:.1} {:.1} {:.1}''
         [ArgStr (shape_tag s), ArgStr (toucher_name t), ArgStr (sequence_tag InPlace), ArgStr (cell_status r),
          ArgF64 (delta_mib (phys_footprint after) (phys_footprint before)), ArgF64 (mib (phys_footprint before)),
          ArgF64 (mib (phys_footprint l)), ArgF64 (delta_mib (reusable after) (reusable before))])
      (then_io (check_sys K HvVmDestroy ''hv_vm_destroy'')
      (then_io (release_shape K s ram len) (sys_ignore K (Munmap code (of_nat PAGE)))))))"
  have ut: "uses K (tail l ram code before r)" for l ram code before r unfolding tail_def by (intro uses_intros)
  define go where "go l ram = bind_io (cell_vm K ram len) (\<lambda>code. then_io (touch_cell fuel K t ram len) (bind_io (ledger_read K) (\<lambda>before.
        bind_io (cell_sequence K InPlace ram len) (tail l ram code before))))" for l ram
  have ug: "uses K (go l ram)" for l ram unfolding go_def using ut by (intro uses_intros)
  obtain l w1 ram w2 where 1: "ledger_read K w = (Ok l, w1)" "allocate K s len w1 = (Ok ram, w2)"
    and rest: "(if ram = 0 then println ''CELL {} {} {} alloc-failed 0 0 0 0'' [ArgStr (shape_tag s), ArgStr (toucher_name t), ArgStr (sequence_tag InPlace)]
      else go l ram) w2 = (Ok (), w')"
    using assms(1) unfolding run_cell_def go_def tail_def bind_io_eq_Ok_iff [of "ledger_read K"] bind_io_eq_Ok_iff [of "allocate K s len"] by blast
  obtain e1 where e1: "trace w1 = trace w @ e1" "list_all (\<lambda>e. fst e \<noteq> HvVmCreate) e1" using calls_onlyD [OF calls_not_create(1) 1(1)] by blast
  obtain e2 where e2: "trace w2 = trace w1 @ e2" "list_all (\<lambda>e. fst e \<noteq> HvVmCreate) e2" using calls_onlyD [OF calls_not_create(2) 1(2)] by blast
  have nz: "ram \<noteq> 0"
  proof
    assume "ram = 0"
    then have "trace w' = trace w2" using rest by (auto simp: println_def)
    then show False using e1 e2 assms(2,5) by (auto simp: list_all_iff)
  qed
  then have run: "go l ram w2 = (Ok (), w')" using rest by simp
  obtain f where f: "trace w' = trace w2 @ f" using uses_trace [OF ug, of l ram w2] run by auto
  have "ghost_of (trace w1) = ghost_of (trace w)" by (rule safe_step [OF safe_ledger_read 1(1) _ assms(4) D, of "e2 @ f"]) (simp add: f e1(1) e2(1))
  then have "s2 (ghost_of (trace w1)) = (\<lambda>_. None)" by (simp add: assms(2) ghost_of_def no_ghost_def)
  moreover have "fresh_at (ghost_of (trace w1)) ram len (ghost_of (trace w2))" by (rule safe_step [OF safe_allocate 1(2) f assms(4) D])
  ultimately have "s2 (ghost_of (trace w2)) = (\<lambda>_. None)" "alive (ghost_of (trace w2)) ram len" using nz by (simp_all add: fresh_at_def)
  then show False using inplace_caught [OF run [unfolded go_def] ut] assms(3,4) D by blast
qed

theorem cell_disciplined_witness:
  "disciplined (trace (snd (run_cell 9 plat_kernel HvAllocate GuestToucher UnmapOnly 0x8000 fresh_world)))"
proof -
  obtain r w' where w': "run_cell 9 plat_kernel HvAllocate GuestToucher UnmapOnly 0x8000 fresh_world = (r, w')" by fastforce
  have "honest (trace w')" using fresh_honest [of "run_cell 9 plat_kernel HvAllocate GuestToucher UnmapOnly 0x8000"] w' by (simp add: uses_intros)
  then show ?thesis using cell_disciplined [OF _ fresh_trace w'] w' by simp
qed

theorem cell_inplace_undisciplined_witness:
  "\<not> disciplined (trace (snd (run_cell 9 plat_kernel MmapPrivate HostToucher InPlace 0x8000 fresh_world)))"
proof -
  obtain r w' where w': "run_cell 9 plat_kernel MmapPrivate HostToucher InPlace 0x8000 fresh_world = (r, w')" by fastforce
  have h: "honest (trace w')" using fresh_honest [of "run_cell 9 plat_kernel MmapPrivate HostToucher InPlace 0x8000"] w' by (simp add: uses_intros)
  have "r = Ok () \<and> HvVmCreate \<in> fst ` set (trace w')"
    using w' by (auto simp: run_cell_def cell_vm_def allocate_def mmap_flags_def touch_cell_def cell_sequence_def release_shape_def
        map_rw_def write_code_page_def write_program_def for_io_store32 mark_pages_result ledger_read_def
        ret_def bind_io_def then_io_def when_io_def assert_io_def println_def check_def check_sys_def sys_ignore_def
        sys_def plat_kernel_def success_def fresh_world_def boot_def task_vm_info_words_def MAP_FAILED_def PAGE_def)
  then show ?thesis using cell_inplace_undisciplined [OF _ fresh_trace _ h] w' by simp
qed

end
