(* ===== verification/Matrix_Correct.thy ===== *)
theory Matrix_Correct
  imports Matrix Init_Fleet Cells
begin

text \<open>
  Properties of the allocation matrix: the text of a number reads back to the nearest tenth, the
  line a cell prints becomes the row the parent judges, the matrix is complete, and what the
  verdicts say.
\<close>

section \<open>Numbers\<close>

lemma show_nat_char: "c \<in> set (show_nat n) \<Longrightarrow> 48 \<le> (of_char c :: nat) \<and> (of_char c :: nat) \<le> 57"
  using set_show_nat [of c n] of_char_digit by force

lemma show_nat_other: "c \<in> set (show_nat n) \<Longrightarrow> c \<noteq> CHR ''.'' \<and> \<not> is_exp c \<and> c \<noteq> CHR ''-'' \<and> c \<noteq> CHR ''+''"
  using show_nat_char [of c n] by (auto simp: is_exp_def)

lemma takeWhile_stop: "(\<And>c. c \<in> set a \<Longrightarrow> P c) \<Longrightarrow> \<not> P b \<Longrightarrow> takeWhile P (a @ b # r) = a \<and> dropWhile P (a @ b # r) = b # r"
  by (induction a) auto

lemma parse_mantissa_tenths: "parse_mantissa (show_tenths n) = Some (of_nat n / 10)"
proof -
  have w: "takeWhile (\<lambda>c. c \<noteq> CHR ''.'') (show_tenths n) = show_nat (n div 10)"
    "dropWhile (\<lambda>c. c \<noteq> CHR ''.'') (show_tenths n) = CHR ''.'' # show_nat (n mod 10)"
    using takeWhile_stop [of "show_nat (n div 10)" "\<lambda>c. c \<noteq> CHR ''.''" "CHR ''.''" "show_nat (n mod 10)"] show_nat_other
    by (auto simp: show_tenths_def)
  have l: "length (show_nat (n mod 10)) = 1" by (subst show_nat.simps) simp
  have "(of_nat (n div 10) + of_nat (n mod 10) / 10 :: rat) = of_nat n / 10"
  proof -
    have "(of_nat n :: rat) = of_nat (10 * (n div 10) + n mod 10)" by simp
    then show ?thesis by (simp only: of_nat_add of_nat_mult) (simp add: add_divide_distrib)
  qed
  then show ?thesis by (simp add: parse_mantissa_def Let_def w l parse_digits_show)
qed

lemma tenths_sign: "x < 0 \<Longrightarrow> tenths x \<le> 0" "0 \<le> x \<Longrightarrow> 0 \<le> tenths x"
proof -
  have f: "of_int \<lfloor>10 * x\<rfloor> \<le> 10 * x" "10 * x < of_int \<lfloor>10 * x\<rfloor> + 1" by linarith+
  show "tenths x \<le> 0" if "x < 0"
  proof -
    have "\<lfloor>10 * x\<rfloor> < 0" using that by (simp add: floor_less_iff)
    then show ?thesis by (simp add: tenths_def Let_def)
  qed
  show "0 \<le> tenths x" if "0 \<le> x" using that by (simp add: tenths_def Let_def)
qed

lemma tenths_near: "\<bar>of_int (tenths x) / 10 - x\<bar> \<le> 1 / 20"
proof -
  have f: "of_int \<lfloor>10 * x\<rfloor> \<le> 10 * x" "10 * x < of_int \<lfloor>10 * x\<rfloor> + 1" by linarith+
  have "of_int (tenths x) - 10 * x \<le> 1 / 2 \<and> 10 * x - of_int (tenths x) \<le> 1 / 2"
    unfolding tenths_def Let_def using f by (simp split: if_splits) linarith+
  then show ?thesis by linarith
qed

lemma parse_f64_fmt1: "parse_f64 (fmt1 x) = Some (of_int (tenths x) / 10)"
proof -
  let ?n = "nat \<bar>tenths x\<bar>"
  have no_e: "takeWhile (\<lambda>c. \<not> is_exp c) (show_tenths n) = show_tenths n" "dropWhile (\<lambda>c. \<not> is_exp c) (show_tenths n) = []" for n
    using show_nat_other by (auto simp: show_tenths_def is_exp_def takeWhile_eq_all_conv dropWhile_eq_Nil_conv)
  obtain c cs where c: "show_tenths ?n = c # cs" "c \<noteq> CHR ''-''" "c \<noteq> CHR ''+''"
    using show_nat_other [of _ "?n div 10"] by (cases "show_nat (?n div 10)") (auto simp: show_tenths_def)
  show ?thesis
  proof (cases "x < 0")
    case True
    then have t: "of_nat ?n = - (of_int (tenths x) :: rat)" using tenths_sign(1) [OF True] by (simp add: abs_if of_nat_nat)
    show ?thesis using True t by (simp add: fmt1_def parse_f64_def Let_def no_e parse_mantissa_tenths)
  next
    case False
    then have t: "of_nat ?n = (of_int (tenths x) :: rat)" using tenths_sign(2) [of x] by (simp add: of_nat_nat)
    have "take 1 (show_tenths ?n) \<noteq> ''-''" "take 1 (show_tenths ?n) \<noteq> ''+''" using c by auto
    then show ?thesis using False t by (simp add: fmt1_def parse_f64_def Let_def no_e parse_mantissa_tenths)
  qed
qed

section \<open>Lines\<close>

primrec unwords :: "string list \<Rightarrow> string" where
  "unwords [] = []"
| "unwords (u # us) = u @ concat (map (\<lambda>v. '' '' @ v) us)"

definition word :: "string \<Rightarrow> bool" where
  "word u \<longleftrightarrow> u \<noteq> [] \<and> (\<forall>c\<in>set u. \<not> is_ws c)"

lemma words_acc_word: "(\<And>c. c \<in> set u \<Longrightarrow> \<not> is_ws c) \<Longrightarrow> words_acc acc (u @ xs) = words_acc (rev u @ acc) xs"
  by (induction u arbitrary: acc) auto

lemma words_concat: "acc \<noteq> [] \<Longrightarrow> list_all word us \<Longrightarrow> words_acc acc (concat (map (\<lambda>v. '' '' @ v) us)) = rev acc # us"
proof (induction us arbitrary: acc)
  case (Cons u us)
  then have u: "u \<noteq> []" "\<And>c. c \<in> set u \<Longrightarrow> \<not> is_ws c" "list_all word us" by (auto simp: word_def [of u])
  have "words_acc [] (u @ concat (map (\<lambda>v. '' '' @ v) us)) = u # us"
    using u Cons.IH [of "rev u"] words_acc_word [of u "[]"] by simp
  then show ?case using Cons.prems(1) by (simp add: blank)
qed simp

lemma split_unwords: "list_all word us \<Longrightarrow> split_whitespace (unwords us) = us"
proof (cases us)
  case (Cons u vs)
  assume "list_all word us"
  then show ?thesis
    using words_acc_word [of u "[]" "concat (map (\<lambda>v. '' '' @ v) vs)"] words_concat [of "rev u" vs] Cons
    by (auto simp: split_whitespace_def word_def)
qed (simp add: split_whitespace_def)

lemma word_tags [simp]: "word (shape_tag s)" "word (toucher_name t)" "word (sequence_tag q)" "word ''CELL''"
  by (cases s; simp add: word_def shape_tag_def is_ws_def; fail | cases t; simp add: word_def toucher_name_def is_ws_def; fail
     | cases q; simp add: word_def sequence_tag_def is_ws_def; fail | simp add: word_def is_ws_def)+

lemma word_append: "word u \<Longrightarrow> (\<And>c. c \<in> set v \<Longrightarrow> \<not> is_ws c) \<Longrightarrow> word (u @ v)"
  by (auto simp: word_def)

lemma word_show_nat [simp]: "word (show_nat n)"
  using show_nat_no_ws by (auto simp: word_def)

lemma word_status [simp]: "word (cell_status r)"
proof -
  have "word (''errno'' @ show_nat n)" for n by (rule word_append) (auto simp: word_def is_ws_def dest: show_nat_no_ws)
  moreover have "word ''none''" "word ''ok''" by (simp_all add: word_def is_ws_def)
  ultimately show ?thesis by (simp add: cell_status_def split: option.split)
qed

lemma word_fmt1 [simp]: "word (fmt1 x)"
  by (auto simp: fmt1_def show_tenths_def word_def is_ws_def dest: show_nat_no_ws)


text \<open>The line of a measured cell and of a cell that could not be allocated.\<close>

lemma measured_text:
  "format ''CELL {} {} {} {} {:.1} {:.1} {:.1} {:.1}'' [ArgStr a, ArgStr b, ArgStr c, ArgStr st, ArgF64 d, ArgF64 e, ArgF64 f, ArgF64 g] =
     unwords [''CELL'', a, b, c, st, fmt1 d, fmt1 e, fmt1 f, fmt1 g]"
  by simp

lemma failed_text:
  "format ''CELL {} {} {} alloc-failed 0 0 0 0'' [ArgStr a, ArgStr b, ArgStr c] =
     unwords [''CELL'', a, b, c, ''alloc-failed'', ''0'', ''0'', ''0'', ''0'']"
  by simp

text \<open>What a printed line says, and what a row makes of it.\<close>

definition near :: "rat \<Rightarrow> rat \<Rightarrow> bool" where
  "near v x \<longleftrightarrow> \<bar>v - x\<bar> \<le> 1 / 20"

inductive reports :: "line \<Rightarrow> matrix_row \<Rightarrow> bool" where
  no_memory: "r_status m = ''alloc-failed'' \<Longrightarrow> r_delta_mib m = 0 \<Longrightarrow> r_before_mib m = 0 \<Longrightarrow> r_host_idle_mib m = 0 \<Longrightarrow> r_reusable_mib m = 0
     \<Longrightarrow> reports (Line f [a, b, c]) m"
| numbers: "r_status m = st \<Longrightarrow> near (r_delta_mib m) d \<Longrightarrow> near (r_before_mib m) e \<Longrightarrow> near (r_host_idle_mib m) i \<Longrightarrow> near (r_reusable_mib m) u
     \<Longrightarrow> reports (Line f [a, b, c, ArgStr st, ArgF64 d, ArgF64 e, ArgF64 i, ArgF64 u]) m"

text \<open>The lines a cell can print.\<close>

inductive cell_line :: "shape \<Rightarrow> toucher \<Rightarrow> sequence \<Rightarrow> line \<Rightarrow> bool" for s t q where
  failed: "cell_line s t q (Line ''CELL {} {} {} alloc-failed 0 0 0 0'' [ArgStr (shape_tag s), ArgStr (toucher_name t), ArgStr (sequence_tag q)])"
| measured: "cell_line s t q (Line ''CELL {} {} {} {} {:.1} {:.1} {:.1} {:.1}''
     [ArgStr (shape_tag s), ArgStr (toucher_name t), ArgStr (sequence_tag q), ArgStr (cell_status r), ArgF64 d, ArgF64 e, ArgF64 i, ArgF64 u])"

lemma near_tenths: "near (of_int (tenths x) / 10) x"
  unfolding near_def by (rule tenths_near)

lemma parse_zero: "parse_f64 ''0'' = Some 0"
  by (simp add: parse_f64_def parse_mantissa_def Let_def is_exp_def digit_value_def)

lemma cell_line_row:
  assumes "cell_line s t q l"
  shows "\<exists>m. parse_row s t q (line_text l) = Ok m \<and> reports l m \<and> r_shape m = s \<and> r_toucher m = t \<and> r_sequence m = q"
  using assms
proof cases
  case failed
  have "word ''alloc-failed''" "word ''0''" by (simp_all add: word_def is_ws_def)
  then have "split_whitespace (line_text l) = [''CELL'', shape_tag s, toucher_name t, sequence_tag q, ''alloc-failed'', ''0'', ''0'', ''0'', ''0'']"
    unfolding failed line_text.simps failed_text by (intro split_unwords) simp
  then show ?thesis unfolding failed by (simp add: parse_row_def Let_def field_f64_def parse_zero reports.intros)
next
  case (measured r d e i u)
  have "split_whitespace (line_text l) = [''CELL'', shape_tag s, toucher_name t, sequence_tag q, cell_status r, fmt1 d, fmt1 e, fmt1 i, fmt1 u]"
    unfolding measured line_text.simps measured_text by (intro split_unwords) simp
  then show ?thesis unfolding measured by (simp add: parse_row_def Let_def field_f64_def parse_f64_fmt1 near_tenths reports.intros)
qed


section \<open>Effects that print nothing\<close>

definition silent :: "('x, 'a) io \<Rightarrow> bool" where
  "silent f \<longleftrightarrow> (\<forall>w. stdout (snd (f w)) = stdout w)"

named_theorems silent_intros \<open>effects that print nothing\<close>

lemma silentD: "silent f \<Longrightarrow> f w = (r, w') \<Longrightarrow> stdout w' = stdout w"
  unfolding silent_def by (metis snd_conv)

lemma silent_basic [silent_intros]: "silent (ret a)" "silent (throw p)" "silent out_of_fuel" "silent (sys K c)" "silent (load64 m)"
    "silent (store64 m v)" "silent (store32 n v32)" "silent (assert_io b msg)" "silent (check r what)" "silent (read_exit K vcpu)"
  by (auto simp: silent_def io_defs out_of_fuel_def read_exit_def sys_def split: prod.split)

lemma silent_bind [silent_intros]: "silent f \<Longrightarrow> (\<And>a. silent (h a)) \<Longrightarrow> silent (bind_io f h)"
  by (simp add: silent_def bind_io_def split: prod.split outcome.split) (metis snd_conv)

lemma silent_then [silent_intros]: "silent f \<Longrightarrow> silent h \<Longrightarrow> silent (then_io f h)"
  by (simp add: then_io_def silent_bind)

lemma silent_calls [silent_intros]: "silent (check_sys K c what)" "silent (sys_ignore K c)" "silent f \<Longrightarrow> silent (when_io b f)"
  by (auto simp: check_sys_def sys_ignore_def when_io_def intro!: silent_intros)

lemma silent_for [silent_intros]: "(\<And>i. silent (f i)) \<Longrightarrow> silent (for_io is f)"
  by (induction "is") (auto intro: silent_intros)

lemma silent_ledger_read [silent_intros]: "silent (ledger_read K)"
  unfolding ledger_read_def by (intro silent_intros) (simp add: silent_def Let_def)

lemma silent_pass_loop: "silent (pass_loop fuel K v)"
  by (induction fuel) (auto simp: run_to_doorbell_def Let_def intro!: silent_intros split: guest_exit.split)

lemma silent_touch_pass [silent_intros]: "silent (run_touch_pass fuel K v len)"
  unfolding run_touch_pass_def run_touch_range_def run_pass_def write_reg_def by (intro silent_intros silent_pass_loop)

lemma silent_cell [silent_intros]: "silent (allocate K s len)" "silent (cell_vm K ram len)" "silent (touch_cell fuel K t ram len)"
    "silent (cell_sequence K q ram len)" "silent (release_shape K s ram len)"
  by (auto simp: allocate_def mmap_flags_def cell_vm_def write_code_page_def write_program_def map_rw_def unmap_range_def touch_cell_def
      write_reg_def mark_pages_def cell_sequence_def release_shape_def intro!: silent_intros split: shape.split toucher.split)

text \<open>A cell that returns has printed exactly one line, its own.\<close>

lemma run_cell_prints:
  assumes "run_cell fuel K s t q len w = (Ok (), w')"
  shows "\<exists>l. stdout w' = stdout w @ [l] \<and> cell_line s t q l"
proof -
  define tail where "tail = (\<lambda>ram code. then_io (check_sys K HvVmDestroy ''hv_vm_destroy'')
      (then_io (release_shape K s ram len) (sys_ignore K (Munmap code (of_nat PAGE)))))"
  have st: "silent (tail ram code)" for ram code unfolding tail_def by (intro silent_intros)
  obtain l w1 ram w2 where 1: "ledger_read K w = (Ok l, w1)" "allocate K s len w1 = (Ok ram, w2)"
    and rest: "(if ram = 0 then println ''CELL {} {} {} alloc-failed 0 0 0 0'' [ArgStr (shape_tag s), ArgStr (toucher_name t), ArgStr (sequence_tag q)]
      else bind_io (cell_vm K ram len) (\<lambda>code. then_io (touch_cell fuel K t ram len) (bind_io (ledger_read K) (\<lambda>before.
        bind_io (cell_sequence K q ram len) (\<lambda>r. bind_io (ledger_read K) (\<lambda>after.
       then_io (println ''CELL {} {} {} {} {:.1} {:.1} {:.1} {:.1}''
         [ArgStr (shape_tag s), ArgStr (toucher_name t), ArgStr (sequence_tag q), ArgStr (cell_status r),
          ArgF64 (delta_mib (phys_footprint after) (phys_footprint before)), ArgF64 (mib (phys_footprint before)),
          ArgF64 (mib (phys_footprint l)), ArgF64 (delta_mib (reusable after) (reusable before))]) (tail ram code))))))) w2 = (Ok (), w')"
    using assms unfolding run_cell_def tail_def bind_io_eq_Ok_iff [of "ledger_read K" _ w] bind_io_eq_Ok_iff [of "allocate K s len"] by blast
  have so: "stdout w2 = stdout w" using 1 silentD [OF silent_ledger_read] silentD [OF silent_cell(1)] by metis
  show ?thesis
  proof (cases "ram = 0")
    case True
    then show ?thesis using rest so by (auto simp: println_def intro: cell_line.failed)
  next
    case False
    then obtain code w3 w4 before w5 r w6 after w7 w8 where 2: "cell_vm K ram len w2 = (Ok code, w3)" "touch_cell fuel K t ram len w3 = (Ok (), w4)"
      "ledger_read K w4 = (Ok before, w5)" "cell_sequence K q ram len w5 = (Ok r, w6)" "ledger_read K w6 = (Ok after, w7)"
      and p: "println ''CELL {} {} {} {} {:.1} {:.1} {:.1} {:.1}''
         [ArgStr (shape_tag s), ArgStr (toucher_name t), ArgStr (sequence_tag q), ArgStr (cell_status r),
          ArgF64 (delta_mib (phys_footprint after) (phys_footprint before)), ArgF64 (mib (phys_footprint before)),
          ArgF64 (mib (phys_footprint l)), ArgF64 (delta_mib (reusable after) (reusable before))] w7 = (Ok (), w8)"
      and e: "tail ram code w8 = (Ok (), w')"
      using rest by (auto simp only: if_False bind_io_eq_Ok_iff then_io_eq_Ok_iff)
    have "stdout w7 = stdout w2"
      using 2 silentD [OF silent_ledger_read 2(3)] silentD [OF silent_ledger_read 2(5)] silentD [OF silent_cell(2) 2(1)]
        silentD [OF silent_cell(3) 2(2)] silentD [OF silent_cell(4) 2(4)] by simp
    moreover have "stdout w' = stdout w8" by (rule silentD [OF st e])
    ultimately show ?thesis using p so by (auto simp: println_def intro: cell_line.measured)
  qed
qed


section \<open>From the cell to the parent\<close>

lemma unwords_set: "c \<in> set (unwords us) \<Longrightarrow> c = CHR '' '' \<or> (\<exists>u\<in>set us. c \<in> set u)"
  by (cases us) (auto split: if_splits)

lemma cell_line_text: "cell_line s t q l \<Longrightarrow> \<exists>us. line_text l = unwords us \<and> list_all word us \<and> (\<exists>vs. us = ''CELL'' # shape_tag s # vs)"
  by (induction rule: cell_line.induct; unfold line_text.simps measured_text failed_text; intro exI conjI; (rule refl)?)
    (simp_all add: word_def [of "''alloc-failed''"] word_def [of "''0''"] is_ws_def)

lemma cell_line_chars:
  assumes "cell_line s t q l"
  shows "char_of (10::nat) \<notin> set (line_text l)" "strip_cr (line_text l) = line_text l" "\<exists>r. strip_prefix ''CELL '' (line_text l) = Some r"
proof -
  obtain us vs where us: "line_text l = unwords us" "list_all word us" "us = ''CELL'' # shape_tag s # vs" using cell_line_text [OF assms] by blast
  have c: "\<not> is_ws c \<or> c = CHR '' ''" if "c \<in> set (line_text l)" for c
    using that us(2) unwords_set [of c us] by (auto simp: us(1) list_all_iff word_def)
  have nl: "is_ws (char_of (10::nat))" "is_ws (char_of (13::nat))" by (simp_all add: is_ws_def)
  have sp: "char_of (10::nat) \<noteq> CHR '' ''" "char_of (13::nat) \<noteq> CHR '' ''" by (simp_all add: char_of_def bit_0)
  show "char_of (10::nat) \<notin> set (line_text l)" using c nl sp by blast
  have "line_text l \<noteq> []" using us by simp
  then have "last (line_text l) \<noteq> char_of (13::nat)" using c nl sp last_in_set by metis
  then show "strip_cr (line_text l) = line_text l" by (simp add: strip_cr_def)
  show "\<exists>r. strip_prefix ''CELL '' (line_text l) = Some r" unfolding strip_prefix_Some_iff using us by simp
qed

lemma lines_of_one: "char_of (10::nat) \<notin> set s \<Longrightarrow> strip_cr s = s \<Longrightarrow> lines_of (s @ [char_of (10::nat)]) = [s]"
  by (simp add: lines_of_def split_on_append)

text \<open>The text a child's printed lines leave in the pipe.\<close>

definition pipe_text :: "line list \<Rightarrow> string" where
  "pipe_text ls = concat (map (\<lambda>l. line_text l @ [char_of (10::nat)]) ls)"

lemma matrix_cell_step:
  assumes "k_sys K (SpawnCell (cell_spec s t q gb)) (ext v) (wmem v) = (r, x', m')" "rc r = 0"
    and "List.find (\<lambda>l. strip_prefix ''CELL '' l \<noteq> None) (lines_of (k_text K x')) = Some line" "parse_row s t q line = Ok m"
  shows "matrix_cell K gb (s, t, q) rows v = (Ok (rows @ [m]), v\<lparr>ext := x', wmem := m', trace := trace v @ [(SpawnCell (cell_spec s t q gb), r)]\<rparr>)"
  using assms by (simp add: matrix_cell_def sys_def bind_io_def read_text_def lift_def ret_def)


definition key :: "matrix_row \<Rightarrow> shape \<times> toucher \<times> sequence" where
  "key m = (r_shape m, r_toucher m, r_sequence m)"

lemma parse_row_key: "parse_row s t q line = Ok m \<Longrightarrow> key m = (s, t, q)"
  by (auto simp: parse_row_def key_def Let_def split: if_splits)

lemma matrix_cell_inv:
  assumes "matrix_cell K gb (s, t, q) rows w = (Ok rows', w')"
  shows "\<exists>m p. rows' = rows @ [m] \<and> key m = (s, t, q) \<and> trace w' = trace w @ [(SpawnCell (cell_spec s t q gb), p)]"
proof -
  obtain p w1 where p: "sys K (SpawnCell (cell_spec s t q gb)) w = (Ok p, w1)" using sys_total by blast
  then have b: "bind_io (sys K (SpawnCell (cell_spec s t q gb))) h w = h p w1" "bind_io (read_text K) h' w1 = h' (k_text K (ext w1)) w1" for h h'
    by (simp_all add: bind_io_def read_text_def)
  have "rc p = 0" using assms by (auto simp: matrix_cell_def b split: if_splits)
  then obtain line where "bind_io (lift (parse_row s t q line)) (\<lambda>r. ret (rows @ [r])) w1 = (Ok rows', w')"
    using assms by (auto simp: matrix_cell_def b split: option.splits)
  then have "\<exists>m. parse_row s t q line = Ok m \<and> rows' = rows @ [m] \<and> w' = w1"
    by (cases "parse_row s t q line") (auto simp: lift_def bind_io_def ret_def throw_def out_of_fuel_def)
  then show ?thesis using sys_trace [OF p] parse_row_key by blast
qed

lemma matrix_fold_inv:
  "fold_io cs (matrix_cell K gb) rows w = (Ok rows', w') \<Longrightarrow>
     map key rows' = map key rows @ cs \<and> map fst (trace w') = map fst (trace w) @ map (\<lambda>(s, t, q). SpawnCell (cell_spec s t q gb)) cs"
proof (induction cs arbitrary: rows w)
  case (Cons c cs)
  obtain s t q where c: "c = (s, t, q)" by (cases c)
  obtain rows1 w1 where 1: "matrix_cell K gb c rows w = (Ok rows1, w1)" "fold_io cs (matrix_cell K gb) rows1 w1 = (Ok rows', w')"
    using Cons.prems by (auto simp: bind_io_eq_Ok_iff)
  show ?case using Cons.IH [OF 1(2)] matrix_cell_inv [OF 1(1) [unfolded c]] by (auto simp: c)
qed simp

lemma find_key: "c \<in> set (map key rows) \<Longrightarrow> \<exists>m. List.find (\<lambda>r. key r = c) rows = Some m \<and> key m = c"
  by (induction rows) auto

lemma matrix_cells_all: "c \<in> set matrix_cells"
proof -
  obtain s t q where "c = (s, t, q)" by (cases c)
  then show ?thesis by (cases s; cases t; cases q; simp add: matrix_cells_def)
qed

lemma find_cell_present: "map key rows = matrix_cells \<Longrightarrow> \<exists>m. find_cell rows s t q = Ok m \<and> key m = (s, t, q)"
  using find_key [of "(s, t, q)" rows] matrix_cells_all [of "(s, t, q)"] by (auto simp: find_cell_def key_def)

text \<open>Which panics an effect can end in.\<close>

definition never :: "panic \<Rightarrow> ('x, 'a) io \<Rightarrow> bool" where
  "never p f \<longleftrightarrow> (\<forall>w. fst (f w) \<noteq> Panic p)"

lemma never_basic: "never p (ret a)" "never p (sys K c)" "never p (println fmt args)" "p' \<noteq> p \<Longrightarrow> never p (throw p')"
    "never p (read_text K)" "r \<noteq> Panic p \<Longrightarrow> never p (lift r)"
  by (auto simp: never_def io_defs sys_def read_text_def lift_def out_of_fuel_def split: prod.split outcome.split)

lemma never_bindI: "never p f \<Longrightarrow> (\<And>a w w'. f w = (Ok a, w') \<Longrightarrow> fst (h a w') \<noteq> Panic p) \<Longrightarrow> never p (bind_io f h)"
  by (simp add: never_def bind_io_def split: prod.split outcome.split) (metis fst_conv)

lemma never_bind: "never p f \<Longrightarrow> (\<And>a. never p (h a)) \<Longrightarrow> never p (bind_io f h)"
  by (rule never_bindI) (auto simp: never_def)

lemma never_then: "never p f \<Longrightarrow> never p h \<Longrightarrow> never p (then_io f h)"
  by (simp add: then_io_def never_bind)

lemma never_loops: "(\<And>i. never p (f i)) \<Longrightarrow> never p (for_io is f)" "(\<And>i a. never p (h i a)) \<Longrightarrow> never p (fold_io is h b)"
  by (induction "is" arbitrary: b) (auto intro!: never_basic never_then never_bind)

lemma never_matrix_cell: "never (Expect ''cell present'') (matrix_cell K gb c rows)"
  by (auto simp: matrix_cell_def parse_row_def Let_def intro!: never_basic never_bind split: prod.split option.split)

lemma never_print: "never p (print_lines ls)" "never p (print_row m)"
  by (auto simp: print_lines_def print_row_def intro!: never_basic never_loops split: line.split)

lemma judge_finds: "map key rows = matrix_cells \<Longrightarrow> fst (judge rows (w :: 'x world)) \<noteq> Panic (Expect ''cell present'')"
proof -
  assume "map key rows = matrix_cells"
  then have "find_cell rows s t q \<noteq> Panic (Expect ''cell present'')" for s t q using find_cell_present [of rows s t q] by auto
  then have "never (Expect ''cell present'') (judge rows :: ('x, unit) io)"
    unfolding judge_def by (intro never_then never_bind never_loops never_print never_basic)
  then show ?thesis by (simp add: never_def)
qed

text \<open>Judging makes no calls.\<close>

lemma calls_for: "(\<And>i. calls_only P (f i)) \<Longrightarrow> calls_only P (for_io is f)"
  by (induction "is") (auto intro!: calls_intros)

lemma calls_lift: "calls_only P (lift r)"
  by (cases r) (auto simp: lift_def intro!: calls_intros)

lemma calls_print: "calls_only P (print_lines ls)" "calls_only P (print_row m)"
  by (auto simp: print_lines_def print_row_def intro!: calls_for calls_intros split: line.split)

lemma quiet_judge: "trace (snd (judge rows (w :: 'x world))) = trace w"
proof -
  have "calls_only (\<lambda>_. False) (judge rows :: ('x, unit) io)"
    unfolding judge_def by (intro calls_then calls_bind calls_for calls_lift calls_print calls_ret)
  then obtain es where "trace (snd (judge rows w)) = trace w @ es" "list_all (\<lambda>_. False) es" unfolding calls_only_def by blast
  then show ?thesis by (cases es) simp_all
qed

text \<open>
  C34. The parent never misses a cell: whatever the children print, the lookups of the verdict
  find their rows.
\<close>

theorem matrix_never_missing: "fst (alloc_run K gb w) \<noteq> Panic (Expect ''cell present'')"
proof -
  have "never (Expect ''cell present'') (alloc_run K gb)"
    unfolding alloc_run_def
  proof (intro never_then never_bind never_basic, goal_cases)
    case (1 e)
    have "never (Expect ''cell present'') (bind_io (fold_io matrix_cells (matrix_cell K gb) []) judge)"
      by (rule never_bindI) (auto intro!: never_loops never_matrix_cell simp: judge_finds dest!: matrix_fold_inv)
    then show ?case by (simp add: never_basic)
  qed
  then show ?thesis by (simp add: never_def)
qed


text \<open>
  C24. When the matrix returns, it has spawned exactly one child for each of the eighteen
  combinations, and each child's specification reads back as its own combination.
\<close>

theorem matrix_complete:
  assumes "alloc_run K gb w = (Ok (), w')"
  shows "map fst (trace w') = map fst (trace w) @ CurrentExe # map (\<lambda>(s, t, q). SpawnCell (cell_spec s t q gb)) matrix_cells
     \<and> distinct matrix_cells \<and> length matrix_cells = 18 \<and> (\<forall>s t q. (s, t, q) \<in> set matrix_cells)
     \<and> (\<forall>s t q. parse_cell (cell_spec s t q gb) = Ok (s, t, q, gb))"
proof -
  obtain e w1 where e: "sys K CurrentExe (w\<lparr>stdout := stdout w @ [Line alloc_text [ArgNat (unat gb)]]\<rparr>) = (Ok e, w1)"
    using sys_total by blast
  obtain rows w2 where 2: "fold_io matrix_cells (matrix_cell K gb) [] w1 = (Ok rows, w2)" "judge rows w2 = (Ok (), w')"
    using assms e by (auto simp: alloc_run_def then_io_def println_def bind_io_eq_Ok_iff throw_def split: if_splits)
  have j: "trace w' = trace w2" using quiet_judge 2(2) by (metis snd_conv)
  have m: "distinct matrix_cells" "length matrix_cells = 18" by (simp_all add: matrix_cells_def)
  show ?thesis
    using matrix_fold_inv [OF 2(1)] sys_trace [OF e] m by (simp add: j matrix_cells_all parse_cell_spec)
qed


text \<open>A run in which every child answers.\<close>

definition cells_answer :: "'x kernel \<Rightarrow> bool" where
  "cells_answer K \<longleftrightarrow> (\<forall>x m. rc (fst (k_sys K CurrentExe x m)) = 0) \<and> (\<forall>spec x m. case k_sys K (SpawnCell spec) x m of (r, x', m') \<Rightarrow>
     rc r = 0 \<and> (\<exists>l. List.find (\<lambda>l. strip_prefix ''CELL '' l \<noteq> None) (lines_of (k_text K x')) = Some l \<and> 5 < length (split_whitespace l)))"

lemma cells_answerD:
  assumes "cells_answer K" "k_sys K (SpawnCell spec) x m = (r, x', m')"
  shows "rc r = 0 \<and> (\<exists>l. List.find (\<lambda>l. strip_prefix ''CELL '' l \<noteq> None) (lines_of (k_text K x')) = Some l \<and> 5 < length (split_whitespace l))"
  using assms(1) [unfolded cells_answer_def, THEN conjunct2, rule_format, of spec x m] unfolding assms(2) prod.case .

lemma matrix_cell_answers: "cells_answer K \<Longrightarrow> \<exists>rows' w'. matrix_cell K gb c rows w = (Ok rows', w')"
proof -
  assume a: "cells_answer K"
  obtain s t q where c: "c = (s, t, q)" by (cases c)
  obtain r x' m' where k: "k_sys K (SpawnCell (cell_spec s t q gb)) (ext w) (wmem w) = (r, x', m')" by (metis prod.exhaust)
  then obtain l where l: "rc r = 0" "List.find (\<lambda>l. strip_prefix ''CELL '' l \<noteq> None) (lines_of (k_text K x')) = Some l" "5 < length (split_whitespace l)"
    using cells_answerD [OF a k] by blast
  then obtain m where "parse_row s t q l = Ok m" by (simp add: parse_row_def Let_def)
  from matrix_cell_step [OF k l(1,2) this] show ?thesis unfolding c by blast
qed

lemma matrix_fold_answers: "cells_answer K \<Longrightarrow> \<exists>rows' w'. fold_io cs (matrix_cell K gb) rows w = (Ok rows', w')"
proof (induction cs arbitrary: rows w)
  case (Cons c cs)
  obtain rows1 w1 where "matrix_cell K gb c rows w = (Ok rows1, w1)" using matrix_cell_answers [OF Cons.prems] by blast
  then show ?case using Cons.IH [OF Cons.prems, of rows1 w1] by (simp add: bind_io_Ok)
qed (simp add: ret_def)

text \<open>Effects that return whatever the world.\<close>

definition returns :: "('x, 'a) io \<Rightarrow> bool" where
  "returns f \<longleftrightarrow> (\<forall>w. \<exists>a w'. f w = (Ok a, w'))"

lemma returns_basic: "returns (ret a)" "returns (println fmt args)" "returns (lift (Ok b))"
  by (simp_all add: returns_def ret_def println_def lift_def)

lemma returns_bind: "returns f \<Longrightarrow> (\<And>a. returns (h a)) \<Longrightarrow> returns (bind_io f h)"
  unfolding returns_def bind_io_eq_Ok_iff by blast

lemma returns_then: "returns f \<Longrightarrow> returns h \<Longrightarrow> returns (then_io f h)"
  by (simp add: then_io_def returns_bind)

lemma returns_for: "(\<And>i. returns (f i)) \<Longrightarrow> returns (for_io is f)"
  by (induction "is") (auto intro: returns_basic returns_then)

lemma judge_total:
  assumes "map key rows = matrix_cells"
  shows "\<exists>w'. judge rows (w :: 'x world) = (Ok (), w')"
proof -
  have f: "returns (lift (find_cell rows s t q))" for s t q
    using find_cell_present [OF assms, of s t q] by (auto intro: returns_basic)
  have p: "returns (print_lines ls)" "returns (print_row m)" for ls m
    by (auto simp: print_lines_def print_row_def intro!: returns_for returns_basic split: line.split)
  have "returns (judge rows :: ('x, unit) io)"
    unfolding judge_def by (intro returns_then returns_bind returns_for f p returns_basic)
  then show ?thesis by (simp add: returns_def)
qed

lemma matrix_returns:
  assumes "cells_answer K"
  shows "\<exists>w'. alloc_run K gb w = (Ok (), w')"
proof -
  obtain w1 where w1: "alloc_run K gb w = bind_io (sys K CurrentExe) (\<lambda>e. if rc e \<noteq> 0 then throw (Expect ''current_exe'')
     else bind_io (fold_io matrix_cells (matrix_cell K gb) []) judge) w1" by (auto simp: alloc_run_def io_defs)
  obtain e w2 where e: "sys K CurrentExe w1 = (Ok e, w2)" using sys_total by blast
  then have "rc e = 0" using assms by (auto simp: sys_def cells_answer_def split: prod.splits) (metis fst_conv)
  then have "alloc_run K gb w = bind_io (fold_io matrix_cells (matrix_cell K gb) []) judge w2" using e by (simp add: w1 bind_io_def)
  moreover obtain rows w3 where "fold_io matrix_cells (matrix_cell K gb) [] w2 = (Ok rows, w3)" using matrix_fold_answers [OF assms] by blast
  moreover from this have "map key rows = matrix_cells" using matrix_fold_inv by fastforce
  ultimately show ?thesis using judge_total [of rows w3] by (simp add: bind_io_Ok)
qed


section \<open>The properties\<close>

text \<open>
  A number printed with one decimal and parsed again is the nearest tenth: never more than a
  twentieth away from what was printed.
\<close>

theorem fmt1_roundtrip: "\<exists>v. parse_f64 (fmt1 x) = Some v \<and> \<bar>v - x\<bar> \<le> 1 / 20"
  using parse_f64_fmt1 tenths_near by blast

text \<open>
  C23. From the environment to the row: a child started with the specification of a cell that ends
  normally has printed one line, and when the parent reads that line from the pipe it appends a
  row of the same cell, with the status as printed and every number the nearest tenth.
\<close>

theorem cell_reaches_parent:
  assumes "maybe_run_cell fuel K (Some (cell_spec s t q gb)) w = (Ok b, w')" "stdout w = []"
    and "k_sys K' (SpawnCell (cell_spec s t q gb)) (ext v) (wmem v) = (r, x', m')" "rc r = 0" "k_text K' x' = pipe_text (stdout w')"
  shows "\<exists>l m v'. stdout w' = [l] \<and> matrix_cell K' gb (s, t, q) rows v = (Ok (rows @ [m]), v') \<and> reports l m
     \<and> r_shape m = s \<and> r_toucher m = t \<and> r_sequence m = q"
proof -
  have "run_cell fuel K s t q (push_bit 30 gb) w = (Ok (), w')"
    using assms(1) by (auto simp: maybe_run_cell_def parse_cell_spec then_io_def bind_io_eq_Ok_iff)
  then obtain l where l: "stdout w' = [l]" "cell_line s t q l" using run_cell_prints assms(2) by fastforce
  obtain m where m: "parse_row s t q (line_text l) = Ok m" "reports l m" "r_shape m = s" "r_toucher m = t" "r_sequence m = q"
    using cell_line_row [OF l(2)] by blast
  have "lines_of (k_text K' x') = [line_text l]"
    unfolding assms(5) l(1) pipe_text_def using lines_of_one [OF cell_line_chars(1,2) [OF l(2)]] by simp
  then have "List.find (\<lambda>l. strip_prefix ''CELL '' l \<noteq> None) (lines_of (k_text K' x')) = Some (line_text l)"
    using cell_line_chars(3) [OF l(2)] by auto
  from matrix_cell_step [OF assms(3,4) this m(1)] show ?thesis using l(1) m by blast
qed

text \<open>
  The table and the verdicts agree: a row counts as released in a verdict exactly when its line
  of the table says so, and the third verdict is printed exactly when the table shows both
  unmapping cells of guest-touched private memory released and the host-touched one not.
\<close>

theorem verdicts_agree:
  "(row_released m \<longleftrightarrow> released_label m = ''YES'')
   \<and> (verdict_3 m1 m2 m3 \<noteq> [] \<longleftrightarrow> released_label m1 = ''YES'' \<and> released_label m2 = ''YES'' \<and> released_label m3 \<noteq> ''YES'')"
  by (auto simp: row_released_def released_label_def verdict_3_def)

text \<open>
  The second verdict says ``charged and released by nothing'' of memory that was never
  allocated: a cell with status \<open>alloc-failed\<close> has no charge, and counts as not released.
\<close>

theorem verdict_2_uncharged:
  assumes "\<And>m. m \<in> set rows \<Longrightarrow> r_shape m = HvAllocate \<Longrightarrow> reports (Line f [a, b, c]) m"
    and "hv \<in> set rows" "r_shape hv = HvAllocate"
  shows "verdict_2 rows hv = Line nothing_text [ArgF64 0]"
proof -
  have "row_charged m = 0" if "m \<in> set rows" "r_shape m = HvAllocate" for m
    using assms(1) [OF that] by (cases rule: reports.cases) (simp_all add: row_charged_def)
  then show ?thesis using assms(2,3) by (auto simp: verdict_2_def row_released_def)
qed

section \<open>Witnesses\<close>

definition answering :: "unit kernel" where
  "answering = \<lparr>k_sys = (\<lambda>c x m. (\<lparr>rc = 0, rv = 0\<rparr>, x, m)), k_exit = (\<lambda>_ _. \<lparr>reason = 0, exception = \<lparr>syndrome = 0, virtual_address = 0, physical_address = 0\<rparr>\<rparr>),
     k_vm_info = undefined, k_line = (\<lambda>_. None), k_text = (\<lambda>_. ''CELL private host unmap ok 0.0 0.0''), k_rusage = undefined\<rparr>"

lemma answering_answers: "cells_answer answering"
  by (simp add: cells_answer_def answering_def lines_of_def strip_cr_def char_of_def bit_0 strip_prefix_def split_whitespace_def is_ws_def)

theorem matrix_complete_witness:
  "map fst (trace (snd (alloc_run answering 1 \<lparr>ext = (), wmem = (\<lambda>_. 0), trace = [], stdout = []\<rparr>))) =
     CurrentExe # map (\<lambda>(s, t, q). SpawnCell (cell_spec s t q 1)) matrix_cells"
proof -
  obtain w' where "alloc_run answering 1 \<lparr>ext = (), wmem = (\<lambda>_. 0), trace = [], stdout = []\<rparr> = (Ok (), w')"
    using matrix_returns [OF answering_answers] by blast
  then show ?thesis using matrix_complete [of answering 1] by fastforce
qed


theorem cell_reaches_parent_witness:
  "\<exists>l m v'. stdout (snd (maybe_run_cell 9 plat_kernel (Some (cell_spec MmapPrivate HostToucher InPlace 1)) fresh_world)) = [l] \<and> reports l m
     \<and> matrix_cell (answering\<lparr>k_text := \<lambda>_. pipe_text [l]\<rparr>) 1 (MmapPrivate, HostToucher, InPlace) [] \<lparr>ext = (), wmem = (\<lambda>_. 0), trace = [], stdout = []\<rparr> = (Ok [m], v')"
proof -
  obtain r w' where w': "run_cell 9 plat_kernel MmapPrivate HostToucher InPlace 0x40000000 fresh_world = (r, w')" by fastforce
  have "r = Ok ()"
    using w' by (auto simp: run_cell_def cell_vm_def allocate_def mmap_flags_def touch_cell_def cell_sequence_def release_shape_def
        map_rw_def write_code_page_def write_program_def for_io_store32 mark_pages_result ledger_read_def
        ret_def bind_io_def then_io_def when_io_def assert_io_def println_def check_def check_sys_def sys_ignore_def
        sys_def plat_kernel_def success_def fresh_world_def boot_def task_vm_info_words_def MAP_FAILED_def PAGE_def)
  then have c: "maybe_run_cell 9 plat_kernel (Some (cell_spec MmapPrivate HostToucher InPlace 1)) fresh_world = (Ok True, w')"
    using w' by (simp add: maybe_run_cell_def parse_cell_spec push_bit_eq_mult io_defs)
  have so: "stdout fresh_world = []" by (simp add: fresh_world_def boot_def)
  show ?thesis
    using cell_reaches_parent [OF c so, of "answering\<lparr>k_text := \<lambda>_. pipe_text (stdout w')\<rparr>" "\<lparr>ext = (), wmem = (\<lambda>_. 0), trace = [], stdout = []\<rparr>"
        "\<lparr>rc = 0, rv = 0\<rparr>" "()" "\<lambda>_. 0" "[]"] c
    by (auto simp: answering_def)
qed

end
