(* ===== verification/Process.thy ===== *)
theory Process
  imports Matrix_Correct
begin

text \<open>
  A process of \<^verbatim>\<open>hv-reclaim\<close> from its start: \<^verbatim>\<open>main\<close> of
  \<^verbatim>\<open>hv-reclaim/src/main.rs\<close>, with the two environment variables that make it a pressure
  generator or a cell of the matrix, the argument vector, and the dispatch to the modes. The
  environment variables and the argument vector are arguments of the model.
\<close>

text \<open>
  How a process ends: as a pressure generator that sleeps for ever, as a finished cell, or having
  run the mode its command line asks for.
\<close>

datatype main_end = Generator "nat list" | Cell | ModeDone

text \<open>\<^verbatim>\<open>main\<close> from the parsing of the command line on.\<close>

definition hv_mode :: "nat \<Rightarrow> 'x kernel \<Rightarrow> schedule \<Rightarrow> string list \<Rightarrow> ('x, main_end) io" where
  "hv_mode fuel K sched args = (case parse_args args of
       Ok opts \<Rightarrow> then_io (if alloc_shape opts then alloc_run K (size_gb opts) else hv_vm_main fuel K sched opts) (ret ModeDone)
     | Panic p \<Rightarrow> throw p
     | OutOfFuel \<Rightarrow> out_of_fuel)"

definition hv_main :: "nat \<Rightarrow> 'x kernel \<Rightarrow> schedule \<Rightarrow> string option \<Rightarrow> string option \<Rightarrow> string list \<Rightarrow> ('x, main_end) io" where
  "hv_main fuel K sched gen_env cell_env args =
     bind_io (maybe_run_generator K gen_env) (\<lambda>g. case g of
       Some chunks \<Rightarrow> ret (Generator chunks)
     | None \<Rightarrow>
         bind_io (maybe_run_cell fuel K cell_env) (\<lambda>is_cell.
         if is_cell then ret Cell
         else then_io (assert_host_page_size K) (hv_mode fuel K sched args)))"

section \<open>A process with nothing mapped\<close>

abbreviation bare :: "ghost \<Rightarrow> bool" where
  "bare g \<equiv> s2 g = (\<lambda>_. None)"

lemma uses_dirty_chunks [uses_intros]: "uses K (dirty_chunks n K h)"
  by (induction n arbitrary: h) (auto simp: mark_pages_def intro!: uses_intros)

lemma safe_dirty_chunks: "bare g \<Longrightarrow> safe K g (dirty_chunks n K h) (\<lambda>_ g'. bare g')"
proof (induction n arbitrary: g h)
  case (Suc n)
  show ?case
    unfolding dirty_chunks.simps
    by (rule safe_bind [OF safe_mmap]) (use Suc in \<open>auto simp: mark_pages_def intro!: safe_ret safe_then_keep safe_for safe_store uses_intros\<close>)
qed (simp add: safe_ret)

lemma safe_generator: "bare g \<Longrightarrow> safe K g (maybe_run_generator K env) (\<lambda>_ g'. bare g')"
  unfolding maybe_run_generator_def
  by (auto intro!: safe_ret safe_throw safe_bind [OF safe_dirty_chunks] safe_then_keep safe_println uses_intros split: option.split)

lemma safe_assert_host_page_size: "keeps_s2 K g (assert_host_page_size K)"
  unfolding assert_host_page_size_def by (auto intro!: safe_bind_keep safe_intros)

lemma safe_maybe_run_cell:
  assumes "bare g" "\<And>spec s t gb. env = Some spec \<Longrightarrow> parse_cell spec \<noteq> Ok (s, t, InPlace, gb)"
  shows "safe K g (maybe_run_cell fuel K env) (\<lambda>_ g'. bare g')"
  unfolding maybe_run_cell_def
  using assms by (auto intro!: safe_ret safe_throw safe_out_of_fuel safe_then [OF safe_run_cell] uses_intros split: option.split outcome.split)

lemma safe_lift [safe_intros]: "(\<And>a. r = Ok a \<Longrightarrow> Q a g) \<Longrightarrow> safe K g (lift r) Q"
  by (cases r) (simp_all add: lift_def safe_intros)

lemma safe_read_text [safe_intros]: "(\<And>a. Q a g) \<Longrightarrow> safe K g (read_text K) Q"
  by (rule safe_pure) (simp_all add: read_text_def)

lemma safe_matrix_cell: "keeps_s2 K g (matrix_cell K gb c rows)"
  unfolding matrix_cell_def
  by (auto intro!: safe_bind_keep safe_intros split: prod.split option.split)

lemma safe_judge: "keeps_s2 K g (judge rows)"
proof -
  have p: "keeps_s2 K g (print_lines ls)" "keeps_s2 K g (print_row m)" for ls m
    by (auto simp: print_lines_def print_row_def intro!: safe_for safe_println split: line.split)
  show ?thesis unfolding judge_def by (intro safe_then_keep safe_bind_keep safe_for p safe_println safe_lift) auto
qed

lemma safe_alloc_run: "keeps_s2 K g (alloc_run K gb)"
  unfolding alloc_run_def
  by (auto intro!: safe_then_keep safe_bind_keep safe_fold safe_matrix_cell safe_judge safe_intros)

section \<open>Which command lines ask for the trap\<close>

lemma number_arg_put: "number_arg a b rest put = Ok (opts, rest') \<Longrightarrow> \<exists>n. put n = Ok opts \<and> set rest' \<subseteq> set rest"
  by (auto simp: number_arg_def split: list.splits option.splits outcome.splits)

lemma parse_arg_naive:
  "parse_arg arg opts rest = Ok (opts', rest') \<Longrightarrow> set rest' \<subseteq> set rest \<and> (naive opts' \<longrightarrow> naive opts \<or> arg = ''--naive'')"
  unfolding parse_arg_def
  by (auto split: if_splits outcome.splits prod.splits dest!: number_arg_put dest: set_drop_subset [THEN subsetD])

lemma naive_flag: "parse_loop opts args = Ok opts' \<Longrightarrow> naive opts' \<Longrightarrow> naive opts \<or> ''--naive'' \<in> set args"
proof (induction opts args rule: parse_loop.induct)
  case (2 opts arg rest)
  obtain opts1 rest1 where 1: "parse_arg arg opts rest = Ok (opts1, rest1)" "parse_loop opts1 rest1 = Ok opts'"
    using 2(2) by (auto split: outcome.splits prod.splits)
  have "set rest1 \<subseteq> set rest \<and> (naive opts1 \<longrightarrow> naive opts \<or> arg = ''--naive'')" using 1(1) parse_arg_naive by blast
  then show ?case using 2(1) [OF 1(1) _ 1(2) 2(3)] by auto
qed simp


lemma parse_args_naive: "parse_args args = Ok opts \<Longrightarrow> naive opts \<Longrightarrow> ''--naive'' \<in> set args"
  using naive_flag [of default_options args]
  by (auto simp: parse_args_def default_options_def validate_Ok_iff split: outcome.splits)

lemma uses_process: "uses K (alloc_run K gb)" "uses K (maybe_run_cell fuel K env)" "uses K (assert_host_page_size K)"
proof -
  show "uses K (alloc_run K gb)" by (rule safe_uses [OF safe_alloc_run])
  show "uses K (assert_host_page_size K)" by (rule safe_uses [OF safe_assert_host_page_size])
  show "uses K (maybe_run_cell fuel K env)"
    by (auto simp: maybe_run_cell_def intro!: uses_intros split: option.split outcome.split)
qed

lemma uses_hv_mode: "uses K (hv_mode fuel K sched args)"
  by (auto simp: hv_mode_def intro!: uses_intros uses_process split: outcome.split)

lemma safe_hv_mode:
  assumes "bare g" "\<And>opts. parse_args args = Ok opts \<Longrightarrow> fleet_sim opts \<longrightarrow> unat (push_bit 20 (service_mib opts) :: usize) * unat (services opts) < 2 ^ 64"
    and "''--naive'' \<notin> set args"
  shows "safe K g (hv_mode fuel K sched args) (\<lambda>_ g'. bare g')"
proof (cases "parse_args args")
  case (Ok opts)
  have n: "\<not> naive opts" using parse_args_naive [OF Ok] assms(3) by blast
  have 1: "safe K g (then_io (hv_vm_main fuel K sched opts) (ret ModeDone)) (\<lambda>_ g'. bare g')"
    by (rule safe_then [OF safe_hv_vm_main]) (use n assms(1) assms(2) [OF Ok] in \<open>auto intro: safe_ret uses_intros\<close>)
  have 2: "safe K g (then_io (alloc_run K (size_gb opts)) (ret ModeDone)) (\<lambda>_ g'. bare g')"
    by (rule safe_then_keep [OF safe_alloc_run safe_ret]) (rule assms(1))
  show ?thesis unfolding hv_mode_def Ok outcome.case by (cases "alloc_shape opts") (simp_all only: if_True if_False 1 2)
qed (simp_all add: hv_mode_def safe_intros)

lemma safe_hv_main:
  assumes "bare g" "\<And>opts. parse_args args = Ok opts \<Longrightarrow> fleet_sim opts \<longrightarrow> unat (push_bit 20 (service_mib opts) :: usize) * unat (services opts) < 2 ^ 64"
    and "''--naive'' \<notin> set args" "\<And>spec s t gb. cell_env = Some spec \<Longrightarrow> parse_cell spec \<noteq> Ok (s, t, InPlace, gb)"
  shows "safe K g (hv_main fuel K sched gen_env cell_env args) (\<lambda>_ g'. bare g')"
proof -
  have m: "safe K g' (then_io (assert_host_page_size K) (hv_mode fuel K sched args)) (\<lambda>_ g'. bare g')" if "bare g'" for g'
    by (rule safe_then_keep [OF safe_assert_host_page_size safe_hv_mode [OF that assms(2,3)]])
  have c: "safe K g' (bind_io (maybe_run_cell fuel K cell_env) (\<lambda>is_cell. if is_cell then ret Cell
      else then_io (assert_host_page_size K) (hv_mode fuel K sched args))) (\<lambda>_ g'. bare g')" if "bare g'" for g'
    by (rule safe_bind [OF safe_maybe_run_cell [OF that assms(4)]]) (auto intro!: safe_ret m uses_intros uses_process uses_hv_mode)
  show ?thesis
    unfolding hv_main_def
    by (rule safe_bind [OF safe_generator [OF assms(1)]]) (auto intro!: safe_ret c uses_intros uses_process uses_hv_mode split: option.split)
qed

text \<open>
  C1. Whatever environment and command line a process of \<^verbatim>\<open>hv-reclaim\<close> is started with, but for three
  exceptions, it never releases host memory that is still stage-2 mapped and never maps memory it does
  not own, as a pressure generator, as a cell, as the matrix, in the reclaim experiment with its probes,
  in the timed cycles, in the fleet simulation and in the soak under any schedule, however it ends and
  whichever calls fail; when it ends normally, nothing is left mapped. The kernel is honest: the memory
  it hands out is not in use. The exceptions: \<^verbatim>\<open>--naive\<close> and the in-place cell of the matrix, which ask
  for the trap itself, and a fleet simulation whose product \<^verbatim>\<open>region * services\<close> wraps around, whose
  guard then lets a fleet pass that does not fit in guest RAM.
\<close>

theorem process_disciplined:
  assumes "\<And>opts. parse_args args = Ok opts \<Longrightarrow> fleet_sim opts \<longrightarrow> unat (push_bit 20 (service_mib opts) :: usize) * unat (services opts) < 2 ^ 64"
    and "''--naive'' \<notin> set args" "\<And>spec s t gb. cell_env = Some spec \<Longrightarrow> parse_cell spec \<noteq> Ok (s, t, InPlace, gb)"
    and "trace w = []" "hv_main fuel K sched gen_env cell_env args w = (r, w')" "honest (trace w')"
  shows "disciplined (trace w') \<and> (\<forall>e. r = Ok e \<longrightarrow> s2 (ghost_of (trace w')) = (\<lambda>_. None))"
proof -
  have S: "safe K (ghost_of (trace w)) (hv_main fuel K sched gen_env cell_env args) (\<lambda>_ g'. bare g')"
    by (rule safe_hv_main [OF _ assms(1-3)]) (use assms(4) in \<open>simp_all add: ghost_of_def no_ghost_def\<close>)
  have D: "disciplined (trace w)" using assms(4) by (simp add: disciplined_def)
  show ?thesis using safeD [OF S D refl assms(5,6)] safe_OkD [OF S D refl _ assms(6)] assms(5) by blast
qed

theorem process_disciplined_witness:
  "disciplined (trace (snd (hv_main 9 plat_kernel ([WorkerTurn 0, PressureTurn, WorkerTurn 1], []) None None [''--soak'', ''--vcpus'', ''2''] fresh_world)))"
proof -
  let ?a = "[''--soak'', ''--vcpus'', ''2'']" and ?s = "([WorkerTurn 0, PressureTurn, WorkerTurn 1], [] :: nat list)"
  obtain r w' where w': "hv_main 9 plat_kernel ?s None None ?a fresh_world = (r, w')" by fastforce
  have "uses plat_kernel (hv_main 9 plat_kernel ?s None None ?a)"
    by (auto simp: hv_main_def maybe_run_generator_def intro!: uses_intros uses_process uses_hv_mode)
  then have h: "honest (trace w')" using fresh_honest w' by (metis snd_conv)
  have o: "\<not> fleet_sim opts" if "parse_args ?a = Ok opts" for opts
    using that by (auto simp: parse_args_def parse_arg_def number_arg_def default_options_def validate_Ok_iff parse_u64_def parse_nat_def
        digit_value_def split: outcome.splits)
  show ?thesis using process_disciplined [of ?a None fresh_world 9 plat_kernel ?s None r w', OF _ _ _ fresh_trace w' h] o w' by auto
qed

end
