(* ===== verification/Vz.thy ===== *)
theory Vz
  imports Init_Fleet Fleet_Sim
begin

text \<open>
  \<^verbatim>\<open>vz-ratchet\<close>: the driver of the Virtualization.framework experiment (\<^verbatim>\<open>main.rs\<close>), the
  line protocol with the Swift harness (\<^verbatim>\<open>harness.rs\<close>), the helper process it samples
  (\<^verbatim>\<open>helper.rs\<close>) and the fleet run (\<^verbatim>\<open>fleet.rs\<close>). A line of the harness is printed when it is
  taken from the channel; in the program the reader thread prints it when it arrives, which may
  be earlier. The hash set of processes is a list without duplicates, and which new process an
  iteration over it meets first is a parameter.
\<close>

unbundle bit_operations_syntax

section \<open>The harness\<close>

record harness =
  h_child :: u64
  h_verbose :: bool

definition harness_spawn :: "'x kernel \<Rightarrow> string \<Rightarrow> string \<Rightarrow> string \<Rightarrow> usize \<Rightarrow> bool \<Rightarrow> ('x, harness) io" where
  "harness_spawn K exe linux initramfs memory_mib verbose =
     bind_io (sys K (SpawnHarness exe linux initramfs memory_mib)) (\<lambda>p.
     if rc p \<noteq> 0 then throw (Expect ''spawn vz harness'') else ret \<lparr>h_child = rv p, h_verbose = verbose\<rparr>)"

text \<open>The reader thread: \<^verbatim>\<open>trim_end_matches\<close> of carriage returns, and what it prints.\<close>

definition reader_line :: "string \<Rightarrow> string" where
  "reader_line s = rev (dropWhile (\<lambda>c. c = char_of (13::nat)) (rev s))"

definition shown :: "bool \<Rightarrow> string \<Rightarrow> bool" where
  "shown verbose l \<longleftrightarrow> verbose \<or> strip_prefix ''RATCHET '' l \<noteq> None \<or> strip_prefix ''HARNESS '' l \<noteq> None"

definition harness_send :: "'x kernel \<Rightarrow> harness \<Rightarrow> string \<Rightarrow> ('x, unit) io" where
  "harness_send K h cmd = bind_io (sys K (SendLine (h_child h) cmd)) (\<lambda>p.
     if rc p = 0 then ret () else throw (Expect ''write to harness''))"

text \<open>
  \<^verbatim>\<open>wait\<close>: response code 0 of a receive is a line, 1 a timeout, anything else a closed channel.
  The loop has fuel; times are nanoseconds.
\<close>

primrec wait_loop :: "nat \<Rightarrow> 'x kernel \<Rightarrow> harness \<Rightarrow> string \<Rightarrow> nat \<Rightarrow> ('x, string) io" where
  "wait_loop 0 K h prefix deadline = out_of_fuel"
| "wait_loop (Suc fuel) K h prefix deadline = bind_io (now K) (\<lambda>t.
     if deadline < t then throw (Explicit ''timed out'')
     else bind_io (sys K (RecvTimeout (h_child h) (deadline - t))) (\<lambda>p.
       if rc p = 0 then bind_io (read_text K) (\<lambda>raw.
         let l = reader_line raw in
         then_io (when_io (shown (h_verbose h) l) (println ''| {line}'' [ArgStr l]))
        (case strip_prefix prefix l of
           Some rest \<Rightarrow> ret (trim rest)
         | None \<Rightarrow> wait_loop fuel K h prefix deadline))
       else if rc p = 1 then throw (Explicit ''timed out'')
       else throw (Explicit ''harness exited'')))"

definition harness_wait :: "nat \<Rightarrow> 'x kernel \<Rightarrow> harness \<Rightarrow> string \<Rightarrow> nat \<Rightarrow> ('x, string) io" where
  "harness_wait fuel K h prefix timeout = bind_io (now K) (\<lambda>t. wait_loop fuel K h prefix (t + timeout))"

definition secs :: "nat \<Rightarrow> nat" where
  "secs n = n * 1000000000"

definition guest_mem_available_kib :: "nat \<Rightarrow> 'x kernel \<Rightarrow> harness \<Rightarrow> ('x, u64) io" where
  "guest_mem_available_kib fuel K h =
     then_io (harness_send K h ''guest mem'')
    (bind_io (harness_wait fuel K h ''RATCHET MEM'' (secs 15)) (\<lambda>s.
     case parse_u64 s of None \<Rightarrow> throw (Expect ''parse guest MemAvailable'') | Some n \<Rightarrow> ret n))"

definition drop_harness :: "'x kernel \<Rightarrow> harness \<Rightarrow> ('x, unit) io" where
  "drop_harness K h = then_io (sys_ignore K (Kill (h_child h))) (sys_ignore K (WaitChild (h_child h)))"

text \<open>\<^verbatim>\<open>quit\<close> consumes the harness, so its destructor runs too.\<close>

definition harness_quit :: "'x kernel \<Rightarrow> harness \<Rightarrow> ('x, unit) io" where
  "harness_quit K h =
     then_io (harness_send K h ''quit'')
    (then_io (sys_ignore K (WaitChild (h_child h))) (drop_harness K h))"

section \<open>The helper process\<close>

definition HELPER_PATTERN :: string where
  "HELPER_PATTERN = ''com.apple.Virtualization.VirtualMachine''"

record helper_ledger =
  hl_phys_footprint :: u64
  hl_resident :: u64

definition helper_sample :: "'x kernel \<Rightarrow> int \<Rightarrow> ('x, helper_ledger) io" where
  "helper_sample K pid = bind_io (sys K (PidRusage pid)) (\<lambda>p.
     then_io (assert_io (rc p = 0) ''proc_pid_rusage failed'')
     (\<lambda>w. (Ok \<lparr>hl_phys_footprint = ri_phys_footprint (k_rusage K (ext w)), hl_resident = ri_resident_size (k_rusage K (ext w))\<rparr>, w)))"

definition helper_row :: "string \<Rightarrow> helper_ledger \<Rightarrow> ('x, unit) io" where
  "helper_row label l = println ''{label:<40} helper footprint {:>9.1} MiB   resident {:>9.1} MiB''
     [ArgStr label, ArgF64 (mib (hl_phys_footprint l)), ArgF64 (mib (hl_resident l))]"

definition running_helpers :: "'x kernel \<Rightarrow> ('x, int list) io" where
  "running_helpers K = bind_io (sys K (Pgrep HELPER_PATTERN)) (\<lambda>p.
     if rc p \<noteq> 0 then throw (Expect ''pgrep'')
     else bind_io (read_text K) (\<lambda>t. ret (remdups (List.map_filter (\<lambda>l. parse_i32 (trim l)) (lines_of t)))))"

text \<open>The element an iteration over the difference of two hash sets meets first.\<close>

definition first_new :: "(int list \<Rightarrow> nat) \<Rightarrow> int list \<Rightarrow> int list \<Rightarrow> int option" where
  "first_new pick pids old = (let ps = filter (\<lambda>p. p \<notin> set old) pids in
     if ps = [] then None else Some (ps ! (pick ps mod length ps)))"

primrec find_loop :: "nat \<Rightarrow> 'x kernel \<Rightarrow> (int list \<Rightarrow> nat) \<Rightarrow> int list \<Rightarrow> nat \<Rightarrow> ('x, int) io" where
  "find_loop 0 K pick old deadline = out_of_fuel"
| "find_loop (Suc fuel) K pick old deadline = bind_io (now K) (\<lambda>t.
     if t < deadline then bind_io (running_helpers K) (\<lambda>pids. case first_new pick pids old of
         Some pid \<Rightarrow> ret pid
       | None \<Rightarrow> then_io (sys_ignore K (Sleep 250)) (find_loop fuel K pick old deadline))
     else throw (Explicit ''no new helper process appeared''))"

definition find_new_helper :: "nat \<Rightarrow> 'x kernel \<Rightarrow> (int list \<Rightarrow> nat) \<Rightarrow> int list \<Rightarrow> nat \<Rightarrow> ('x, int) io" where
  "find_new_helper fuel K pick old timeout = bind_io (now K) (\<lambda>t. find_loop fuel K pick old (t + timeout))"

section \<open>Options\<close>

record vz_options =
  vz_harness :: string
  vz_kernel :: string
  vz_initramfs :: string
  guest_gb :: usize
  touch_gb :: usize
  vz_pressure_gb :: usize
  verbose :: bool
  vz_fleet :: bool
  vz_services :: usize
  vz_service_mib :: usize

definition vz_defaults :: vz_options where
  "vz_defaults = \<lparr>vz_harness = [], vz_kernel = [], vz_initramfs = [], guest_gb = 6, touch_gb = 4, vz_pressure_gb = 0,
     verbose = False, vz_fleet = False, vz_services = 8, vz_service_mib = 256\<rparr>"

definition vz_value :: "string list \<Rightarrow> (string \<Rightarrow> vz_options outcome) \<Rightarrow> (vz_options \<times> string list) outcome" where
  "vz_value rest put = (case rest of
       [] \<Rightarrow> Panic (Explicit ''<value>'')
     | v # rest' \<Rightarrow> (case put v of Ok opts \<Rightarrow> Ok (opts, rest') | Panic p \<Rightarrow> Panic p | OutOfFuel \<Rightarrow> OutOfFuel))"

definition vz_number :: "string \<Rightarrow> (u64 \<Rightarrow> vz_options) \<Rightarrow> string \<Rightarrow> vz_options outcome" where
  "vz_number bad put v = (case parse_u64 v of None \<Rightarrow> Panic (Expect bad) | Some n \<Rightarrow> Ok (put n))"

definition vz_parse_arg :: "string \<Rightarrow> vz_options \<Rightarrow> string list \<Rightarrow> (vz_options \<times> string list) outcome" where
  "vz_parse_arg arg q rest =
    (if arg = ''--harness'' then vz_value rest (\<lambda>v. Ok (q\<lparr>vz_harness := v\<rparr>))
     else if arg = ''--kernel'' then vz_value rest (\<lambda>v. Ok (q\<lparr>vz_kernel := v\<rparr>))
     else if arg = ''--initramfs'' then vz_value rest (\<lambda>v. Ok (q\<lparr>vz_initramfs := v\<rparr>))
     else if arg = ''--guest-gb'' then vz_value rest (vz_number ''integer GiB'' (\<lambda>n. q\<lparr>guest_gb := n\<rparr>))
     else if arg = ''--touch-gb'' then vz_value rest (vz_number ''integer GiB'' (\<lambda>n. q\<lparr>touch_gb := n\<rparr>))
     else if arg = ''--pressure-gb'' then vz_value rest (vz_number ''integer GiB'' (\<lambda>n. q\<lparr>vz_pressure_gb := n\<rparr>))
     else if arg = ''--verbose'' then Ok (q\<lparr>verbose := True\<rparr>, rest)
     else if arg = ''--fleet'' then Ok (q\<lparr>vz_fleet := True\<rparr>, rest)
     else if arg = ''--services'' then vz_value rest (vz_number ''integer count'' (\<lambda>n. q\<lparr>vz_services := n\<rparr>))
     else if arg = ''--service-mib'' then vz_value rest (vz_number ''integer MiB'' (\<lambda>n. q\<lparr>vz_service_mib := n\<rparr>))
     else Panic (Explicit ''unknown argument''))"

lemma vz_value_shrinks: "vz_value rest put = Ok (q', rest') \<Longrightarrow> length rest' \<le> length rest"
  by (auto simp: vz_value_def split: list.splits outcome.splits)

lemma vz_parse_arg_shrinks: "vz_parse_arg arg q rest = Ok (q', rest') \<Longrightarrow> length rest' \<le> length rest"
  unfolding vz_parse_arg_def by (elim if_OkE vz_value_shrinks) auto

function vz_parse_loop :: "vz_options \<Rightarrow> string list \<Rightarrow> vz_options outcome" where
  "vz_parse_loop q [] = Ok q"
| "vz_parse_loop q (arg # rest) = (case vz_parse_arg arg q rest of
       Ok (q', rest') \<Rightarrow> vz_parse_loop q' rest'
     | Panic p \<Rightarrow> Panic p
     | OutOfFuel \<Rightarrow> OutOfFuel)"
  by pat_completeness auto
termination by (relation "measure (length \<circ> snd)") (auto dest!: vz_parse_arg_shrinks)

definition vz_validate :: "vz_options \<Rightarrow> vz_options outcome" where
  "vz_validate q =
    (if \<not> (vz_harness q \<noteq> [] \<and> vz_kernel q \<noteq> [] \<and> vz_initramfs q \<noteq> []) then Panic (AssertFailed ''--harness/--kernel/--initramfs are required'')
     else if \<not> (vz_fleet q \<or> touch_gb q < guest_gb q) then Panic (AssertFailed ''--touch-gb must leave the guest room to run'')
     else Ok q)"

definition vz_parse_args :: "string list \<Rightarrow> vz_options outcome" where
  "vz_parse_args args = (case vz_parse_loop vz_defaults args of
       Ok q \<Rightarrow> vz_validate q
     | Panic p \<Rightarrow> Panic p
     | OutOfFuel \<Rightarrow> OutOfFuel)"

section \<open>The fleet run\<close>

definition vz_mark :: "'x kernel \<Rightarrow> nat \<Rightarrow> string \<Rightarrow> ('x, unit) io" where
  "vz_mark K t0 event = bind_io (now K) (\<lambda>t. println ''MARK,{:.1},{event}'' [ArgF64 (as_secs (t - t0)), ArgStr event])"

text \<open>One round of the sampler thread, which runs beside the main one.\<close>

definition vz_sample :: "'x kernel \<Rightarrow> nat \<Rightarrow> int \<Rightarrow> ('x, unit) io" where
  "vz_sample K t0 pid = bind_io (helper_sample K pid) (\<lambda>l. bind_io (now K) (\<lambda>t.
     then_io (println ''SAMPLE,{:.1},{:.1},{:.1}'' [ArgF64 (as_secs (t - t0)), ArgF64 (mib (hl_phys_footprint l)), ArgF64 (mib (hl_resident l))])
             (sys_ignore K (Sleep 1000))))"

definition fleet_start_cmd :: "usize \<Rightarrow> string" where
  "fleet_start_cmd m = ''guest fleet start 1 '' @ show_nat (unat m)"

text \<open>The operations of the main thread, in order.\<close>

definition vz_service_start :: "nat \<Rightarrow> 'x kernel \<Rightarrow> harness \<Rightarrow> nat \<Rightarrow> usize \<Rightarrow> nat \<Rightarrow> ('x, unit) io list" where
  "vz_service_start fuel K h t0 m i =
    [harness_send K h (fleet_start_cmd m),
     bind_io (harness_wait fuel K h ''RATCHET FLEET-STARTED'' (secs 60)) (\<lambda>_. ret ()),
     vz_mark K t0 (''service-start-'' @ show_nat i),
     sys_ignore K (Sleep 2000)]"

definition vz_service_stop :: "nat \<Rightarrow> 'x kernel \<Rightarrow> harness \<Rightarrow> nat \<Rightarrow> nat \<Rightarrow> ('x, unit) io list" where
  "vz_service_stop fuel K h t0 i =
    [harness_send K h ''guest fleet stop-one'',
     bind_io (harness_wait fuel K h ''RATCHET FLEET-STOPPED'' (secs 60)) (\<lambda>_. ret ()),
     vz_mark K t0 (''service-stop-'' @ show_nat i),
     sys_ignore K (Sleep 2000)]"

definition vz_fleet_target :: "vz_options \<Rightarrow> usize" where
  "vz_fleet_target opts = guest_gb opts * 1024 - vz_services opts * vz_service_mib opts"

definition vz_fleet_ops :: "nat \<Rightarrow> 'x kernel \<Rightarrow> harness \<Rightarrow> vz_options \<Rightarrow> nat \<Rightarrow> ('x, unit) io list" where
  "vz_fleet_ops fuel K h opts t0 =
    (let is = [1..<Suc (unat (vz_services opts))] in
     [vz_mark K t0 ''boot'', sys_ignore K (Sleep 10000)]
     @ concat (map (vz_service_start fuel K h t0 (vz_service_mib opts)) is)
     @ [vz_mark K t0 ''hold'', sys_ignore K (Sleep 30000)]
     @ concat (map (vz_service_stop fuel K h t0) is)
     @ [vz_mark K t0 ''tail'', sys_ignore K (Sleep 30000),
        harness_send K h (''balloon '' @ show_nat (unat (vz_fleet_target opts))),
        bind_io (harness_wait fuel K h ''HARNESS balloon-target'' (secs 10)) (\<lambda>_. ret ()),
        vz_mark K t0 ''balloon'', sys_ignore K (Sleep 30000), vz_mark K t0 ''end''])"

definition vz_fleet_run :: "nat \<Rightarrow> 'x kernel \<Rightarrow> nat list \<Rightarrow> harness \<Rightarrow> int \<Rightarrow> vz_options \<Rightarrow> ('x, unit) io" where
  "vz_fleet_run fuel K pace h pid opts =
     bind_io (now K) (\<lambda>t0.
     bind_io (beside (vz_sample K t0 pid) (vz_fleet_ops fuel K h opts t0) pace True) (\<lambda>_. harness_quit K h))"

section \<open>The ratchet and the balloon\<close>

text \<open>Watching \<^verbatim>\<open>MemAvailable\<close> fall: until it is below half, or the deadline is reached.\<close>

primrec balloon_loop :: "nat \<Rightarrow> 'x kernel \<Rightarrow> harness \<Rightarrow> nat \<Rightarrow> u64 \<Rightarrow> u64 \<Rightarrow> ('x, u64) io" where
  "balloon_loop 0 K h deadline before after = out_of_fuel"
| "balloon_loop (Suc fuel) K h deadline before after = bind_io (now K) (\<lambda>t.
     if t < deadline then
       then_io (sys_ignore K (Sleep 1000))
      (bind_io (guest_mem_available_kib fuel K h) (\<lambda>after'.
       if after' < before div 2 then ret after' else balloon_loop fuel K h deadline before after'))
     else ret after)"

definition vz_balloon_target :: "vz_options \<Rightarrow> usize" where
  "vz_balloon_target opts = (guest_gb opts - touch_gb opts) * 1024"

definition ratchet_text :: string where
  "ratchet_text =
     ''\<newline>''
   @ ''Deltafootprint touch: {:+.1} MiB, free: {:+.1} MiB -- the ratchet:\<newline>''
   @ ''the host keeps charging for pages the guest no longer uses\<newline>''"

definition vz_touch :: "nat \<Rightarrow> 'x kernel \<Rightarrow> harness \<Rightarrow> int \<Rightarrow> vz_options \<Rightarrow> ('x, helper_ledger) io" where
  "vz_touch fuel K h pid opts =
     bind_io (helper_sample K pid) (\<lambda>baseline.
     then_io (helper_row ''VM booted, guest idle'' baseline)
    (then_io (harness_send K h (''guest touch '' @ show_nat (unat (touch_gb opts))))
    (bind_io (harness_wait fuel K h ''RATCHET TOUCHED'' (secs 300)) (\<lambda>_.
     then_io (sys_ignore K (Sleep 1000))
    (bind_io (helper_sample K pid) (\<lambda>touched.
     then_io (helper_row ''after guest touched its memory'' touched)
    (then_io (harness_send K h ''guest free'')
    (bind_io (harness_wait fuel K h ''RATCHET FREED'' (secs 60)) (\<lambda>_.
     then_io (sys_ignore K (Sleep 2000))
    (bind_io (helper_sample K pid) (\<lambda>freed.
     then_io (helper_row ''after guest freed every byte'' freed)
    (then_io (println ratchet_text
       [ArgF64 (delta_mib (hl_phys_footprint touched) (hl_phys_footprint baseline)),
        ArgF64 (delta_mib (hl_phys_footprint freed) (hl_phys_footprint touched))])
       (ret freed)))))))))))))"

definition placebo_text :: string where
  "placebo_text =
     ''\<newline>''
   @ ''guest MemAvailable {:.0} MiB -> {:.0} MiB (the balloon really did\<newline>''
   @ ''inflate; the guest handed the pages over) and Deltafootprint is\<newline>''
   @ ''{:+.1} MiB -- the placebo: nothing reached the host ledger\<newline>''"

definition vz_balloon :: "nat \<Rightarrow> 'x kernel \<Rightarrow> harness \<Rightarrow> int \<Rightarrow> vz_options \<Rightarrow> helper_ledger \<Rightarrow> ('x, helper_ledger) io" where
  "vz_balloon fuel K h pid opts freed =
     bind_io (guest_mem_available_kib fuel K h) (\<lambda>before.
     then_io (harness_send K h (''balloon '' @ show_nat (unat (vz_balloon_target opts))))
    (bind_io (harness_wait fuel K h ''HARNESS balloon-target'' (secs 10)) (\<lambda>_.
     bind_io (now K) (\<lambda>t.
     bind_io (balloon_loop fuel K h (t + secs 30) before before) (\<lambda>after.
     then_io (sys_ignore K (Sleep 2000))
    (bind_io (helper_sample K pid) (\<lambda>ballooned.
     then_io (helper_row ''after balloon inflated'' ballooned)
    (then_io (println placebo_text
       [ArgF64 (of_int (f64_of_int (uint before)) / 1024), ArgF64 (of_int (f64_of_int (uint after)) / 1024), ArgF64 (delta_mib (hl_phys_footprint ballooned) (hl_phys_footprint freed))])
       (ret ballooned)))))))))"

definition vz_pressure :: "'x kernel \<Rightarrow> int \<Rightarrow> vz_options \<Rightarrow> helper_ledger \<Rightarrow> ('x, unit) io" where
  "vz_pressure K pid opts ballooned =
     then_io (println ''generating pressure: dirtying {} GiB in a child, holding {}s ...'' [ArgNat (unat (vz_pressure_gb opts)), ArgNat 8])
    (bind_io (arm K 1) (\<lambda>c.
     bind_io (apply_pressure K (vz_pressure_gb opts)) (\<lambda>r. case r of
       Inl e \<Rightarrow> throw (Expect ''pressure generator'')
     | Inr guard \<Rightarrow>
         then_io (sys_ignore K (Sleep 8000))
        (then_io (drop_guard K guard)
        (then_io (sys_ignore K (Sleep 2000))
        (bind_io (helper_sample K pid) (\<lambda>after.
         then_io (println '''' [])
        (then_io (helper_row ''after real host memory pressure'' after)
        (bind_io (survey c) (\<lambda>v.
         then_io (println ''canary (1 GiB MADV_FREE control): {}/{} pages discarded -- {}''
           [ArgNat (unat (discarded v)), ArgNat (unat (total v)), ArgStr (if conclusive v
              then ''pressure reached anonymous memory; the run is conclusive''
              else ''pressure NEVER reached anonymous memory; the run is INCONCLUSIVE (raise --pressure-gb)'')])
        (then_io (println ''helper Deltafootprint under pressure: {:+.1} MiB -- pages a working\<newline>balloon would have made discardable were not discarded'' [ArgF64 (delta_mib (hl_phys_footprint after) (hl_phys_footprint ballooned))])
                 (drop_canary K c))))))))))))"

definition vz_fleet_fits :: "vz_options \<Rightarrow> bool" where
  "vz_fleet_fits opts \<longleftrightarrow> vz_services opts * vz_service_mib opts < guest_gb opts * 1024"

text \<open>\<^verbatim>\<open>main\<close> after the arguments: boot the guest, find its helper, and run one of the two experiments.\<close>

definition vz_boot :: "nat \<Rightarrow> 'x kernel \<Rightarrow> (int list \<Rightarrow> nat) \<Rightarrow> vz_options \<Rightarrow> ('x, harness \<times> int) io" where
  "vz_boot fuel K pick opts =
     then_io (println ''vz-ratchet: {} GiB Linux guest on Virtualization.framework;\<newline>guest touches {} GiB, frees it, balloon inflates by {} GiB\<newline>''
       [ArgNat (unat (guest_gb opts)), ArgNat (unat (touch_gb opts)), ArgNat (unat (touch_gb opts))])
    (bind_io (running_helpers K) (\<lambda>old.
     bind_io (harness_spawn K (vz_harness opts) (vz_kernel opts) (vz_initramfs opts) (guest_gb opts * 1024) (verbose opts)) (\<lambda>h.
     bind_io (harness_wait fuel K h ''HARNESS started'' (secs 60)) (\<lambda>_.
     bind_io (harness_wait fuel K h ''RATCHET READY'' (secs 60)) (\<lambda>_.
     bind_io (find_new_helper fuel K pick old (secs 10)) (\<lambda>pid.
     then_io (println ''\<newline>guest up; sampling XPC helper pid {pid}\<newline>'' [ArgInt pid])
             (ret (h, pid))))))))"

definition vz_closing_text :: string where
  "vz_closing_text =
     ''\<newline>''
   @ ''Guest RAM on VZ lives in Apple's XPC helper. The guest freeing\<newline>''
   @ ''memory changes nothing; the balloon inflating changes nothing; the\<newline>''
   @ ''only ledger that moved is the one that ratcheted up on first touch.\<newline>''
   @ ''Compare ./run.sh (hv-reclaim): same Mac, one API layer down, the\<newline>''
   @ ''same reclaim drops the footprint by the full amount.''"

definition vz_run :: "nat \<Rightarrow> 'x kernel \<Rightarrow> nat list \<Rightarrow> (int list \<Rightarrow> nat) \<Rightarrow> vz_options \<Rightarrow> ('x, unit) io" where
  "vz_run fuel K pace pick opts =
     bind_io (vz_boot fuel K pick opts) (\<lambda>(h, pid).
     if vz_fleet opts then
       then_io (assert_io (vz_fleet_fits opts) ''fleet must fit in the guest'') (vz_fleet_run fuel K pace h pid opts)
     else
       bind_io (vz_touch fuel K h pid opts) (\<lambda>freed.
       bind_io (vz_balloon fuel K h pid opts freed) (\<lambda>ballooned.
       then_io (when_io (vz_pressure_gb opts > 0) (vz_pressure K pid opts ballooned))
      (then_io (harness_quit K h)
               (println vz_closing_text [])))))"

text \<open>The whole of \<^verbatim>\<open>main\<close>: the chunks a generator child holds, or the end of the run.\<close>

definition vz_main :: "nat \<Rightarrow> 'x kernel \<Rightarrow> nat list \<Rightarrow> (int list \<Rightarrow> nat) \<Rightarrow> string option \<Rightarrow> string list \<Rightarrow> ('x, nat list option) io" where
  "vz_main fuel K pace pick gen_env args =
     bind_io (maybe_run_generator K gen_env) (\<lambda>g. case g of
       Some chunks \<Rightarrow> ret (Some chunks)
     | None \<Rightarrow> then_io (assert_host_page_size K)
        (bind_io (lift (vz_parse_args args)) (\<lambda>opts. then_io (vz_run fuel K pace pick opts) (ret None))))"

end
