(* ===== verification/Vz_Correct.thy ===== *)
theory Vz_Correct
  imports Vz
begin

text \<open>
  Properties of \<^verbatim>\<open>vz-ratchet\<close>: the line protocol finds the line it waits for, the number the
  guest reports is the number the driver reads, the helper it samples is a new one, the command
  line, and the arithmetic of the balloon target.
\<close>

section \<open>Waiting for a line\<close>

text \<open>
  A channel: the lines still to come, each within \<open>d\<close> of the one before, are handed out in order
  by a receive that waits long enough and left alone by a reading of the clock; a reading lies
  between the times before and after it, and neither call takes longer than \<open>d\<close>.
\<close>

definition channel :: "'x kernel \<Rightarrow> ('x \<Rightarrow> string list) \<Rightarrow> ('x \<Rightarrow> nat) \<Rightarrow> nat \<Rightarrow> bool" where
  "channel K pend clk d \<longleftrightarrow>
     (\<forall>x m c n l ls r x' m'. pend x = l # ls \<longrightarrow> d \<le> n \<longrightarrow> k_sys K (RecvTimeout c n) x m = (r, x', m') \<longrightarrow>
        rc r = 0 \<and> k_text K x' = l \<and> pend x' = ls \<and> clk x' \<le> clk x + d)
   \<and> (\<forall>x m r x' m'. k_sys K Now x m = (r, x', m') \<longrightarrow>
        pend x' = pend x \<and> clk x \<le> unat (rv r) \<and> unat (rv r) \<le> clk x' \<and> clk x' \<le> clk x + d)"

text \<open>
  A harness that answers: it takes every command and adds to the lines to come the next of the
  answers \<open>todo\<close>. Nothing else takes an answer, and nothing but a receive takes a line.
\<close>

definition relays :: "'x kernel \<Rightarrow> ('x \<Rightarrow> string list) \<Rightarrow> ('x \<Rightarrow> string list list) \<Rightarrow> ('x \<Rightarrow> nat) \<Rightarrow> nat \<Rightarrow> bool" where
  "relays K pend todo clk d \<longleftrightarrow> channel K pend clk d
   \<and> (\<forall>x m c s b bs r x' m'. todo x = b # bs \<longrightarrow> k_sys K (SendLine c s) x m = (r, x', m') \<longrightarrow>
        rc r = 0 \<and> pend x' = pend x @ b \<and> todo x' = bs)
   \<and> (\<forall>c x m r x' m'. (\<exists>h n. c = RecvTimeout h n) \<or> c = Now \<longrightarrow> k_sys K c x m = (r, x', m') \<longrightarrow> todo x' = todo x)
   \<and> (\<forall>c x m r x' m'. (\<exists>ms. c = Sleep ms) \<or> (\<exists>i. c = PidRusage i) \<longrightarrow> k_sys K c x m = (r, x', m') \<longrightarrow> pend x' = pend x \<and> todo x' = todo x)"

lemma relaysD:
  assumes "relays K pend todo clk d"
  shows "channel K pend clk d"
    and "todo x = b # bs \<Longrightarrow> k_sys K (SendLine h s) x m = (r, x', m') \<Longrightarrow> rc r = 0 \<and> pend x' = pend x @ b \<and> todo x' = bs"
    and "(\<exists>h n. c = RecvTimeout h n) \<or> c = Now \<Longrightarrow> k_sys K c x m = (r, x', m') \<Longrightarrow> todo x' = todo x"
    and "(\<exists>ms. c = Sleep ms) \<or> (\<exists>i. c = PidRusage i) \<Longrightarrow> k_sys K c x m = (r, x', m') \<Longrightarrow> pend x' = pend x \<and> todo x' = todo x"
    and "k_sys K Now x m = (r, x', m') \<Longrightarrow> pend x' = pend x"
proof -
  note A = assms [unfolded relays_def]
  show "channel K pend clk d" using A by (rule conjunct1)
  then show "k_sys K Now x m = (r, x', m') \<Longrightarrow> pend x' = pend x" unfolding channel_def by blast
  show "todo x = b # bs \<Longrightarrow> k_sys K (SendLine h s) x m = (r, x', m') \<Longrightarrow> rc r = 0 \<and> pend x' = pend x @ b \<and> todo x' = bs"
    by (rule A [THEN conjunct2, THEN conjunct1, rule_format])
  show "(\<exists>h n. c = RecvTimeout h n) \<or> c = Now \<Longrightarrow> k_sys K c x m = (r, x', m') \<Longrightarrow> todo x' = todo x"
    by (rule A [THEN conjunct2, THEN conjunct2, THEN conjunct1, rule_format])
  show "(\<exists>ms. c = Sleep ms) \<or> (\<exists>i. c = PidRusage i) \<Longrightarrow> k_sys K c x m = (r, x', m') \<Longrightarrow> pend x' = pend x \<and> todo x' = todo x"
    by (rule A [THEN conjunct2, THEN conjunct2, THEN conjunct2, rule_format])
qed

lemma now_law:
  assumes "channel K pend clk d"
  shows "\<exists>t w'. now K w = (Ok t, w') \<and> clk (ext w) \<le> t \<and> t \<le> clk (ext w') \<and> clk (ext w') \<le> clk (ext w) + d \<and> pend (ext w') = pend (ext w)"
proof -
  obtain r x' m' where k: "k_sys K Now (ext w) (wmem w) = (r, x', m')" by (metis prod_cases3)
  have "pend x' = pend (ext w) \<and> clk (ext w) \<le> unat (rv r) \<and> unat (rv r) \<le> clk x' \<and> clk x' \<le> clk (ext w) + d"
    using assms k unfolding channel_def by blast
  then show ?thesis using k by (simp add: now_def bind_io_def sys_def ret_def)
qed

lemma recv_law:
  assumes "channel K pend clk d" "pend (ext w) = l # ls" "d \<le> n"
  shows "\<exists>p w'. sys K (RecvTimeout c n) w = (Ok p, w') \<and> rc p = 0 \<and> k_text K (ext w') = l \<and> pend (ext w') = ls \<and> clk (ext w') \<le> clk (ext w) + d"
proof -
  obtain r x' m' where k: "k_sys K (RecvTimeout c n) (ext w) (wmem w) = (r, x', m')" by (metis prod_cases3)
  have "rc r = 0 \<and> k_text K x' = l \<and> pend x' = ls \<and> clk x' \<le> clk (ext w) + d"
    using assms k unfolding channel_def by blast
  then show ?thesis using k by (simp add: sys_def)
qed

lemma wait_loop_result:
  assumes "channel K pend clk d" "strip_prefix pre (reader_line l) = Some r"
  shows "length noise < fuel \<Longrightarrow> (\<And>l. l \<in> set noise \<Longrightarrow> strip_prefix pre (reader_line l) = None) \<Longrightarrow>
     pend (ext w) = noise @ l # rest \<Longrightarrow> clk (ext w) + (2 * length noise + 2) * d \<le> deadline \<Longrightarrow>
     \<exists>w'. wait_loop fuel K h pre deadline w = (Ok (trim r), w') \<and> pend (ext w') = rest"
proof (induction fuel arbitrary: noise w)
  case (Suc fuel)
  obtain t w1 where t: "now K w = (Ok t, w1)" "t \<le> clk (ext w1)" "clk (ext w1) \<le> clk (ext w) + d" "pend (ext w1) = pend (ext w)"
    using now_law [OF assms(1)] by blast
  obtain l0 ls where l0: "pend (ext w1) = l0 # ls" "noise = [] \<and> l0 = l \<and> ls = rest \<or> (\<exists>noise'. noise = l0 # noise' \<and> ls = noise' @ l # rest)"
    using t(4) Suc.prems(3) by (cases noise) auto
  have late: "\<not> deadline < t" "d \<le> deadline - t" using t(2,3) Suc.prems(4) by (auto simp: distrib_right)
  obtain p w2 where p: "sys K (RecvTimeout (h_child h) (deadline - t)) w1 = (Ok p, w2)" "rc p = 0" "k_text K (ext w2) = l0" "pend (ext w2) = ls"
      "clk (ext w2) \<le> clk (ext w1) + d"
    using recv_law [OF assms(1) l0(1) late(2)] by blast
  let ?w3 = "if shown (h_verbose h) (reader_line l0) then w2\<lparr>stdout := stdout w2 @ [Line ''| {line}'' [ArgStr (reader_line l0)]]\<rparr> else w2"
  have step: "wait_loop (Suc fuel) K h pre deadline w = (case strip_prefix pre (reader_line l0) of
      Some r \<Rightarrow> ret (trim r) | None \<Rightarrow> wait_loop fuel K h pre deadline) ?w3"
    using t p late(1) by (simp add: bind_io_def then_io_def read_text_def when_io_def println_def ret_def Let_def)
  have e3: "pend (ext ?w3) = ls" "clk (ext ?w3) \<le> clk (ext w) + 2 * d" using p(4,5) t(3) by simp_all
  show ?case
  proof (cases noise)
    case Nil
    then have "l0 = l" "ls = rest" using l0(2) by auto
    then show ?thesis unfolding step using assms(2) e3(1) by (simp add: ret_def)
  next
    case (Cons y ys)
    then have "strip_prefix pre (reader_line l0) = None" "ls = ys @ l # rest" using l0(2) Suc.prems(2) by auto
    moreover have "clk (ext ?w3) + (2 * length ys + 2) * d \<le> deadline" using e3(2) Suc.prems(4) Cons by (simp add: distrib_right)
    ultimately show ?thesis unfolding step using Suc.IH [of ys ?w3] Suc.prems(1,2) Cons e3(1) by simp
  qed
qed simp

lemma wait_result:
  assumes "channel K pend clk d"
    and "pend (ext w) = noise @ l # rest" "\<And>l. l \<in> set noise \<Longrightarrow> strip_prefix pre (reader_line l) = None"
    and "strip_prefix pre (reader_line l) = Some r" "length noise < fuel" "(2 * length noise + 3) * d \<le> timeout"
  shows "\<exists>w'. harness_wait fuel K h pre timeout w = (Ok (trim r), w') \<and> pend (ext w') = rest"
proof -
  obtain t w1 where t: "now K w = (Ok t, w1)" "clk (ext w) \<le> t" "clk (ext w1) \<le> clk (ext w) + d" "pend (ext w1) = pend (ext w)"
    using now_law [OF assms(1)] by blast
  have "clk (ext w1) + (2 * length noise + 2) * d \<le> t + timeout" using t(2,3) assms(6) by (simp add: distrib_right)
  from wait_loop_result [OF assms(1,4,5,3) _ this] show ?thesis
    using t assms(2) by (simp add: harness_wait_def bind_io_def)
qed

text \<open>
  C29. \<^verbatim>\<open>wait\<close> finds the line: kernel messages and other replies before it are skipped, and what
  follows the prefix on the first line that has it is returned without blanks around it; the
  lines after it stay in the channel. It needs as many rounds as there are lines before it, and a
  timeout that leaves time for them.
\<close>

theorem wait_finds:
  assumes "channel K pend clk d"
    and "pend (ext w) = noise @ l # rest" "\<And>l. l \<in> set noise \<Longrightarrow> strip_prefix pre (reader_line l) = None"
    and "strip_prefix pre (reader_line l) = Some r" "length noise < fuel" "(2 * length noise + 3) * d \<le> timeout"
  shows "\<exists>w'. harness_wait fuel K h pre timeout w = (Ok (trim r), w') \<and> pend (ext w') = rest"
  using wait_result [OF assms] .

lemma wait_loop_sound:
  "wait_loop fuel K h pre deadline w = (Ok s, w') \<Longrightarrow>
     \<exists>r. strip_prefix pre (reader_line (k_text K (ext w'))) = Some r \<and> s = trim r"
proof (induction fuel arbitrary: w)
  case (Suc fuel)
  obtain t w1 where t: "now K w = (Ok t, w1)" using Suc.prems by (auto simp: bind_io_eq_Ok_iff)
  obtain p w2 where p: "sys K (RecvTimeout (h_child h) (deadline - t)) w1 = (Ok p, w2)" using sys_total by blast
  let ?l = "reader_line (k_text K (ext w2))"
  let ?w3 = "if shown (h_verbose h) ?l then w2\<lparr>stdout := stdout w2 @ [Line ''| {line}'' [ArgStr ?l]]\<rparr> else w2"
  have "(case strip_prefix pre ?l of Some r \<Rightarrow> ret (trim r) | None \<Rightarrow> wait_loop fuel K h pre deadline) ?w3 = (Ok s, w')"
    using Suc.prems t p by (simp add: bind_io_def then_io_def read_text_def when_io_def println_def ret_def throw_def Let_def split: if_splits)
  then show ?case using Suc.IH by (cases "strip_prefix pre ?l") (auto simp: ret_def split: if_splits)
qed (simp add: out_of_fuel_def)

text \<open>
  What \<^verbatim>\<open>wait\<close> returns is always such a rest: the last line received has the prefix.
\<close>

theorem wait_sound:
  assumes "harness_wait fuel K h pre timeout w = (Ok s, w')"
  shows "\<exists>r. strip_prefix pre (reader_line (k_text K (ext w'))) = Some r \<and> s = trim r"
  using assms wait_loop_sound by (auto simp: harness_wait_def bind_io_eq_Ok_iff)

lemma send_law:
  assumes "relays K pend todo clk d" "todo (ext w) = b # bs"
  shows "\<exists>w'. harness_send K h cmd w = (Ok (), w') \<and> pend (ext w') = pend (ext w) @ b \<and> todo (ext w') = bs"
proof -
  obtain r x' m' where k: "k_sys K (SendLine (h_child h) cmd) (ext w) (wmem w) = (r, x', m')" by (metis prod_cases3)
  have "rc r = 0 \<and> pend x' = pend (ext w) @ b \<and> todo x' = bs" 
    by (rule relaysD(2) [OF assms k])
  then show ?thesis using k by (simp add: harness_send_def bind_io_def sys_def ret_def)
qed

section \<open>The guest's memory, end to end\<close>

lemma reader_line_number:
  "reader_line (s @ show_nat n @ replicate j (char_of (13::nat))) = s @ show_nat n"
proof -
  obtain d where d: "d < 10" "last (show_nat n) = digit d" using set_show_nat [of "last (show_nat n)" n] by auto
  obtain xs c where x: "show_nat n = xs @ [c]" by (cases "show_nat n" rule: rev_cases) auto
  have "c \<noteq> char_of (13::nat)"
  proof
    assume "c = char_of (13::nat)"
    then have "(of_char c :: nat) = 13" by simp
    then show False using d x of_char_digit [OF d(1)] by simp
  qed
  then show ?thesis
    using dropWhile_append2 [of "replicate j (char_of (13::nat))" "\<lambda>c. c = char_of (13::nat)"]
    by (simp add: reader_line_def x)
qed

text \<open>
  C22. The number crosses the components: what the guest's server reads from \<^verbatim>\<open>/proc/meminfo\<close> and
  writes to its console in reply to \<^verbatim>\<open>mem\<close> is the number the driver's \<^verbatim>\<open>guest_mem_available_kib\<close>
  returns, whatever other lines come before and however many carriage returns the console adds, as
  long as they come in time.
\<close>

theorem guest_mem_end_to_end:
  assumes "cmd_mem G s v = (Ok (Reply reply s'), v')"
    and "relays K pend todo clk d" "todo (ext w) = b # bs"
    and "pend (ext w) @ b = noise @ (''RATCHET '' @ reply @ replicate j (char_of (13::nat))) # rest"
    and "\<And>l. l \<in> set noise \<Longrightarrow> strip_prefix ''RATCHET MEM'' (reader_line l) = None"
    and "length noise < fuel" "(2 * length noise + 3) * d \<le> secs 15"
  shows "\<exists>n v1 w'. mem_available_kib G v = (Ok n, v1) \<and> guest_mem_available_kib fuel K h w = (Ok n, w') \<and> pend (ext w') = rest"
proof -
  obtain n v1 where n: "mem_available_kib G v = (Ok n, v1)" "reply = ''MEM '' @ show_nat (unat n)"
    using assms(1) by (auto simp: cmd_mem_def bind_io_eq_Ok_iff)
  let ?l = "''RATCHET '' @ reply @ replicate j (char_of (13::nat))"
  have l: "strip_prefix ''RATCHET MEM'' (reader_line ?l) = Some ('' '' @ show_nat (unat n))"
    using reader_line_number [of "''RATCHET MEM ''" "unat n" j] strip_prefix_append [of "''RATCHET MEM''" "'' '' @ show_nat (unat n)"] by (simp add: n(2))
  note c = relaysD(1) [OF assms(2)]
  obtain w1 where w1: "harness_send K h ''guest mem'' w = (Ok (), w1)" "pend (ext w1) = pend (ext w) @ b" using send_law [OF assms(2,3)] by blast
  obtain w' where w': "harness_wait fuel K h ''RATCHET MEM'' (secs 15) w1 = (Ok (trim ('' '' @ show_nat (unat n))), w')" "pend (ext w') = rest"
    using wait_result [OF c _ assms(5) l assms(6,7), of w1 rest h] w1(2) assms(4) by auto
  have "guest_mem_available_kib fuel K h w = (Ok n, w')"
    using w1(1) w'(1) by (simp add: guest_mem_available_kib_def then_io_def bind_io_def ret_def)
  then show ?thesis using n(1) w'(2) by blast
qed

section \<open>The helper\<close>

lemma first_new_sound: "first_new pick pids old = Some pid \<Longrightarrow> pid \<in> set pids \<and> pid \<notin> set old"
proof -
  assume h: "first_new pick pids old = Some pid"
  let ?ps = "filter (\<lambda>p. p \<notin> set old) pids"
  have "?ps \<noteq> []" "pid = ?ps ! (pick ?ps mod length ?ps)" using h by (auto simp: first_new_def Let_def split: if_splits)
  then have "pid \<in> set ?ps" using nth_mem [of "pick ?ps mod length ?ps" ?ps] by simp
  then show ?thesis by simp
qed

lemma running_helpers_out:
  "running_helpers K w = (Ok pids, w') \<Longrightarrow> pids = remdups (List.map_filter (\<lambda>l. parse_i32 (trim l)) (lines_of (k_text K (ext w'))))"
  by (auto simp: running_helpers_def bind_io_eq_Ok_iff read_text_def throw_def split: if_splits)

lemma find_loop_sound:
  "find_loop fuel K pick old dl w = (Ok pid, w') \<Longrightarrow> pid \<notin> set old
     \<and> pid \<in> set (List.map_filter (\<lambda>l. parse_i32 (trim l)) (lines_of (k_text K (ext w'))))"
proof (induction fuel arbitrary: w)
  case (Suc fuel)
  then obtain t w1 where "now K w = (Ok t, w1)" "(if t < dl then bind_io (running_helpers K) (\<lambda>pids. case first_new pick pids old of
         Some pid \<Rightarrow> ret pid | None \<Rightarrow> then_io (sys_ignore K (Sleep 250)) (find_loop fuel K pick old dl))
     else throw (Explicit ''no new helper process appeared'')) w1 = (Ok pid, w')"
    unfolding find_loop.simps bind_io_eq_Ok_iff [of "now K"] by blast
  then obtain pids w2 where p: "running_helpers K w1 = (Ok pids, w2)"
    "(case first_new pick pids old of Some pid \<Rightarrow> ret pid | None \<Rightarrow> then_io (sys_ignore K (Sleep 250)) (find_loop fuel K pick old dl)) w2 = (Ok pid, w')"
    by (auto simp: bind_io_eq_Ok_iff throw_def split: if_splits)
  show ?case
  proof (cases "first_new pick pids old")
    case None
    then show ?thesis using p(2) Suc.IH by (auto simp: then_io_eq_Ok_iff)
  next
    case (Some q)
    then show ?thesis using p first_new_sound [OF Some] running_helpers_out [OF p(1)] by (auto simp: ret_def)
  qed
qed (simp add: out_of_fuel_def)

text \<open>
  C30. The process the driver samples is a new one: it is listed by the last \<^verbatim>\<open>pgrep\<close> and was not
  running before the VM started, whichever of several new ones the iteration meets first.
\<close>

theorem helper_is_new:
  assumes "find_new_helper fuel K pick old timeout w = (Ok pid, w')"
  shows "pid \<notin> set old \<and> pid \<in> set (List.map_filter (\<lambda>l. parse_i32 (trim l)) (lines_of (k_text K (ext w'))))"
proof -
  obtain t w1 where "find_loop fuel K pick old (t + timeout) w1 = (Ok pid, w')"
    using assms by (auto simp: find_new_helper_def bind_io_eq_Ok_iff)
  then show ?thesis by (rule find_loop_sound)
qed

section \<open>The command line\<close>

definition vz_valid :: "vz_options \<Rightarrow> bool" where
  "vz_valid q \<longleftrightarrow> vz_harness q \<noteq> [] \<and> vz_kernel q \<noteq> [] \<and> vz_initramfs q \<noteq> [] \<and> (vz_fleet q \<or> touch_gb q < guest_gb q)"

text \<open>The groups of a command line, as for \<^verbatim>\<open>hv-reclaim\<close>.\<close>

datatype vz_setting =
    HarnessPath string | KernelPath string | InitramfsPath string | GuestGb u64 | TouchGb u64 | VzPressureGb u64
  | Verbose | VzFleet | VzServices u64 | VzServiceMib u64

inductive vz_group :: "vz_setting \<Rightarrow> string list \<Rightarrow> bool" where
  "vz_group (HarnessPath v) [''--harness'', v]"
| "vz_group (KernelPath v) [''--kernel'', v]"
| "vz_group (InitramfsPath v) [''--initramfs'', v]"
| "parse_u64 v = Some n \<Longrightarrow> vz_group (GuestGb n) [''--guest-gb'', v]"
| "parse_u64 v = Some n \<Longrightarrow> vz_group (TouchGb n) [''--touch-gb'', v]"
| "parse_u64 v = Some n \<Longrightarrow> vz_group (VzPressureGb n) [''--pressure-gb'', v]"
| "vz_group Verbose [''--verbose'']"
| "vz_group VzFleet [''--fleet'']"
| "parse_u64 v = Some n \<Longrightarrow> vz_group (VzServices n) [''--services'', v]"
| "parse_u64 v = Some n \<Longrightarrow> vz_group (VzServiceMib n) [''--service-mib'', v]"

primrec vz_put :: "vz_setting \<Rightarrow> vz_options \<Rightarrow> vz_options" where
  "vz_put (HarnessPath v) q = q\<lparr>vz_harness := v\<rparr>"
| "vz_put (KernelPath v) q = q\<lparr>vz_kernel := v\<rparr>"
| "vz_put (InitramfsPath v) q = q\<lparr>vz_initramfs := v\<rparr>"
| "vz_put (GuestGb n) q = q\<lparr>guest_gb := n\<rparr>"
| "vz_put (TouchGb n) q = q\<lparr>touch_gb := n\<rparr>"
| "vz_put (VzPressureGb n) q = q\<lparr>vz_pressure_gb := n\<rparr>"
| "vz_put Verbose q = q\<lparr>verbose := True\<rparr>"
| "vz_put VzFleet q = q\<lparr>vz_fleet := True\<rparr>"
| "vz_put (VzServices n) q = q\<lparr>vz_services := n\<rparr>"
| "vz_put (VzServiceMib n) q = q\<lparr>vz_service_mib := n\<rparr>"

lemma vz_group_parse: "vz_group s g \<Longrightarrow> \<exists>arg rest. g = arg # rest \<and> vz_parse_arg arg q (rest @ r) = Ok (vz_put s q, r)"
  by (induction rule: vz_group.induct) (simp_all add: vz_parse_arg_def vz_value_def vz_number_def)

definition vz_front :: "string list \<Rightarrow> vz_options \<Rightarrow> vz_options \<Rightarrow> string list \<Rightarrow> bool" where
  "vz_front args q q' r \<longleftrightarrow> (\<exists>s g. vz_group s g \<and> args = g @ r \<and> q' = vz_put s q)"

lemma vz_front_flag: "vz_group s [arg] \<Longrightarrow> q' = vz_put s q \<Longrightarrow> rest = r \<Longrightarrow> vz_front (arg # rest) q q' r"
  unfolding vz_front_def by (rule exI [where x = s], rule exI [where x = "[arg]"]) simp

lemma vz_front_value: "vz_group s [arg, v] \<Longrightarrow> q' = vz_put s q \<Longrightarrow> rest = v # r \<Longrightarrow> vz_front (arg # rest) q q' r"
  unfolding vz_front_def by (rule exI [where x = s], rule exI [where x = "[arg, v]"]) simp

lemmas vz_front_flags = vz_group.intros(7,8) [THEN vz_front_flag]

lemmas vz_front_values = vz_group.intros(1-6,9,10) [THEN vz_front_value]

lemma vz_value_OkD: "vz_value rest f = Ok (q', r) \<Longrightarrow> \<exists>v. rest = v # r \<and> f v = Ok q'"
  by (auto simp: vz_value_def split: list.splits outcome.splits)

lemma vz_number_Ok_iff: "vz_number bad f v = Ok q' \<longleftrightarrow> (\<exists>n. parse_u64 v = Some n \<and> q' = f n)"
  by (auto simp: vz_number_def split: option.splits)

lemma vz_parse_arg_group: "vz_parse_arg arg q rest = Ok (q', r) \<Longrightarrow> vz_front (arg # rest) q q' r"
  unfolding vz_parse_arg_def
  by (elim if_Ok_casesE; hypsubst?;
      ((rule vz_front_flags; simp; fail)
       | (drule vz_value_OkD; clarsimp simp: vz_number_Ok_iff; rule vz_front_values; (assumption | simp); fail)
       | simp))

lemma vz_parse_loop_groups:
  "vz_parse_loop q args = Ok q' \<longleftrightarrow> (\<exists>ss gs. args = concat gs \<and> list_all2 vz_group ss gs \<and> q' = fold vz_put ss q)"
  (is "?parses q args \<longleftrightarrow> ?grouped q args")
proof
  show "?parses q args \<Longrightarrow> ?grouped q args"
  proof (induction q args rule: vz_parse_loop.induct)
    case (1 q) then show ?case by (intro exI [where x = "[]"]) simp
  next
    case (2 q arg rest)
    then obtain q1 r where step: "vz_parse_arg arg q rest = Ok (q1, r)" and more: "vz_parse_loop q1 r = Ok q'"
      by (auto split: outcome.splits)
    obtain s g where s: "vz_group s g" "arg # rest = g @ r" "q1 = vz_put s q"
      using vz_parse_arg_group [OF step] by (auto simp: vz_front_def)
    obtain ss gs where ss: "r = concat gs" "list_all2 vz_group ss gs" "q' = fold vz_put ss q1"
      using "2.IH" [OF step refl more] by blast
    show ?case
      by (rule exI [where x = "s # ss"], rule exI [where x = "g # gs"]) (simp add: s ss)
  qed
next
  have "vz_parse_loop q (concat gs) = Ok (fold vz_put ss q)" if "list_all2 vz_group ss gs" for ss gs
    using that
  proof (induction arbitrary: q rule: list_all2_induct)
    case (Cons s ss g gs)
    then obtain arg rest where "g = arg # rest" "vz_parse_arg arg q (rest @ concat gs) = Ok (vz_put s q, concat gs)"
      using vz_group_parse by blast
    then show ?case using Cons by simp
  qed simp
  then show "?grouped q args \<Longrightarrow> ?parses q args" by blast
qed

lemma vz_validate_Ok_iff: "vz_validate q = Ok q' \<longleftrightarrow> q' = q \<and> vz_valid q"
  by (auto simp: vz_validate_def vz_valid_def)

lemma vz_parse_args_Ok_iff: "vz_parse_args args = Ok q \<longleftrightarrow> vz_parse_loop vz_defaults args = Ok q \<and> vz_valid q"
  by (auto simp: vz_parse_args_def vz_validate_Ok_iff split: outcome.splits)

lemma vz_parse_args_valid: "vz_parse_args args = Ok q \<Longrightarrow> vz_valid q"
  by (simp add: vz_parse_args_Ok_iff)

text \<open>
  C28. What \<^verbatim>\<open>vz-ratchet\<close> makes of a command line: it accepts a line, with the options \<open>q\<close>, exactly when
  the line is a sequence of groups (a flag, or an option and its value), \<open>q\<close> is what the groups say
  one after the other, what is not said being the default, all three files are named, and the touched
  memory leaves the guest room. With \<^verbatim>\<open>--fleet\<close> the last is not asked.
\<close>

theorem vz_parse_args_exact:
  "vz_parse_args args = Ok q \<longleftrightarrow>
     (\<exists>ss gs. args = concat gs \<and> list_all2 vz_group ss gs \<and> q = fold vz_put ss vz_defaults)
     \<and> vz_harness q \<noteq> [] \<and> vz_kernel q \<noteq> [] \<and> vz_initramfs q \<noteq> [] \<and> (vz_fleet q \<or> touch_gb q < guest_gb q)"
  unfolding vz_parse_args_Ok_iff vz_parse_loop_groups vz_valid_def ..

section \<open>The balloon target\<close>

text \<open>
  C31. For every accepted command line without \<^verbatim>\<open>--fleet\<close> the balloon target of the ratchet experiment is
  what the guest has beyond the touched memory, in MiB, exactly when that number fits into 64 bits; it
  is then positive, and smaller than the guest if anything was touched, so that the balloon never takes
  all of the guest's memory. Beyond that, at 16 EiB and more, the product wraps around.
\<close>

theorem balloon_target_exact:
  assumes "vz_parse_args args = Ok q" "\<not> vz_fleet q"
  shows "(unat (vz_balloon_target q) = (unat (guest_gb q) - unat (touch_gb q)) * 1024
            \<longleftrightarrow> (unat (guest_gb q) - unat (touch_gb q)) * 1024 < 2 ^ 64)
     \<and> ((unat (guest_gb q) - unat (touch_gb q)) * 1024 < 2 ^ 64 \<longrightarrow>
            0 < unat (vz_balloon_target q)
            \<and> (0 < touch_gb q \<longrightarrow> unat (vz_balloon_target q) < unat (guest_gb q) * 1024))"
proof -
  let ?E = "(unat (guest_gb q) - unat (touch_gb q)) * 1024"
  have lt: "touch_gb q < guest_gb q" using vz_parse_args_valid [OF assms(1)] assms(2) by (simp add: vz_valid_def)
  then have s: "unat (guest_gb q - touch_gb q) = unat (guest_gb q) - unat (touch_gb q)" by (intro unat_sub) simp
  have t: "unat (vz_balloon_target q) = ?E mod 2 ^ 64"
    unfolding vz_balloon_target_def unat_word_ariths(2) s by simp
  have exact: "unat (vz_balloon_target q) = ?E \<longleftrightarrow> ?E < 2 ^ 64"
  proof
    assume "unat (vz_balloon_target q) = ?E"
    then show "?E < 2 ^ 64" using t mod_less_divisor [of "2 ^ 64" ?E] by simp
  qed (simp add: t)
  then show ?thesis using lt by (auto simp: word_less_nat_alt)
qed

text \<open>An accepted line whose balloon target wraps around, to 0.\<close>

definition vz_wrapping :: "string list" where
  "vz_wrapping = [''--harness'', ''h'', ''--kernel'', ''k'', ''--initramfs'', ''i'',
     ''--guest-gb'', ''18014398509481985'', ''--touch-gb'', ''1'']"

theorem balloon_target_wraps: "\<exists>q. vz_parse_args vz_wrapping = Ok q \<and> vz_balloon_target q = 0"
  by (simp add: vz_wrapping_def vz_parse_args_def vz_parse_arg_def vz_value_def vz_number_def vz_validate_def vz_defaults_def
      vz_balloon_target_def parse_u64_def parse_nat_def digit_value_def)

text \<open>
  The balloon target of the fleet run is exact and positive when the fleet passes its guard and
  neither product wraps around.
\<close>

theorem fleet_target_exact:
  assumes "vz_fleet_fits q" "unat (guest_gb q) * 1024 < 2 ^ 64" "unat (vz_services q) * unat (vz_service_mib q) < 2 ^ 64"
  shows "unat (vz_fleet_target q) = unat (guest_gb q) * 1024 - unat (vz_services q) * unat (vz_service_mib q)
     \<and> 0 < unat (vz_fleet_target q)"
proof -
  have g: "unat (guest_gb q * 1024) = unat (guest_gb q) * 1024" using assms(2) by (simp add: unat_word_ariths)
  have f: "unat (vz_services q * vz_service_mib q) = unat (vz_services q) * unat (vz_service_mib q)" using assms(3) by (simp add: unat_word_ariths)
  have lt: "vz_services q * vz_service_mib q < guest_gb q * 1024" using assms(1) by (simp add: vz_fleet_fits_def)
  then have "unat (vz_fleet_target q) = unat (guest_gb q * 1024) - unat (vz_services q * vz_service_mib q)"
    unfolding vz_fleet_target_def by (intro unat_sub) simp
  then show ?thesis using lt unfolding g f by (simp add: word_less_nat_alt g f)
qed

theorem fleet_target_exact_witness: "unat (vz_fleet_target vz_defaults) = 4096"
  using fleet_target_exact [of vz_defaults] by (simp add: vz_defaults_def vz_fleet_fits_def)

definition vz_example :: "string list" where
  "vz_example = [''--harness'', ''h'', ''--kernel'', ''k'', ''--initramfs'', ''i'', ''--verbose'']"

lemma vz_example_ok: "vz_parse_args vz_example = Ok (vz_defaults\<lparr>vz_harness := ''h'', vz_kernel := ''k'', vz_initramfs := ''i'', verbose := True\<rparr>)"
  by (simp add: vz_example_def vz_parse_args_def vz_parse_arg_def vz_value_def vz_validate_def vz_defaults_def)

theorem balloon_target_exact_witness: "\<exists>q. vz_parse_args vz_example = Ok q \<and> unat (vz_balloon_target q) = 2048"
  using balloon_target_exact [OF vz_example_ok] vz_example_ok by (simp add: vz_defaults_def)

section \<open>A scripted harness\<close>

text \<open>A kernel whose channel is a list of lines and whose clock stands still.\<close>

record feed =
  f_pend :: "string list"
  f_todo :: "string list list"
  f_text :: string

fun feed_sys :: "call \<Rightarrow> feed \<Rightarrow> mem \<Rightarrow> resp \<times> feed \<times> mem" where
  "feed_sys (RecvTimeout c n) x m = (case f_pend x of
       [] \<Rightarrow> (\<lparr>rc = 1, rv = 0\<rparr>, x, m)
     | l # ls \<Rightarrow> (\<lparr>rc = 0, rv = 0\<rparr>, x\<lparr>f_pend := ls, f_text := l\<rparr>, m))"
| "feed_sys (SendLine c s) x m = (case f_todo x of
       [] \<Rightarrow> (\<lparr>rc = 1, rv = 0\<rparr>, x, m)
     | b # bs \<Rightarrow> (\<lparr>rc = 0, rv = 0\<rparr>, x\<lparr>f_pend := f_pend x @ b, f_todo := bs\<rparr>, m))"
| "feed_sys (Pgrep p) x m = (\<lparr>rc = 0, rv = 0\<rparr>, x\<lparr>f_text := ''7''\<rparr>, m)"
| "feed_sys c x m = (\<lparr>rc = 0, rv = 0\<rparr>, x, m)"

definition feed_kernel :: "feed kernel" where
  "feed_kernel = \<lparr>k_sys = feed_sys, k_exit = (\<lambda>_ _. cancel_info), k_vm_info = (\<lambda>_. zero_info),
     k_line = (\<lambda>_. None), k_text = f_text, k_rusage = (\<lambda>_. no_rusage)\<rparr>"

definition feed_world :: "string list \<Rightarrow> string list list \<Rightarrow> feed world" where
  "feed_world ls bs = \<lparr>ext = \<lparr>f_pend = ls, f_todo = bs, f_text = []\<rparr>, wmem = (\<lambda>_. 0), trace = [], stdout = []\<rparr>"

lemma feed_channel: "channel feed_kernel f_pend (\<lambda>_. 0) 0"
  by (auto simp: channel_def feed_kernel_def)

lemma feed_relays: "relays feed_kernel f_pend f_todo (\<lambda>_. 0) 0"
  using feed_channel by (auto simp: relays_def feed_kernel_def split: list.splits)

abbreviation example_harness :: harness where
  "example_harness \<equiv> \<lparr>h_child = 3, h_verbose = False\<rparr>"

theorem wait_finds_witness:
  "\<exists>w'. harness_wait 2 feed_kernel example_harness ''RATCHET READY'' 5 (feed_world [''boot'', ''RATCHET READY  '', ''x''] []) = (Ok [], w') \<and> f_pend (ext w') = [''x'']"
proof -
  have r: "reader_line ''boot'' = ''boot''" "reader_line ''RATCHET READY  '' = ''RATCHET READY  ''" by (simp_all add: reader_line_def char_of_def bit_0)
  have t: "trim ''  '' = []" by (simp add: trim_def trim_end_def is_ws_def)
  show ?thesis
    using wait_finds [OF feed_channel, where w = "feed_world [''boot'', ''RATCHET READY  '', ''x''] []" and noise = "[''boot'']" and l = "''RATCHET READY  ''"
      and rest = "[''x'']" and pre = "''RATCHET READY''" and r = "''  ''" and fuel = 2 and timeout = 5 and h = example_harness]
    by (simp add: feed_world_def r t strip_prefix_def)
qed

theorem wait_sound_witness:
  "\<exists>s w' r. harness_wait 2 feed_kernel example_harness ''R'' 5 (feed_world [''R1''] []) = (Ok s, w') \<and> strip_prefix ''R'' (reader_line (k_text feed_kernel (ext w'))) = Some r \<and> s = trim r"
proof -
  have "\<exists>s w'. harness_wait 2 feed_kernel example_harness ''R'' 5 (feed_world [''R1''] []) = (Ok s, w')"
    by (simp add: harness_wait_def now_def read_text_def numeral_2_eq_2 io_defs sys_def feed_kernel_def feed_world_def reader_line_def strip_prefix_def
        shown_def Let_def char_of_def bit_0)
  then obtain s w' where w': "harness_wait 2 feed_kernel example_harness ''R'' 5 (feed_world [''R1''] []) = (Ok s, w')" by blast
  show ?thesis using wait_sound [OF w'] w' by blast
qed

theorem helper_is_new_witness:
  "\<exists>pid w'. find_new_helper 1 feed_kernel (\<lambda>_. 0) [5] 5 (feed_world [] []) = (Ok pid, w') \<and> pid \<notin> {5}"
proof -
  have "\<exists>pid w'. find_new_helper 1 feed_kernel (\<lambda>_. 0) [5] 5 (feed_world [] []) = (Ok pid, w')"
    by (simp add: find_new_helper_def now_def running_helpers_def read_text_def first_new_def lines_of_def strip_cr_def io_defs sys_def
        feed_kernel_def feed_world_def trim_def trim_end_def is_ws_def parse_i32_def parse_nat_def digit_value_def map_filter_def char_of_def bit_0)
  then obtain pid w' where "find_new_helper 1 feed_kernel (\<lambda>_. 0) [5] 5 (feed_world [] []) = (Ok pid, w')" by blast
  then show ?thesis using helper_is_new [of 1 feed_kernel "\<lambda>_. 0" "[5]" 5 "feed_world [] []" pid w'] by auto
qed

text \<open>The guest's side of an example: a console world in which \<^verbatim>\<open>/proc/meminfo\<close> has one line.\<close>

definition meminfo_world :: "script world" where
  "meminfo_world = (script_world [])\<lparr>ext := \<lparr>inputs = [], text_out = ''MemAvailable: 9 kB'', next_pid = 1\<rparr>\<rparr>"

lemma meminfo_reply: "\<exists>v'. cmd_mem script_kernel \<lparr>held = [], fleet = []\<rparr> meminfo_world = (Ok (Reply ''MEM 9'' \<lparr>held = [], fleet = []\<rparr>), v')"
proof -
  have f: "find_available [''MemAvailable: 9 kB''] = Ok 9"
    by (simp add: find_available_def strip_prefix_def trim_def trim_end_def is_ws_def trim_kb.simps parse_u64_def parse_nat_def digit_value_def)
  have l: "lines_of ''MemAvailable: 9 kB'' = [''MemAvailable: 9 kB'']"
    by (simp add: lines_of_def strip_cr_def char_of_def bit_0)
  have "show_nat 9 = ''9''" by code_simp
  then show ?thesis
    by (simp add: cmd_mem_def mem_available_kib_def read_text_def lift_def bind_io_def sys_def ret_def script_kernel_def meminfo_world_def script_world_def f l)
qed

theorem guest_mem_end_to_end_witness:
  "\<exists>n v1 w'. mem_available_kib script_kernel meminfo_world = (Ok n, v1)
     \<and> guest_mem_available_kib 2 feed_kernel example_harness (feed_world [''boot''] [[''RATCHET MEM 9'']]) = (Ok n, w')"
proof -
  obtain v' where v': "cmd_mem script_kernel \<lparr>held = [], fleet = []\<rparr> meminfo_world = (Ok (Reply ''MEM 9'' \<lparr>held = [], fleet = []\<rparr>), v')"
    using meminfo_reply by blast
  have p: "strip_prefix ''RATCHET MEM'' (reader_line l) = None" if "l \<in> set [''boot'']" for l
    using that by (simp add: reader_line_def strip_prefix_def char_of_def bit_0)
  show ?thesis
    using guest_mem_end_to_end [OF v' feed_relays _ _ p, where w = "feed_world [''boot''] [[''RATCHET MEM 9'']]" and j = 0 and b = "[''RATCHET MEM 9'']" and bs = "[]" and rest = "[]" and fuel = 2 and h = example_harness]
    by (auto simp: feed_world_def)
qed

end
