(* ===== verification/Vz_Fleet.thy ===== *)
theory Vz_Fleet
  imports Background Vz_Correct
begin

text \<open>
  The fleet run of \<^verbatim>\<open>vz-ratchet\<close> against the server in the guest, from the first mark to the
  last: the commands the driver sends are the script the server serves, and the replies the server
  gives are the lines the driver waits for, with the sampler thread beside it.
\<close>

section \<open>What the sampler leaves alone\<close>

definition sent :: "'x world \<Rightarrow> string list" where
  "sent w = List.map_filter (\<lambda>e. case fst e of SendLine _ s \<Rightarrow> Some s | _ \<Rightarrow> None) (trace w)"

definition stays :: "('x \<Rightarrow> string list) \<Rightarrow> ('x \<Rightarrow> string list list) \<Rightarrow> 'x world \<Rightarrow> 'x world \<Rightarrow> bool" where
  "stays pend todo w w' \<longleftrightarrow> pend (ext w') = pend (ext w) \<and> todo (ext w') = todo (ext w) \<and> sent w' = sent w"

interpretation vz: background "stays pend todo" for pend todo
  by unfold_locales (auto simp: stays_def sent_def)

lemma sent_sys:
  assumes "sys K c w = (Ok p, w')"
  shows "sent w' = sent w @ (case c of SendLine _ s \<Rightarrow> [s] | _ \<Rightarrow> [])"
  using sys_trace [OF assms] by (simp add: sent_def List.map_filter_def split: call.split)

lemma relays_idle:
  assumes "relays K pend todo clk d" "c = Now \<or> (\<exists>ms. c = Sleep ms) \<or> (\<exists>i. c = PidRusage i)"
  shows "idle_call (stays pend todo) K c"
  unfolding idle_call_def stays_def
proof (intro allI impI)
  fix w p w' assume s: "sys K c w = (Ok p, w')"
  note k = sys_result(1) [OF s]
  have "pend (ext w') = pend (ext w) \<and> todo (ext w') = todo (ext w)"
    using assms(2) relaysD(4) [OF assms(1) _ k] relaysD(3) [OF assms(1) _ k] relaysD(5) [OF assms(1)] k by (cases "c = Now") auto
  then show "pend (ext w') = pend (ext w) \<and> todo (ext w') = todo (ext w) \<and> sent w' = sent w"
    using sent_sys [OF s] assms(2) by auto
qed

lemma vz_sample_idles:
  assumes "relays K pend todo clk d"
  shows "idles (stays pend todo) (vz_sample K t0 pid)"
  unfolding vz_sample_def helper_sample_def
  by (intro vz.idles_intros relays_idle [OF assms]) simp_all

section \<open>A command and its answer\<close>

text \<open>A wait takes no answer and sends nothing, and what it prints is no mark.\<close>

lemma wait_loop_keeps:
  assumes "relays K pend todo clk d"
  shows "wait_loop fuel K h pre dl w = (Ok s, w') \<Longrightarrow> todo (ext w') = todo (ext w) \<and> sent w' = sent w \<and> marks w' = marks w"
proof (induction fuel arbitrary: w)
  case (Suc fuel)
  have call: "todo (ext w2) = todo (ext w1) \<and> sent w2 = sent w1 \<and> marks w2 = marks w1"
    if "sys K c w1 = (Ok p, w2)" "(\<exists>h n. c = RecvTimeout h n) \<or> c = Now" for c p w1 w2
  proof -
    have "todo (ext w2) = todo (ext w1)" by (rule relaysD(3) [OF assms that(2) sys_result(1) [OF that(1)]])
    then show ?thesis using sent_sys [OF that(1)] sys_result(2) [OF that(1)] that(2) by (auto simp: marks_def)
  qed
  obtain t w1 where 1: "now K w = (Ok t, w1)" using Suc.prems by (auto simp: bind_io_eq_Ok_iff)
  obtain p w2 where 2: "sys K (RecvTimeout (h_child h) (dl - t)) w1 = (Ok p, w2)" using sys_total by blast
  let ?l = "reader_line (k_text K (ext w2))"
  let ?w3 = "if shown (h_verbose h) ?l then w2\<lparr>stdout := stdout w2 @ [Line ''| {line}'' [ArgStr ?l]]\<rparr> else w2"
  obtain q where "sys K Now w = (Ok q, w1)" using 1 by (auto simp: now_def bind_io_eq_Ok_iff ret_def)
  then have k: "todo (ext ?w3) = todo (ext w) \<and> sent ?w3 = sent w \<and> marks ?w3 = marks w"
    using call [OF 2] call [of Now w q w1] by (simp add: sent_def marks_def)
  have "(case strip_prefix pre ?l of Some r \<Rightarrow> ret (trim r) | None \<Rightarrow> wait_loop fuel K h pre dl) ?w3 = (Ok s, w')"
    using Suc.prems 1 2 by (simp add: bind_io_def then_io_def read_text_def when_io_def println_def ret_def throw_def Let_def split: if_splits)
  then show ?case using Suc.IH [of ?w3] k by (cases "strip_prefix pre ?l") (auto simp: ret_def)
qed (simp add: out_of_fuel_def)

text \<open>The lines a command is answered with: some that are skipped, then the one waited for, in time.\<close>

definition answers :: "nat \<Rightarrow> nat \<Rightarrow> nat \<Rightarrow> string \<Rightarrow> string list \<Rightarrow> bool" where
  "answers fuel d timeout pre b \<longleftrightarrow> (\<exists>noise l. b = noise @ [l] \<and> (\<forall>y\<in>set noise. strip_prefix pre (reader_line y) = None)
     \<and> strip_prefix pre (reader_line l) \<noteq> None \<and> length noise < fuel \<and> (2 * length noise + 3) * d \<le> timeout)"

text \<open>Before the command of step \<open>k\<close>, and after it when its answer is still to be read.\<close>

definition before_step :: "('x \<Rightarrow> string list) \<Rightarrow> ('x \<Rightarrow> string list list) \<Rightarrow> string list list \<Rightarrow> string list \<Rightarrow> string list \<Rightarrow> nat \<Rightarrow> 'x world \<Rightarrow> bool" where
  "before_step pend todo bs s0 cmds k w \<longleftrightarrow> pend (ext w) = [] \<and> todo (ext w) = drop k bs \<and> sent w = s0 @ take k cmds"

definition asked :: "('x \<Rightarrow> string list) \<Rightarrow> ('x \<Rightarrow> string list list) \<Rightarrow> string list list \<Rightarrow> string list \<Rightarrow> string list \<Rightarrow> nat \<Rightarrow> 'x world \<Rightarrow> bool" where
  "asked pend todo bs s0 cmds k w \<longleftrightarrow> pend (ext w) = bs ! k \<and> todo (ext w) = drop (Suc k) bs \<and> sent w = s0 @ take (Suc k) cmds"

lemma steps_persist:
  "persists (stays pend todo) (before_step pend todo bs s0 cmds k)" "persists (stays pend todo) (asked pend todo bs s0 cmds k)"
  by (auto simp: persists_def stays_def before_step_def asked_def)

lemma goes_send:
  assumes "relays K pend todo clk d" "k < length bs" "k < length cmds"
  shows "goes (before_step pend todo bs s0 cmds k) (harness_send K h (cmds ! k)) (asked pend todo bs s0 cmds k) []"
  unfolding harness_send_def
proof (rule goes_call)
  fix w p w' assume w: "before_step pend todo bs s0 cmds k w" and s: "sys K (SendLine (h_child h) (cmds ! k)) w = (Ok p, w')"
  have t: "todo (ext w) = bs ! k # drop (Suc k) bs" using w assms(2) by (simp add: before_step_def Cons_nth_drop_Suc)
  have "rc p = 0 \<and> pend (ext w') = pend (ext w) @ bs ! k \<and> todo (ext w') = drop (Suc k) bs"
    by (rule relaysD(2) [OF assms(1) t sys_result(1) [OF s]])
  then show "rc p = 0 \<and> asked pend todo bs s0 cmds k w'"
    using w sent_sys [OF s] assms(3) by (simp add: before_step_def asked_def take_Suc_conv_app_nth)
qed (simp add: ret_def)

lemma goes_wait:
  assumes "relays K pend todo clk d" "answers fuel d timeout pre (bs ! k)"
  shows "goes (asked pend todo bs s0 cmds k) (bind_io (harness_wait fuel K h pre timeout) (\<lambda>_. ret ())) (before_step pend todo bs s0 cmds (Suc k)) []"
  unfolding goes_def
proof (intro allI impI)
  fix w assume w: "asked pend todo bs s0 cmds k w"
  obtain noise l r where b: "bs ! k = noise @ [l]" "\<And>y. y \<in> set noise \<Longrightarrow> strip_prefix pre (reader_line y) = None"
    "strip_prefix pre (reader_line l) = Some r" "length noise < fuel" "(2 * length noise + 3) * d \<le> timeout"
    using assms(2) by (auto simp: answers_def)
  note c = relaysD(1) [OF assms(1)]
  have p: "pend (ext w) = noise @ l # []" using w b(1) by (simp add: asked_def)
  obtain w' where w': "harness_wait fuel K h pre timeout w = (Ok (trim r), w')" "pend (ext w') = []"
    using wait_result [OF c p b(2-5)] by blast
  then obtain t w1 where t: "now K w = (Ok t, w1)" "wait_loop fuel K h pre (t + timeout) w1 = (Ok (trim r), w')"
    by (auto simp: harness_wait_def bind_io_eq_Ok_iff)
  obtain q where q: "sys K Now w = (Ok q, w1)" using t(1) by (auto simp: now_def bind_io_eq_Ok_iff ret_def)
  have "pause (stays pend todo) w w1" by (rule sys_pause [OF relays_idle [OF assms(1)] q]) simp
  then have "todo (ext w') = todo (ext w)" "sent w' = sent w" "marks w' = marks w"
    using wait_loop_keeps [OF assms(1) t(2)] by (simp_all add: pause_def stays_def)
  then show "\<exists>w'. bind_io (harness_wait fuel K h pre timeout) (\<lambda>_. ret ()) w = (Ok (), w') \<and> before_step pend todo bs s0 cmds (Suc k) w' \<and> marks w' = marks w @ []"
    using w w' by (intro exI [of _ w']) (simp add: bind_io_def ret_def before_step_def asked_def)
qed

lemma exchange_goes:
  assumes "relays K pend todo clk d" "k < length bs" "k < length cmds" "cmds ! k = cmd" "answers fuel d timeout pre (bs ! k)"
  shows "all_go (stays pend todo) (before_step pend todo bs s0 cmds k)
     [harness_send K h cmd, bind_io (harness_wait fuel K h pre timeout) (\<lambda>_. ret ()), mark K t0 e, sys_ignore K (Sleep ms)]
     (before_step pend todo bs s0 cmds (Suc k)) [e]"
proof -
  note p = steps_persist(1) [of pend todo bs s0 cmds] and q = steps_persist(2) [of pend todo bs s0 cmds k]
  note c = relays_idle [OF assms(1)]
  show ?thesis
    by (rule more [OF p goes_send [OF assms(1-3), unfolded assms(4)] more [OF q goes_wait [OF assms(1,5)] vz.mark_and_sleep [OF c c p]]]) simp_all
qed

section \<open>The fleet run\<close>

text \<open>What the server in the guest is told, and what the harness is told.\<close>

definition fleet_script :: "vz_options \<Rightarrow> string list" where
  "fleet_script opts = replicate (unat (vz_services opts)) (''fleet start '' @ show_nat 1 @ '' '' @ show_nat (unat (vz_service_mib opts)))
     @ replicate (unat (vz_services opts)) ''fleet stop-one''"

definition fleet_commands :: "vz_options \<Rightarrow> string list" where
  "fleet_commands opts = map (\<lambda>c. ''guest '' @ c) (fleet_script opts) @ [''balloon '' @ show_nat (unat (vz_fleet_target opts))]"

definition vz_fleet_marks :: "nat \<Rightarrow> string list" where
  "vz_fleet_marks n = [''boot''] @ map (\<lambda>i. ''service-start-'' @ show_nat (Suc i)) [0..<n] @ [''hold'']
     @ map (\<lambda>i. ''service-stop-'' @ show_nat (Suc i)) [0..<n] @ [''tail'', ''balloon'', ''end'']"

text \<open>How a reply of the server reaches the driver: after kernel messages, with carriage returns.\<close>

definition relayed :: "nat \<Rightarrow> nat \<Rightarrow> string \<Rightarrow> string list \<Rightarrow> bool" where
  "relayed fuel d reply b \<longleftrightarrow> (\<exists>noise j. b = noise @ [''RATCHET '' @ reply @ replicate j (char_of (13::nat))]
     \<and> (\<forall>y\<in>set noise. strip_prefix ''RATCHET '' (reader_line y) = None) \<and> length noise < fuel \<and> (2 * length noise + 3) * d \<le> secs 60)"

lemma relayed_answers:
  assumes "relayed fuel d (p @ '' '' @ show_nat i) b"
  shows "answers fuel d (secs 60) (''RATCHET '' @ p) b"
proof -
  obtain noise j where b: "b = noise @ [''RATCHET '' @ (p @ '' '' @ show_nat i) @ replicate j (char_of (13::nat))]"
    "\<forall>y\<in>set noise. strip_prefix ''RATCHET '' (reader_line y) = None" "length noise < fuel" "(2 * length noise + 3) * d \<le> secs 60"
    using assms by (auto simp: relayed_def)
  have n: "strip_prefix (''RATCHET '' @ p) (reader_line y) = None" if "y \<in> set noise" for y
  proof (rule ccontr)
    assume "strip_prefix (''RATCHET '' @ p) (reader_line y) \<noteq> None"
    then obtain r where "reader_line y = ''RATCHET '' @ (p @ r)" by (auto simp: strip_prefix_Some_iff)
    then have "strip_prefix ''RATCHET '' (reader_line y) = Some (p @ r)" by (simp only: strip_prefix_Some_iff)
    then show False using b(2) that by simp
  qed
  have "reader_line (''RATCHET '' @ (p @ '' '' @ show_nat i) @ replicate j (char_of (13::nat))) = (''RATCHET '' @ p) @ '' '' @ show_nat i"
    using reader_line_number [of "''RATCHET '' @ p @ '' ''" i j] by simp
  then have "strip_prefix (''RATCHET '' @ p) (reader_line (''RATCHET '' @ (p @ '' '' @ show_nat i) @ replicate j (char_of (13::nat)))) \<noteq> None"
    by (simp only: strip_prefix_append) simp
  then show ?thesis unfolding answers_def using b n by blast
qed

lemma vz_mark_mark: "vz_mark K t0 e = mark K t0 e"
  by (simp add: vz_mark_def mark_def)

lemma services_go:
  assumes "relays K pend todo clk d" "k + n < length bs" "length bs = length cmds" "\<And>i. i < n \<Longrightarrow> cmds ! (k + i) = cmd"
    and "\<And>i. i < n \<Longrightarrow> answers fuel d timeout pre (bs ! (k + i))"
  shows "all_go (stays pend todo) (before_step pend todo bs s0 cmds k)
     (concat (map (\<lambda>i. [harness_send K h cmd, bind_io (harness_wait fuel K h pre timeout) (\<lambda>_. ret ()), mark K t0 (e i), sys_ignore K (Sleep ms)]) [0..<n]))
     (before_step pend todo bs s0 cmds (k + n)) (map e [0..<n])"
proof -
  have s: "all_go (stays pend todo) (before_step pend todo bs s0 cmds (k + i))
     [harness_send K h cmd, bind_io (harness_wait fuel K h pre timeout) (\<lambda>_. ret ()), mark K t0 (e i), sys_ignore K (Sleep ms)]
     (before_step pend todo bs s0 cmds (k + Suc i)) [e i]" if "i < n" for i
    using exchange_goes [OF assms(1) _ _ assms(4) [OF that] assms(5) [OF that], of s0 h t0 "e i" ms] that assms(2,3) by simp
  from all_go_chain [where I = "\<lambda>i. before_step pend todo bs s0 cmds (k + i)" and n = n, OF steps_persist(1) s] show ?thesis by simp
qed

text \<open>The answers to a fleet run: the server's replies relayed, then one to the balloon's target and one to the end.\<close>

definition fleet_answers :: "nat \<Rightarrow> nat \<Rightarrow> string list \<Rightarrow> string list list \<Rightarrow> bool" where
  "fleet_answers fuel d replies bs \<longleftrightarrow> length bs = length replies + 2
     \<and> (\<forall>i < length replies. relayed fuel d (replies ! i) (bs ! i)) \<and> answers fuel d (secs 10) ''HARNESS balloon-target'' (bs ! length replies)"

definition fleet_replies :: "nat \<Rightarrow> string list" where
  "fleet_replies n = map (\<lambda>i. ''FLEET-STARTED '' @ show_nat (Suc i)) [0..<n] @ map (\<lambda>i. ''FLEET-STOPPED '' @ show_nat i) (rev [0..<n])"

lemma fleet_answers_nth:
  assumes "fleet_answers fuel d (fleet_replies n) bs" "i < n"
  shows "answers fuel d (secs 60) ''RATCHET FLEET-STARTED'' (bs ! i)" "answers fuel d (secs 60) ''RATCHET FLEET-STOPPED'' (bs ! (n + i))"
proof -
  have r: "relayed fuel d (fleet_replies n ! i) (bs ! i)" "relayed fuel d (fleet_replies n ! (n + i)) (bs ! (n + i))"
    using assms by (simp_all add: fleet_answers_def fleet_replies_def)
  have "relayed fuel d (''FLEET-STARTED'' @ '' '' @ show_nat (Suc i)) (bs ! i)" using r(1) assms(2) by (simp add: fleet_replies_def nth_append)
  from relayed_answers [OF this] show "answers fuel d (secs 60) ''RATCHET FLEET-STARTED'' (bs ! i)" by simp
  have "relayed fuel d (''FLEET-STOPPED'' @ '' '' @ show_nat (n - Suc i)) (bs ! (n + i))"
    using r(2) assms(2) by (simp add: fleet_replies_def nth_append rev_nth)
  from relayed_answers [OF this] show "answers fuel d (secs 60) ''RATCHET FLEET-STOPPED'' (bs ! (n + i))" by simp
qed

lemma vz_fleet_ops_go:
  assumes "relays K pend todo clk d" "fleet_answers fuel d (fleet_replies (unat (vz_services opts))) bs"
  defines "cmds \<equiv> fleet_commands opts @ [''quit'']" and "n \<equiv> unat (vz_services opts)"
  shows "all_go (stays pend todo) (before_step pend todo bs s0 cmds 0) (vz_fleet_ops fuel K h opts t0)
     (before_step pend todo bs s0 cmds (Suc (n + n))) (vz_fleet_marks n)"
proof -
  let ?R = "stays pend todo" and ?I = "before_step pend todo bs s0 cmds" and ?m = "vz_service_mib opts"
  have len: "length bs = n + n + 2" "length cmds = n + n + 2"
    using assms(2) by (simp_all add: fleet_answers_def fleet_replies_def cmds_def fleet_commands_def fleet_script_def n_def)
  have each: "map f [1..<Suc n] = map (\<lambda>i. f (Suc i)) [0..<n]" for f :: "nat \<Rightarrow> ('a, unit) io list"
    unfolding One_nat_def map_Suc_upt [symmetric] by simp
  have one: "show_nat (Suc 0) = ''1''" by code_simp
  have nth: "cmds ! i = fleet_start_cmd ?m" "cmds ! (n + i) = ''guest fleet stop-one''" if "i < n" for i
    using that by (simp_all add: cmds_def fleet_commands_def fleet_script_def n_def [symmetric] nth_append fleet_start_cmd_def one)
  have last: "cmds ! (n + n) = ''balloon '' @ show_nat (unat (vz_fleet_target opts))"
    by (simp add: cmds_def fleet_commands_def fleet_script_def n_def [symmetric] nth_append)
  have ba: "answers fuel d (secs 10) ''HARNESS balloon-target'' (bs ! (n + n))"
    using assms(2) by (simp add: fleet_answers_def fleet_replies_def n_def)
  note c = relays_idle [OF assms(1)] and p = steps_persist(1) [of pend todo bs s0 cmds]
  note ans = fleet_answers_nth [OF assms(2), folded n_def]
  have pair: "all_go ?R (?I k) [mark K t0 e, sys_ignore K (Sleep ms)] (?I k) [e]" for k e ms by (rule vz.mark_and_sleep [OF c c p]) simp_all
  have start: "all_go ?R (?I 0) (concat (map (\<lambda>i. vz_service_start fuel K h t0 ?m (Suc i)) [0..<n])) (?I n) (map (\<lambda>i. ''service-start-'' @ show_nat (Suc i)) [0..<n])"
    using services_go [OF assms(1), of 0 n bs cmds "fleet_start_cmd ?m" fuel "secs 60" "''RATCHET FLEET-STARTED''" s0 h t0 "\<lambda>i. ''service-start-'' @ show_nat (Suc i)" 2000]
      len nth(1) ans(1) by (simp add: vz_service_start_def vz_mark_mark)
  have stop: "all_go ?R (?I n) (concat (map (\<lambda>i. vz_service_stop fuel K h t0 (Suc i)) [0..<n])) (?I (n + n)) (map (\<lambda>i. ''service-stop-'' @ show_nat (Suc i)) [0..<n])"
    using services_go [OF assms(1), of n n bs cmds "''guest fleet stop-one''" fuel "secs 60" "''RATCHET FLEET-STOPPED''" s0 h t0 "\<lambda>i. ''service-stop-'' @ show_nat (Suc i)" 2000]
      len nth(2) ans(2) by (simp add: vz_service_stop_def vz_mark_mark)
  have balloon: "all_go ?R (?I (n + n)) [harness_send K h (''balloon '' @ show_nat (unat (vz_fleet_target opts))),
      bind_io (harness_wait fuel K h ''HARNESS balloon-target'' (secs 10)) (\<lambda>_. ret ()), mark K t0 ''balloon'', sys_ignore K (Sleep 30000)]
      (?I (Suc (n + n))) [''balloon'']" using exchange_goes [OF assms(1) _ _ last ba] len by simp
  have final: "all_go ?R (?I k) [mark K t0 ''end''] (?I k) [''end'']" for k by (rule more [OF p vz.goes_mark [OF c p] none [OF p]]) simp_all
  from all_go_append [OF pair all_go_append [OF start all_go_append [OF pair all_go_append [OF stop all_go_append [OF pair all_go_append [OF balloon final]]]]],
      of "''boot''" 10000 "''hold''" 30000 "''tail''" 30000]
  show ?thesis unfolding vz_fleet_ops_def vz_fleet_marks_def vz_mark_mark Let_def n_def [symmetric] each by simp
qed

lemma quit_goes:
  assumes "relays K pend todo clk d" "before_step pend todo bs s0 cmds k w" "k < length bs" "length cmds = Suc k" "cmds ! k = ''quit''"
  shows "\<exists>w'. harness_quit K h w = (Ok (), w') \<and> sent w' = s0 @ cmds \<and> marks w' = marks w \<and> fst (last (trace w')) = WaitChild (h_child h)"
proof -
  have "goes (before_step pend todo bs s0 cmds k) (harness_send K h ''quit'') (asked pend todo bs s0 cmds k) []"
    using goes_send [OF assms(1,3), of cmds s0 h] assms(4,5) by simp
  then obtain w1 where w1: "harness_send K h ''quit'' w = (Ok (), w1)" "asked pend todo bs s0 cmds k w1" "marks w1 = marks w"
    using assms(2) by (auto simp: goes_def)
  obtain p1 w2 where 2: "sys K (WaitChild (h_child h)) w1 = (Ok p1, w2)" using sys_total by blast
  obtain p2 w3 where 3: "sys K (Kill (h_child h)) w2 = (Ok p2, w3)" using sys_total by blast
  obtain p3 w4 where 4: "sys K (WaitChild (h_child h)) w3 = (Ok p3, w4)" using sys_total by blast
  have "sent w4 = sent w1" "marks w4 = marks w1"
    using sent_sys [OF 2] sent_sys [OF 3] sent_sys [OF 4] sys_result(2) [OF 2] sys_result(2) [OF 3] sys_result(2) [OF 4] by (simp_all add: marks_def)
  moreover have "fst (last (trace w4)) = WaitChild (h_child h)" using sys_trace [OF 4] by simp
  moreover have "harness_quit K h w = (Ok (), w4)"
    using w1(1) 2 3 4 by (simp add: harness_quit_def drop_harness_def sys_ignore_def then_io_def bind_io_def ret_def)
  ultimately show ?thesis using w1(2,3) assms(4) by (simp add: asked_def)
qed

text \<open>
  C20. The fleet run of the driver and the server in the guest, end to end. Let the server serve the
  start and stop commands of the run, with forks that succeed, and let the harness relay its
  replies, each after any kernel messages and with any carriage returns, in time. Then the driver,
  however its sampler thread is scheduled, runs to its end: what it has sent is exactly the script
  the server served, the balloon's target and the end; its marks are complete and in order; the
  harness is reaped, and no child is left running in the guest.
\<close>

theorem vz_fleet_end_to_end:
  assumes "forks G" "trace v = []" "serve_all gf G (fleet_script opts) \<lparr>held = [], fleet = []\<rparr> v = (Ok (replies, st), v')"
    and "relays K pend todo clk d" "pend (ext w) = []" "fleet_answers fuel d replies (todo (ext w))"
  shows "fold kids_event (trace v') [] = [] \<and> (\<exists>w'. vz_fleet_run fuel K pace h pid opts w = (Ok (), w')
     \<and> sent w' = sent w @ map (\<lambda>c. ''guest '' @ c) (fleet_script opts) @ [''balloon '' @ show_nat (unat (vz_fleet_target opts)), ''quit'']
     \<and> marks w' = marks w @ vz_fleet_marks (unat (vz_services opts)) \<and> fst (last (trace w')) = WaitChild (h_child h))"
proof -
  let ?n = "unat (vz_services opts)" and ?bs = "todo (ext w)" and ?cmds = "fleet_commands opts @ [''quit'']"
  let ?I = "before_step pend todo ?bs (sent w) ?cmds"
  have R: "replies = fleet_replies ?n" "fold kids_event (trace v') [] = []"
    using fleet_served [OF assms(1,2), of gf ?n "unat (vz_service_mib opts)"] assms(3) by (auto simp: fleet_script_def fleet_replies_def)
  have len: "length ?bs = ?n + ?n + 2" "length ?cmds = Suc (Suc (?n + ?n))" "?cmds ! Suc (?n + ?n) = ''quit''"
    using assms(6) by (simp_all add: R(1) fleet_answers_def fleet_replies_def fleet_commands_def fleet_script_def nth_append)
  obtain q w1 where s: "sys K Now w = (Ok q, w1)" using sys_total by blast
  have p: "pause (stays pend todo) w w1" by (rule sys_pause [OF relays_idle [OF assms(4)] s]) simp
  have "?I 0 w" using assms(5) by (simp add: before_step_def)
  then have "?I 0 w1" using p steps_persist(1) [of pend todo ?bs "sent w" ?cmds 0] unfolding persists_def pause_def by blast
  from vz.beside_goes [OF vz_sample_idles [OF assms(4)] vz_fleet_ops_go [OF assms(4,6) [unfolded R(1)]] this]
  obtain u w2 where w2: "beside (vz_sample K (unat (rv q)) pid) (vz_fleet_ops fuel K h opts (unat (rv q))) pace True w1 = (Ok u, w2)"
    "?I (Suc (?n + ?n)) w2" "marks w2 = marks w1 @ vz_fleet_marks ?n" by blast
  obtain w' where w': "harness_quit K h w2 = (Ok (), w')" "sent w' = sent w @ ?cmds" "marks w' = marks w2" "fst (last (trace w')) = WaitChild (h_child h)"
    using quit_goes [OF assms(4) w2(2)] len by auto
  have "vz_fleet_run fuel K pace h pid opts w = (Ok (), w')"
    using s w2(1) w'(1) by (simp add: vz_fleet_run_def now_def bind_io_def ret_def)
  then show ?thesis using R(2) w'(2-4) w2(3) p by (intro conjI exI [of _ w']) (simp_all add: fleet_commands_def pause_def)
qed

text \<open>One service, with a kernel message before its reply.\<close>

theorem vz_fleet_end_to_end_witness:
  "\<exists>w'. vz_fleet_run 2 feed_kernel [2, 0, 1] example_harness 7 (vz_defaults\<lparr>vz_services := 1\<rparr>)
      (feed_world [] [[''boot'', ''RATCHET FLEET-STARTED 1''], [''RATCHET FLEET-STOPPED 0''], [''HARNESS balloon-target''], []]) = (Ok (), w')
     \<and> sent w' = [''guest fleet start 1 256'', ''guest fleet stop-one'', ''balloon 5888'', ''quit'']
     \<and> marks w' = [''boot'', ''service-start-1'', ''hold'', ''service-stop-1'', ''tail'', ''balloon'', ''end'']"
proof -
  let ?q = "vz_defaults\<lparr>vz_services := 1\<rparr>" and ?bs = "[[''boot'', ''RATCHET FLEET-STARTED 1''], [''RATCHET FLEET-STOPPED 0''], [''HARNESS balloon-target''], []]"
  have d: "show_nat 0 = ''0''" "show_nat (Suc 0) = ''1''" "show_nat 256 = ''256''" "show_nat 5888 = ''5888''"
    by (simp_all add: show_nat.simps digit_def char_of_def bit_0 bit_numeral_rec)
  have o: "unat (vz_services ?q) = 1" "unat (vz_service_mib ?q) = 256" "unat (vz_fleet_target ?q) = 5888" "unat (vz_service_mib vz_defaults) = 256"
    by (simp_all add: vz_defaults_def vz_fleet_target_def)
  have t: "trace (script_world []) = []" by (simp add: script_world_def)
  obtain v' where v': "serve_all 1 script_kernel (fleet_script ?q) \<lparr>held = [], fleet = []\<rparr> (script_world []) =
       (Ok ([''FLEET-STARTED 1'', ''FLEET-STOPPED 0''], \<lparr>held = [], fleet = []\<rparr>), v')"
    using fleet_served [OF script_forks t, of 1 1 256] unfolding fleet_script_def o(1,2) by (auto simp: d simp del: serve_all.simps replicate.simps)
  have r: "reader_line ''boot'' = ''boot''" "reader_line ''HARNESS balloon-target'' = ''HARNESS balloon-target''" by code_simp+
  have "relayed 2 0 ''FLEET-STARTED 1'' (?bs ! 0)" "relayed 2 0 ''FLEET-STOPPED 0'' (?bs ! 1)"
    unfolding relayed_def by (rule exI [of _ "[''boot'']"] exI [of _ "[]"], rule exI [of _ 0], simp add: r strip_prefix_def)+
  moreover have "answers 2 0 (secs 10) ''HARNESS balloon-target'' (?bs ! 2)"
    unfolding answers_def by (rule exI [of _ "[]"], rule exI [of _ "''HARNESS balloon-target''"], simp add: r strip_prefix_def)
  ultimately have a: "fleet_answers 2 0 [''FLEET-STARTED 1'', ''FLEET-STOPPED 0''] (f_todo (ext (feed_world [] ?bs)))"
    by (auto simp: fleet_answers_def feed_world_def less_Suc_eq)
  have e: "sent (feed_world [] ?bs) = []" "marks (feed_world [] ?bs) = []" "f_pend (ext (feed_world [] ?bs)) = []" by (simp_all add: sent_def marks_def feed_world_def map_filter_def)
  show ?thesis
    using vz_fleet_end_to_end [OF script_forks t v' feed_relays e(3) a, of "[2, 0, 1]" example_harness 7]
    by (auto simp: e o d fleet_script_def vz_fleet_marks_def)
qed

end
