(* ===== verification/Spec2Isabelle.thy ===== *)
theory Spec2Isabelle
  imports Guest_Correct Host_Correct Hammer_Correct Experiments Soak_Correct Soak_Sound Fleet_Correct Process Vz_Fleet Probes
begin

text \<open>
  A verification of \<^verbatim>\<open>macos-vm-memory-ratchet\<close>, the measurement suite that shows what macOS
  charges a process for the memory of a virtual machine, and when it stops charging for it.

  \<^bold>\<open>The program.\<close> All of its Rust code is modelled. \<^verbatim>\<open>crates/ledger\<close> reads the task's
  memory ledger, re-executes the binary as a pressure generator (\<^verbatim>\<open>pressure.rs\<close>) and keeps a
  positive control (\<^verbatim>\<open>canary.rs\<close>). \<^verbatim>\<open>crates/hv-reclaim\<close> builds a VM in its own process on
  Hypervisor.framework (\<^verbatim>\<open>hvf.rs\<close>), with five hand-assembled guest programs and the loops that run
  them (\<^verbatim>\<open>guest.rs\<close>); its \<^verbatim>\<open>main.rs\<close> has the reclaim experiment, the two pressure probes and the
  dispatch to the other modes: timed reclaim (\<^verbatim>\<open>timing.rs\<close>), a simulated fleet
  (\<^verbatim>\<open>fleet_sim.rs\<close>), the multi-vCPU soak (\<^verbatim>\<open>soak.rs\<close>) and the allocation matrix with one child
  process per cell (\<^verbatim>\<open>alloc_shape.rs\<close>). \<^verbatim>\<open>crates/vz-ratchet\<close> drives a Linux guest on
  Virtualization.framework over a line protocol; \<^verbatim>\<open>guest-init\<close> is the server at the other end of
  it. \<^verbatim>\<open>crates/pressure-discard\<close> and \<^verbatim>\<open>crates/calibrate-madvise\<close> are stand-alone probes.

  \<^bold>\<open>The model.\<close> An effect is a function from a world to an outcome and a world (theory
  \<open>Host\<close>). The outcome is a value, a panic (a failed \<^verbatim>\<open>check\<close>, an assert, an \<^verbatim>\<open>expect\<close>, an
  explicit one) or \<open>OutOfFuel\<close>. The world is the memory of the process byte by byte, the trace of
  the calls made with their answers, the printed lines, and the state of a kernel. The kernel
  (\<^verbatim>\<open>libc\<close>, the framework, child processes, pipes, the clock) is not code of the repository:
  it is the parameter \<open>K\<close> of every definition, and what a property needs of it is a hypothesis
  of that property. Most properties need none, or only that the kernel does not hand out memory
  that is in use (\<open>honest\<close>). \<open>Platform\<close> is a concrete kernel that runs the guest programs; the
  witnesses use it. Machine integers are words of 64 or 32 bits and wrap around, as in a release
  build.

  \<^bold>\<open>Which theory models what.\<close>
  \<^item> \<open>Prelude\<close>, \<open>Text\<close>: bytes and words of memory, strided ranges; the string functions the
    sources use, with their round trips.
  \<^item> \<open>Host\<close>: \<^verbatim>\<open>hvf.rs\<close>, calls, effects. \<open>Calls\<close>: which calls an effect makes.
  \<^item> \<open>Arm\<close>, \<open>Guest\<close>, \<open>Guest_Programs\<close>, \<open>Guest_Passes\<close>, \<open>Hammer\<close>: the instructions the guest
    programs use, \<^verbatim>\<open>guest.rs\<close>, and what each program and each run loop does. \<open>Guest_Correct\<close>
    holds the properties.
  \<^item> \<open>Ledger\<close>, \<open>Canary\<close>, \<open>Pressure\<close>, \<open>Options\<close>: \<^verbatim>\<open>crates/ledger\<close> and the command line of
    \<^verbatim>\<open>hv-reclaim\<close>; properties in \<open>Host_Correct\<close>.
  \<^item> \<open>Stage2\<close>: the discipline. A ghost state is computed from the trace: the stage-2 table and
    the host memory in use. A trace is disciplined when no call advises, unmaps or deallocates
    host memory that a guest address still maps to, and no call maps host memory that is not in
    use. \<open>safe\<close> is a Hoare triple over the ghost state that also speaks about runs that panic.
  \<^item> \<open>Reclaim\<close>, \<open>Timing\<close>, \<open>Fleet_Sim\<close>, \<open>Soak\<close>, \<open>Alloc_Shape\<close>, \<open>Matrix\<close>, \<open>Hv_Main\<close>, \<open>Process\<close>:
    the rest of \<^verbatim>\<open>hv-reclaim\<close>, from the reclaim sequence to the whole process. The discipline is
    carried through them in \<open>Main_Safe\<close>, \<open>Soak_Safe\<close>, \<open>Discipline\<close>, \<open>Cells\<close> and \<open>Process\<close>; other
    properties are in \<open>Experiments\<close>, \<open>Soak_Correct\<close> and \<open>Matrix_Correct\<close>.
  \<^item> \<open>Interleaving\<close>, \<open>Soak_Frame\<close>, \<open>Soak_Worker\<close>, \<open>Soak_Account\<close>, \<open>Soak_Sound\<close>: threads under a schedule in
    general, and the soak on a host that keeps its contract: what a worker leaves alone, what holds
    at each point of its loop, what its counters add up to, and how the run ends.
  \<^item> \<open>Threads\<close>, \<open>Background\<close>, \<open>Fleet_Correct\<close>: the sampler thread of the fleet runs beside the main one,
    and the fleet simulation from its first mark to its last.
  \<^item> \<open>Hammer_Race\<close>, \<open>Hammer_Correct\<close>: the hammer probe as a step relation of guest
    instructions, resumptions and page discards, and the closure that ends it.
  \<^item> \<open>Guest_Init\<close>, \<open>Init_Correct\<close>, \<open>Init_Fleet\<close>: \<^verbatim>\<open>guest-init/src/main.rs\<close>.
  \<^item> \<open>Vz\<close>, \<open>Vz_Correct\<close>, \<open>Vz_Fleet\<close>: \<^verbatim>\<open>crates/vz-ratchet\<close>; the last joins its fleet run to the
    server in the guest.
  \<^item> \<open>Probes\<close>: \<^verbatim>\<open>pressure-discard\<close> and \<^verbatim>\<open>calibrate-madvise\<close>, and the surveys of the two
    pressure probes.

  \<^bold>\<open>What is shown.\<close> The central property is in \<open>Process\<close>: whatever the environment, the
  command line, the schedule and the answers of an honest kernel, a process of \<^verbatim>\<open>hv-reclaim\<close> that is
  not asked for the trap itself, nor for a fleet whose size wraps around, is disciplined, also when it
  panics; \<open>naive_trap\<close> and \<open>cell_inplace_undisciplined\<close> show that the two ways to ask for the trap, the
  cell when it returns, are not disciplined, so the notion tells them apart. The guest programs are proved on their machine code: what a touch, a
  sweep, a fill, a verification and a hammer run do to every page, and that they return. The
  detectors are exact: the canary, the surveys, the checker in the guest, the hammer's count under
  every interleaving with discards, together with its blind spot between load and store. The soak
  raises no false alarm: under every interleaving of its workers, and whichever of their calls fail,
  it ends without a mismatch on a host that keeps its contract, and its totals are exact; this is for
  options that divide guest RAM into slots of whole pages (\<open>paged_slots\<close>), which the program does not
  check (\<open>slots_unaligned\<close>). A fleet that fits without wrap-around, of regions that are not empty, on a
  host that fails no call runs to its end with all its marks, whatever its sampler does, in the simulation and, with
  the server's replies relayed, on the Linux guest. The protocols are followed to their ends: the
  generator and its guard, the hammer's pressure, the session of the guest's server, the line
  protocol between driver, harness and guest, and the matrix from a child's specification to the
  row it is judged by. A command line is accepted exactly when it is a sequence
  of the documented flags and options with their values, with the options they say, in a combination
  the code admits; where that departs from what the code announces, the text of the property says so.

  \<^bold>\<open>Interfaces.\<close> The locales \<open>guest_program\<close> (enter, one round per page, ring the doorbell: the
  five word arrays), \<open>release_step\<close> (a release of host memory inside an unmapped window: the advice,
  and either reclaim mode), \<open>codec\<close> (a tag and the parser that reads it: the three enumerations of the
  matrix), \<open>interleaving\<close> (threads that keep their own assertion and leave the others' alone: the
  turns of the soak) and \<open>background\<close> (what a thread beside the main one may do: the two samplers)
  are interpreted on the program's own definitions.

  \<^bold>\<open>Fuel and schedules.\<close> A loop that may not end has fuel: a guest run that is cancelled again
  and again, the hammer's sweeps, the server's lines, a wait for a line. Properties that say such a
  loop returns name the fuel that is enough: more than the cancellations the framework will still
  make, than the lines before the one waited for. The endless loops of a generator and of a
  fleet child end with the fuel. The threads of the soak are interleaved by a schedule, one
  operation of a worker at a time, where a guest pass and the two calls of a munmap-mode release
  count as one operation; a schedule that ends before the workers do is \<open>OutOfFuel\<close>. A worker that
  gets 72 turns for every second of the run and two more reaches its end, since each cycle of
  eighteen turns sleeps for a quarter of a second. The sampler of a fleet run takes the number of
  rounds the schedule gives it between two operations of the main thread.

  \<^bold>\<open>What is simplified.\<close> A printed line is its format with its arguments, not the formatted text
  (except where another component reads it), and characters beyond ASCII are spelt out; the messages
  of panics are shortened; standard error is left out. What destructors do while a panic
  unwinds is left out. \<^verbatim>\<open>f64\<close> values are rationals: the conversion from 64-bit integers is
  exact rounding, later arithmetic is not rounded, and a quotient that is infinite or not a number
  is printed as such. The
  reader thread of the harness is not a thread of the model: its lines are read where the driver
  waits for them. A call that blocks (the line of a generator, the wait for
  a child, a sleep) is answered in one step, so that a model run that returns says nothing about how
  long these take. The fleet simulation's discipline assumes that its guard does not
  wrap around; \<open>fleet_fits_wraps\<close> shows that it can, and \<open>balloon_target_wraps\<close> that the balloon target
  of \<^verbatim>\<open>vz-ratchet\<close> can.

  \<^bold>\<open>Not modelled.\<close> The Swift harness (\<^verbatim>\<open>harness/vz-ratchet.swift\<close>) and the shell scripts: they
  are not Rust, and the harness's lines are answers of the kernel here. The kernel, the frameworks
  and the guest's Linux kernel are parameters.
\<close>

end
